(* ===== verification/Prelude.thy ===== *)
theory Prelude
  imports Complex_Main "HOL-Library.Word" "HOL-Library.List_Lexorder" "HOL-Library.AList"
begin

text \<open>
  Shared vocabulary of the development: the machine types of the Rust sources, the outcome of a
  fallible call, hash maps and hash sets whose iteration the code uses, and the generic lemmas
  on them that the component theories rely on.
\<close>

section \<open>Machine types\<close>

type_synonym u8 = "8 word"
type_synonym u16 = "16 word"
type_synonym u32 = "32 word"
type_synonym u64 = "64 word"
type_synonym i64 = "64 word"
type_synonym uuid = "128 word"
type_synonym bytes = "u8 list"

text \<open>
  \<open>Bytes\<close> compares lexicographically on unsigned bytes; that is the list order of
  \<open>HOL-Library.List_Lexorder\<close> over the unsigned word order.
\<close>

section \<open>Floating point values\<close>

text \<open>
  The code only compares \<open>f64\<close> values and converts counters to them, so a value is a rational,
  an infinity or not a number; every comparison with \<open>NaN\<close> is false, as in IEEE 754.
\<close>

datatype f64 = Fin rat | PosInf | NegInf | NaN

fun f64_le :: "f64 \<Rightarrow> f64 \<Rightarrow> bool" where
  "f64_le NaN _ = False"
| "f64_le _ NaN = False"
| "f64_le NegInf _ = True"
| "f64_le _ PosInf = True"
| "f64_le (Fin x) (Fin y) = (x \<le> y)"
| "f64_le _ _ = False"

fun f64_lt :: "f64 \<Rightarrow> f64 \<Rightarrow> bool" where
  "f64_lt x y = (f64_le x y \<and> x \<noteq> y)"

definition f64_of_nat :: "nat \<Rightarrow> f64" where
  "f64_of_nat n = Fin (of_nat n)"

section \<open>Outcomes\<close>

text \<open>
  A Rust call returns \<open>Ok\<close>, returns \<open>Err\<close>, or panics (an \<open>unwrap\<close>, an \<open>assert\<close> or a
  \<open>panic!\<close>).
\<close>

datatype ('e, 'a) outcome = Ok 'a | Err 'e | Panic

primrec map_err :: "('e \<Rightarrow> 'f) \<Rightarrow> ('e, 'a) outcome \<Rightarrow> ('f, 'a) outcome" where
  "map_err f (Ok x) = Ok x"
| "map_err f (Err e) = Err (f e)"
| "map_err f Panic = Panic"

text \<open>The \<open>unwrap\<close> of a \<open>Result\<close>.\<close>

primrec unwrap :: "('e, 'a) outcome \<Rightarrow> ('f, 'a) outcome" where
  "unwrap (Ok x) = Ok x"
| "unwrap (Err e) = Panic"
| "unwrap Panic = Panic"

text \<open>The \<open>?\<close> operator: go on with the value of \<open>Ok\<close>, return everything else.\<close>

primrec try_ok :: "('e, 'a) outcome \<Rightarrow> ('a \<Rightarrow> ('e, 'b) outcome) \<Rightarrow> ('e, 'b) outcome" where
  "try_ok (Ok x) f = f x"
| "try_ok (Err e) f = Err e"
| "try_ok Panic f = Panic"

lemma try_ok_eq_Ok [simp]: "try_ok r f = Ok y \<longleftrightarrow> (\<exists>x. r = Ok x \<and> f x = Ok y)"
  by (cases r) auto

lemma unwrap_not_Err [simp]: "unwrap r \<noteq> Err e"
  by (cases r) auto

section \<open>Hash maps and hash sets\<close>

text \<open>
  A \<open>HashMap\<close> (or \<open>HashSet\<close>) that the code only looks up is a partial function (or a set). One
  that the code iterates over is an association list with distinct keys (or a distinct list):
  the list is the iteration order, which Rust leaves open. The theorems about such loops speak
  of \<open>map_of\<close> and \<open>set\<close> only.
\<close>

type_synonym ('k, 'v) hmap = "('k \<times> 'v) list"

abbreviation hm_get :: "('k, 'v) hmap \<Rightarrow> 'k \<Rightarrow> 'v option" where
  "hm_get m k \<equiv> map_of m k"

abbreviation hm_insert :: "'k \<Rightarrow> 'v \<Rightarrow> ('k, 'v) hmap \<Rightarrow> ('k, 'v) hmap" where
  "hm_insert k v m \<equiv> AList.update k v m"

abbreviation hm_remove :: "'k \<Rightarrow> ('k, 'v) hmap \<Rightarrow> ('k, 'v) hmap" where
  "hm_remove k m \<equiv> AList.delete k m"

abbreviation hm_keys :: "('k, 'v) hmap \<Rightarrow> 'k list" where
  "hm_keys m \<equiv> map fst m"

definition hm_contains :: "('k, 'v) hmap \<Rightarrow> 'k \<Rightarrow> bool" where
  "hm_contains m k \<longleftrightarrow> map_of m k \<noteq> None"

definition hs_insert :: "'a \<Rightarrow> 'a list \<Rightarrow> 'a list" where
  "hs_insert x xs = (if x \<in> set xs then xs else xs @ [x])"

lemma set_hs_insert [simp]: "set (hs_insert x xs) = insert x (set xs)"
  by (auto simp: hs_insert_def)

lemma distinct_hs_insert [simp]: "distinct (hs_insert x xs) \<longleftrightarrow> distinct xs"
  by (auto simp: hs_insert_def)

lemma hm_contains_iff: "hm_contains m k \<longleftrightarrow> k \<in> set (hm_keys m)"
  by (auto simp: hm_contains_def map_of_eq_None_iff)

lemma map_of_hm_insert [simp]: "map_of (hm_insert k v m) = (map_of m)(k \<mapsto> v)"
  by (rule update_conv')

lemma map_of_hm_remove [simp]: "map_of (hm_remove k m) = (map_of m)(k := None)"
  by (rule delete_conv')

lemma distinct_hm_insert: "distinct (hm_keys m) \<Longrightarrow> distinct (hm_keys (hm_insert k v m))"
  by (rule distinct_update)

lemma distinct_hm_remove: "distinct (hm_keys m) \<Longrightarrow> distinct (hm_keys (hm_remove k m))"
  by (rule distinct_delete)

lemma hm_insert_not_Nil [simp]: "hm_insert k v m \<noteq> []"
  by (cases m) auto

lemma hm_keys_hm_insert: "set (hm_keys (hm_insert k v m)) = insert k (set (hm_keys m))"
  by (metis insert_code(1) dom_map_of_conv_image_fst list.set_map map_of_hm_insert
      dom_fun_upd option.distinct(1) insert_iff)

lemma image_fst_hm_insert [simp]: "fst ` set (hm_insert k v m) = insert k (fst ` set m)"
  using hm_keys_hm_insert [of k v m] by simp

lemma image_fst_hm_remove [simp]: "fst ` set (hm_remove k m) = fst ` set m - {k}"
  by (metis delete_conv' dom_fun_upd dom_map_of_conv_image_fst)

section \<open>Collections of facts\<close>

named_theorems defs \<open>definitions of the operations, for unfolding one call\<close>
named_theorems inv_intros \<open>preservation of a component invariant by one operation\<close>

lemma word_le_inc: "x \<le> x + 1" if "x \<noteq> - 1" for x :: "'a :: len word"
proof -
  have "1 + x \<noteq> 0" using that by (auto simp: eq_neg_iff_add_eq_0 add.commute)
  then show ?thesis by (simp add: word_le_nat_alt unatSuc add.commute)
qed

lemma unat_plus_nat:
  "unat x + unat y < 2 ^ LENGTH('a) \<Longrightarrow> unat (x + y) = unat x + unat y" for x y :: "'a :: len word"
  by (rule unat_add_lem [THEN iffD1])

lemma f64_lt_Fin [simp]: "f64_lt (Fin x) (Fin y) \<longleftrightarrow> x < y"
  by auto

end
