(* ===== verification/Key_Range.thy ===== *)
theory Key_Range
  imports Prelude
begin

text \<open>
  \<open>common/src/key_range.rs\<close>: key ranges with an optional inclusive lower and an optional
  exclusive upper bound, and their conversion from the protobuf message of the universe service.
\<close>

record key_range =
  lower_bound_inclusive :: "bytes option"
  upper_bound_exclusive :: "bytes option"

definition kr_includes :: "key_range \<Rightarrow> bytes \<Rightarrow> bool" where
  "kr_includes r key =
     (let within_lower = (case lower_bound_inclusive r of None \<Rightarrow> True | Some b \<Rightarrow> b \<le> key);
          within_upper = (case upper_bound_exclusive r of None \<Rightarrow> True | Some b \<Rightarrow> key < b)
      in within_lower \<and> within_upper)"

definition key_range_all :: key_range where
  "key_range_all = \<lparr>lower_bound_inclusive = None, upper_bound_exclusive = None\<rparr>"

definition key_range_empty :: key_range where
  "key_range_empty = \<lparr>lower_bound_inclusive = Some [], upper_bound_exclusive = Some []\<rparr>"

text \<open>The protobuf \<open>KeyRange\<close> message: its byte fields are empty when unset.\<close>

record proto_key_range =
  base_range_uuid :: string
  proto_lower_bound_inclusive :: bytes
  proto_upper_bound_exclusive :: bytes

definition key_range_from_proto :: "proto_key_range \<Rightarrow> key_range" where
  "key_range_from_proto p =
     \<lparr>lower_bound_inclusive = Some (proto_lower_bound_inclusive p),
      upper_bound_exclusive = Some (proto_upper_bound_exclusive p)\<rparr>"

lemma kr_includes_all [simp]: "kr_includes key_range_all key"
  by (simp add: kr_includes_def key_range_all_def)

lemma not_kr_includes_empty [simp]: "\<not> kr_includes key_range_empty key"
  by (simp add: kr_includes_def key_range_empty_def)

lemma kr_includes_convex:
  "kr_includes r k1 \<Longrightarrow> kr_includes r k2 \<Longrightarrow> k1 \<le> k \<Longrightarrow> k \<le> k2 \<Longrightarrow> kr_includes r k"
  by (auto simp: kr_includes_def split: option.splits)

text \<open>Two ranges that meet at a bound share no key, and leave no gap between them.\<close>

lemma kr_includes_adjacent:
  assumes "l \<noteq> None \<Longrightarrow> the l \<le> b" and "u \<noteq> None \<Longrightarrow> b \<le> the u"
  shows "kr_includes \<lparr>lower_bound_inclusive = l, upper_bound_exclusive = u\<rparr> k \<longleftrightarrow>
    (kr_includes \<lparr>lower_bound_inclusive = l, upper_bound_exclusive = Some b\<rparr> k \<noteq>
     kr_includes \<lparr>lower_bound_inclusive = Some b, upper_bound_exclusive = u\<rparr> k)"
  using assms by (auto simp: kr_includes_def split: option.splits)

text \<open>
  The conversion from the protocol message keeps an unset (empty) upper bound as the bound
  \<open>[]\<close>, below which there is no key: such a range admits nothing, although its documentation
  says that an unspecified end is unbounded. With a non-empty upper bound the conversion admits
  exactly the keys between the bounds.
\<close>

theorem from_proto_bounds:
  "kr_includes (key_range_from_proto p) key \<longleftrightarrow>
     proto_upper_bound_exclusive p \<noteq> [] \<and>
     proto_lower_bound_inclusive p \<le> key \<and> key < proto_upper_bound_exclusive p"
  by (auto simp: kr_includes_def key_range_from_proto_def)

end
