(* ===== verification/Common.thy ===== *)
theory Common
  imports Prelude
begin

text \<open>
  The small shared types of the \<open>common\<close> crate (\<open>transaction_info.rs\<close>, \<open>full_range_id.rs\<close>,
  \<open>keyspace_id.rs\<close>, \<open>keyspace.rs\<close>, \<open>record.rs\<close>, \<open>constants.rs\<close>, the enums of \<open>config.rs\<close>) and the
  flatbuffer encoding of identifiers (\<open>util/flatbuf.rs\<close>) with its round trip.
\<close>

unbundle bit_operations_syntax

type_synonym time = int

text \<open>The timeout is a duration in nanoseconds.\<close>

record transaction_info =
  ti_id :: uuid
  started :: time
  overall_timeout :: nat

record full_range_id =
  keyspace_id :: uuid
  range_id :: uuid

record keyspace =
  namespace :: string
  ks_name :: string

datatype commit_strategy = Traditional | Pipelined | Adaptive

datatype heuristic = OpenClients | LockContention

definition INVALID_LEADER_SEQUENCE_NUMBER :: i64 where
  "INVALID_LEADER_SEQUENCE_NUMBER = - 1"

definition UNSET_LEADER_SEQUENCE_NUMBER :: i64 where
  "UNSET_LEADER_SEQUENCE_NUMBER = 0"

section \<open>Identifiers on the wire\<close>

text \<open>The flatbuffer tables \<open>Uuidu128\<close> and \<open>RangeId\<close>; a table field may be absent.\<close>

record uuidu128 =
  lower :: u64
  upper :: u64

record fb_range_id =
  fb_keyspace :: "uuidu128 option"
  fb_range :: "uuidu128 option"

text \<open>
  A \<open>Uuid\<close> is its 128-bit value; \<open>to_u128_le\<close> and \<open>from_u128_le\<close> of the \<open>uuid\<close> crate reverse the
  order of its sixteen bytes and are parameters \<open>to_le\<close> and \<open>from_le\<close> of the encoding.
\<close>

definition serialize_uuid :: "(uuid \<Rightarrow> 128 word) \<Rightarrow> uuid \<Rightarrow> uuidu128" where
  "serialize_uuid to_le uuid =
     (let uint128 = to_le uuid
      in \<lparr>lower = ucast uint128, upper = ucast (drop_bit 64 uint128)\<rparr>)"

definition deserialize_uuid :: "(128 word \<Rightarrow> uuid) \<Rightarrow> uuidu128 \<Rightarrow> uuid" where
  "deserialize_uuid from_le u =
     from_le (push_bit 64 (ucast (upper u)) OR ucast (lower u))"

definition serialize_range_id :: "(uuid \<Rightarrow> 128 word) \<Rightarrow> full_range_id \<Rightarrow> fb_range_id" where
  "serialize_range_id to_le i =
     \<lparr>fb_keyspace = Some (serialize_uuid to_le (keyspace_id i)),
      fb_range = Some (serialize_uuid to_le (range_id i))\<rparr>"

definition deserialize_range_id :: "(128 word \<Rightarrow> uuid) \<Rightarrow> fb_range_id \<Rightarrow> full_range_id option" where
  "deserialize_range_id from_le i =
     (case fb_keyspace i of
        None \<Rightarrow> None
      | Some k \<Rightarrow>
          (case fb_range i of
             None \<Rightarrow> None
           | Some r \<Rightarrow> Some \<lparr>keyspace_id = deserialize_uuid from_le k,
                            range_id = deserialize_uuid from_le r\<rparr>))"

text \<open>The two halves of a 128-bit word put it together again.\<close>

lemma join_halves:
  "push_bit 64 (ucast (ucast (drop_bit 64 w) :: u64)) OR ucast (ucast w :: u64) = (w :: 128 word)"
  by (rule bit_word_eqI) (auto simp: bit_simps)

lemma deserialize_serialize_uuid:
  "from_le (to_le x) = x \<Longrightarrow> deserialize_uuid from_le (serialize_uuid to_le x) = x"
  by (simp add: deserialize_uuid_def serialize_uuid_def Let_def join_halves)

lemma split_halves:
  "ucast (push_bit 64 (ucast u) OR ucast l :: 128 word) = (l :: u64)"
  "ucast (drop_bit 64 (push_bit 64 (ucast u) OR ucast l :: 128 word)) = (u :: u64)"
  by (rule bit_word_eqI, auto simp: bit_simps dest: bit_imp_le_length)+

lemma serialize_deserialize_uuid:
  "(\<And>w. to_le (from_le w) = w) \<Longrightarrow> serialize_uuid to_le (deserialize_uuid from_le u) = u"
  by (cases u) (simp only: deserialize_uuid_def serialize_uuid_def Let_def split_halves
      uuidu128.select_convs)

text \<open>
  A range identifier survives the wire: for every identifier, decoding the two pairs of 64-bit
  halves it was encoded to gives it back, provided that \<open>from_u128_le\<close> undoes \<open>to_u128_le\<close>.
\<close>

theorem range_id_roundtrip:
  assumes "\<And>x. from_le (to_le x) = x"
  shows "deserialize_range_id from_le (serialize_range_id to_le i) = Some i"
  by (simp add: deserialize_range_id_def serialize_range_id_def assms deserialize_serialize_uuid)

theorem range_id_roundtrip_witness:
  "deserialize_range_id word_reverse (serialize_range_id word_reverse
     \<lparr>keyspace_id = 0x0123456789ABCDEF0011223344556677, range_id = 7\<rparr>) =
   Some \<lparr>keyspace_id = 0x0123456789ABCDEF0011223344556677, range_id = 7\<rparr>"
  using range_id_roundtrip [of word_reverse word_reverse] by simp

end
