(* ===== verification/Errors.thy ===== *)
theory Errors
  imports Prelude
begin

text \<open>
  \<open>rangeserver/src/error.rs\<close>, \<open>transaction_abort_reason.rs\<close> and the error enums of the storage,
  WAL and cache traits: the conversions between them and the status codes on the wire.
\<close>

text \<open>A dynamic error value (\<open>Arc<dyn std::error::Error>\<close>) is its description.\<close>

type_synonym dyn_error = string

datatype transaction_abort_reason = WaitDie | TransactionLockLost | OtherReason

datatype storage_error =
    StorageTimeout
  | StorageRangeDoesNotExist
  | StorageRangeOwnershipLost
  | StorageInternalError dyn_error

datatype wal_error = WalNotSynced | WalTimeout | WalInternal dyn_error

datatype cache_error = CacheTimeout | CacheErrorIsFull | CacheInternalError dyn_error

datatype error =
    InvalidRequestFormat
  | RangeDoesNotExist
  | RangeIsNotLoaded
  | KeyIsOutOfRange
  | RangeOwnershipLost
  | Timeout
  | ConnectionClosed
  | UnknownTransaction
  | CacheIsFull
  | PrefetchError
  | TransactionAborted transaction_abort_reason
  | InternalError dyn_error

fun from_storage_error :: "storage_error \<Rightarrow> error" where
  "from_storage_error StorageRangeDoesNotExist = RangeDoesNotExist"
| "from_storage_error StorageRangeOwnershipLost = RangeOwnershipLost"
| "from_storage_error StorageTimeout = Timeout"
| "from_storage_error (StorageInternalError e) = InternalError e"

fun from_wal_error :: "wal_error \<Rightarrow> error" where
  "from_wal_error WalTimeout = Timeout"
| "from_wal_error WalNotSynced = RangeOwnershipLost"
| "from_wal_error (WalInternal e) = InternalError e"

fun from_cache_error :: "cache_error \<Rightarrow> error" where
  "from_cache_error CacheErrorIsFull = CacheIsFull"
| "from_cache_error CacheTimeout = Timeout"
| "from_cache_error (CacheInternalError e) = InternalError e"

text \<open>
  The flatbuffer enum \<open>Status\<close> is a byte on the wire; a byte that is none of the named codes is
  \<open>S_Unknown\<close>.
\<close>

datatype status =
    S_Ok
  | S_InvalidRequestFormat
  | S_RangeDoesNotExist
  | S_RangeIsNotLoaded
  | S_KeyIsOutOfRange
  | S_RangeOwnershipLost
  | S_Timeout
  | S_InternalError
  | S_TransactionAborted
  | S_UnknownTransaction
  | S_CacheIsFull
  | S_PrefetchError
  | S_Unknown u8

fun to_flatbuf_status :: "error \<Rightarrow> status" where
  "to_flatbuf_status InvalidRequestFormat = S_InvalidRequestFormat"
| "to_flatbuf_status RangeDoesNotExist = S_RangeDoesNotExist"
| "to_flatbuf_status RangeIsNotLoaded = S_RangeIsNotLoaded"
| "to_flatbuf_status KeyIsOutOfRange = S_KeyIsOutOfRange"
| "to_flatbuf_status RangeOwnershipLost = S_RangeOwnershipLost"
| "to_flatbuf_status Timeout = S_Timeout"
| "to_flatbuf_status UnknownTransaction = S_UnknownTransaction"
| "to_flatbuf_status (TransactionAborted _) = S_TransactionAborted"
| "to_flatbuf_status CacheIsFull = S_CacheIsFull"
| "to_flatbuf_status (InternalError _) = S_InternalError"
| "to_flatbuf_status ConnectionClosed = S_InternalError"
| "to_flatbuf_status PrefetchError = S_PrefetchError"

text \<open>The description of \<open>std::fmt::Error\<close>.\<close>

definition fmt_error :: dyn_error where
  "fmt_error = ''an error occurred when formatting an argument''"

fun from_flatbuf_status :: "status \<Rightarrow> (error, unit) outcome" where
  "from_flatbuf_status S_Ok = Ok ()"
| "from_flatbuf_status S_InvalidRequestFormat = Err InvalidRequestFormat"
| "from_flatbuf_status S_RangeDoesNotExist = Err RangeDoesNotExist"
| "from_flatbuf_status S_RangeIsNotLoaded = Err RangeIsNotLoaded"
| "from_flatbuf_status S_KeyIsOutOfRange = Err KeyIsOutOfRange"
| "from_flatbuf_status S_RangeOwnershipLost = Err RangeOwnershipLost"
| "from_flatbuf_status S_Timeout = Err Timeout"
| "from_flatbuf_status S_UnknownTransaction = Err UnknownTransaction"
| "from_flatbuf_status S_CacheIsFull = Err CacheIsFull"
| "from_flatbuf_status S_TransactionAborted = Err (TransactionAborted OtherReason)"
| "from_flatbuf_status S_InternalError = Err (InternalError fmt_error)"
| "from_flatbuf_status S_PrefetchError = Err PrefetchError"
| "from_flatbuf_status (S_Unknown _) = Err (InternalError fmt_error)"

text \<open>
  What the client sees of a server error: the reason of an abort and the description of an
  internal error are lost, and \<open>ConnectionClosed\<close> comes back as an internal error.
\<close>

fun wire_view :: "error \<Rightarrow> error" where
  "wire_view (TransactionAborted _) = TransactionAborted OtherReason"
| "wire_view (InternalError _) = InternalError fmt_error"
| "wire_view ConnectionClosed = InternalError fmt_error"
| "wire_view e = e"

lemma wire_view_idem: "wire_view (wire_view e) = wire_view e"
  by (cases e) auto

text \<open>
  C24: No error of the range server is ever taken for success by its client, and the client sees
  each error as itself, up to the reason of an abort, the description of an internal error and
  \<open>ConnectionClosed\<close>; sending the client's view on again changes nothing more.
\<close>

theorem error_wire_roundtrip:
  "to_flatbuf_status e \<noteq> S_Ok \<and>
   from_flatbuf_status (to_flatbuf_status e) = Err (wire_view e) \<and>
   from_flatbuf_status (to_flatbuf_status (wire_view e)) = Err (wire_view e)"
  by (cases e) auto

end
