(* ===== verification/Range_Interfaces.thy ===== *)
theory Range_Interfaces
  imports Key_Range Common Errors
begin

text \<open>
  What the range manager is given: the requests of the range server protocol
  (\<open>flatbuf/src/rangeserver/schema.fbs\<close>), the \<open>Storage\<close> and \<open>Wal\<close> traits
  (\<open>rangeserver/src/storage.rs\<close>, \<open>rangeserver/src/wal.rs\<close>) and the results of its own trait
  (\<open>rangeserver/src/range_manager.rs\<close>).
\<close>

section \<open>Requests\<close>

text \<open>
  Every table field and vector of a flatbuffer may be absent. A key is the byte vector of a
  \<open>Key\<close> table (\<open>None\<close> when the table or its vector is absent); a \<open>TransactionInfo\<close> table is its
  timeout in microseconds.
\<close>

record get_request =
  greq_request_id :: "uuidu128 option"
  greq_transaction_id :: "uuidu128 option"
  greq_transaction_info :: "u32 option"
  greq_range_id :: "fb_range_id option"
  greq_keys :: "bytes option list option"

record prepare_request =
  preq_request_id :: "uuidu128 option"
  preq_transaction_id :: "uuidu128 option"
  preq_range_id :: "fb_range_id option"
  has_reads :: bool
  puts :: "(bytes option \<times> bytes option) list option"
  deletes :: "bytes option list option"
  resolver_average_load :: f64
  num_open_clients :: u32

record commit_request =
  creq_request_id :: "uuidu128 option"
  creq_transaction_ids :: "uuidu128 list option"
  creq_range_id :: "fb_range_id option"
  creq_epoch :: u64
  vid :: i64

record abort_request =
  areq_request_id :: "uuidu128 option"
  areq_transaction_id :: "uuidu128 option"
  areq_range_id :: "fb_range_id option"

section \<open>Storage\<close>

type_synonym lease = "u64 \<times> u64"

record range_info =
  ri_id :: uuid
  ri_key_range :: key_range
  leader_sequence_number :: u64
  epoch_lease :: lease

record key_version =
  kv_epoch :: u64
  version_counter :: u64

type_synonym changes = "(bytes, bytes option) hmap"

text \<open>The operations of an implementation of the trait whose state is an \<open>'s\<close>.\<close>

record 's storage =
  take_ownership_and_load_range :: "full_range_id \<Rightarrow> 's \<Rightarrow> 's \<times> (storage_error, range_info) outcome"
  renew_epoch_lease :: "full_range_id \<Rightarrow> lease \<Rightarrow> u64 \<Rightarrow> 's \<Rightarrow> 's \<times> (storage_error, unit) outcome"
  batch_upsert :: "full_range_id \<Rightarrow> changes \<Rightarrow> key_version \<Rightarrow> 's \<Rightarrow> 's \<times> (storage_error, unit) outcome"
  storage_get :: "full_range_id \<Rightarrow> bytes \<Rightarrow> 's \<Rightarrow> (storage_error, bytes option) outcome"

section \<open>Write-ahead log\<close>

text \<open>
  Appending hands back a receiver, which \<open>flush_buffer\<close> later resolves; what the receiver
  delivers is an argument of the part of the handler that has awaited it.
\<close>

record 'w wal =
  wal_sync :: "'w \<Rightarrow> 'w \<times> (wal_error, unit) outcome"
  append_prepare :: "prepare_request \<Rightarrow> 'w \<Rightarrow> 'w \<times> (wal_error, unit) outcome"
  append_commit :: "commit_request \<Rightarrow> 'w \<Rightarrow> 'w \<times> (wal_error, unit) outcome"
  append_abort :: "abort_request \<Rightarrow> 'w \<Rightarrow> 'w \<times> (wal_error, unit) outcome"

section \<open>Results\<close>

record get_result =
  gr_val :: "bytes option"
  gr_leader_sequence_number :: i64
  gr_dependencies :: "uuid list"

record prepare_result =
  pr_highest_known_epoch :: u64
  pr_epoch_lease :: lease
  pr_dependencies :: "uuid list"
  released_lock_early :: bool

end
