(* ===== verification/Lock_Table.thy ===== *)
theory Lock_Table
  imports Common Errors "HOL-Library.Multiset"
begin

text \<open>
  \<open>rangeserver/src/range_manager/lock_table.rs\<close>: the single lock of a range with its queue of
  waiting transactions. The operations, the FIFO contract that the range manager relies on (the
  locale \<open>fifo_mutex\<close>, interpreted on these operations), and the wake-up protocol of the
  one-shot channels as a step relation.
\<close>

section \<open>State\<close>

text \<open>A one-shot channel is a number; \<open>req_sender\<close> is the sending end kept in the queue.\<close>

type_synonym chan = nat

record current_lock_holder =
  holder_transaction :: transaction_info
  when_acquired :: time
  holder_when_requested :: time

record lock_request =
  req_transaction :: transaction_info
  req_sender :: chan
  req_when_requested :: time

record statistics =
  num_waiters :: "int list"
  num_pending_commits :: "int list"
  request_timestamps :: "time list"
  previous_request_timestamp :: "time option"
  sum_delta_between_requests :: f64
  total_requests :: f64
  sum_entropies :: f64
  total_entropies :: f64
  waiters_and_pending_histogram :: "(int, f64) hmap"
  total_waiters_and_pending :: int
  predictions :: "int list"
  avg_delta_between_requests :: "f64 list"
  avg_entropies :: "f64 list"

record lock_table =
  current_holder :: "current_lock_holder option"
  waiting_for_release :: "lock_request list"
  waiting_to_acquire :: "lock_request list"
  soft_released :: "uuid set"
  lt_statistics :: statistics

section \<open>Operations\<close>

definition default_statistics :: statistics where
  "default_statistics =
     \<lparr>num_waiters = [], num_pending_commits = [], request_timestamps = [],
      previous_request_timestamp = None, sum_delta_between_requests = Fin 0,
      total_requests = Fin 0, sum_entropies = Fin 0, total_entropies = Fin 0,
      waiters_and_pending_histogram = [], total_waiters_and_pending = 0, predictions = [],
      avg_delta_between_requests = [], avg_entropies = []\<rparr>"

definition lock_table_new :: lock_table where
  "lock_table_new =
     \<lparr>current_holder = None, waiting_for_release = [], waiting_to_acquire = [],
      soft_released = {}, lt_statistics = default_statistics\<rparr>"

text \<open>
  The two counters are converted to \<open>f64\<close> and added; both are far below the \<open>2 ^ 53\<close> up to which
  that is exact.
\<close>

definition get_num_waiters_and_pending :: "lock_table \<Rightarrow> f64" where
  "get_num_waiters_and_pending lt =
     f64_of_nat (length (waiting_to_acquire lt) + card (soft_released lt))"

definition get_statistics :: "lock_table \<Rightarrow> lock_table \<times> statistics" where
  "get_statistics lt =
     (let statistics_clone = lt_statistics lt
      in (lt\<lparr>lt_statistics := (lt_statistics lt)
            \<lparr>num_waiters := [], num_pending_commits := [], request_timestamps := [],
             waiters_and_pending_histogram := [], predictions := [],
             sum_delta_between_requests := Fin 0, total_requests := Fin 0,
             previous_request_timestamp := None, avg_delta_between_requests := [],
             avg_entropies := []\<rparr>\<rparr>,
          statistics_clone))"

definition get_current_holder_id :: "lock_table \<Rightarrow> uuid option" where
  "get_current_holder_id lt = map_option (\<lambda>h. ti_id (holder_transaction h)) (current_holder lt)"

text \<open>
  An operation returns the new table, the channels it has sent on, and its result. \<open>ch\<close> is the
  channel the operation creates and \<open>now\<close>, \<open>now'\<close> are the clock readings it makes.
\<close>

definition maybe_wait_for_current_holder ::
    "time \<Rightarrow> chan \<Rightarrow> transaction_info \<Rightarrow> lock_table \<Rightarrow> lock_table \<times> chan list" where
  "maybe_wait_for_current_holder now ch tx lt =
     (case current_holder lt of
        None \<Rightarrow> (lt, [ch])
      | Some _ \<Rightarrow>
          (lt\<lparr>waiting_for_release := waiting_for_release lt @
                [\<lparr>req_transaction = tx, req_sender = ch, req_when_requested = now\<rparr>]\<rparr>, []))"

definition acquire ::
    "time \<Rightarrow> time \<Rightarrow> chan \<Rightarrow> transaction_info \<Rightarrow> lock_table \<Rightarrow>
      lock_table \<times> chan list \<times> (error, chan) outcome" where
  "acquire now now' ch tx lt =
     (case current_holder lt of
        None \<Rightarrow>
          (lt\<lparr>current_holder := Some \<lparr>holder_transaction = tx, when_acquired = now,
                                       holder_when_requested = now\<rparr>\<rparr>, [ch], Ok ch)
      | Some h \<Rightarrow>
          if ti_id (holder_transaction h) = ti_id tx then (lt, [ch], Ok ch)
          else
            (lt\<lparr>waiting_to_acquire := waiting_to_acquire lt @
                  [\<lparr>req_transaction = tx, req_sender = ch, req_when_requested = now'\<rparr>]\<rparr>,
             [], Ok ch))"

text \<open>
  The loop that empties \<open>waiting_for_release\<close>. Sending fails, and the \<open>unwrap\<close> panics, when the
  receiving end is gone (\<open>\<not> alive ch\<close>): the request has been popped by then. The result is the
  rest of the queue, the channels sent on, and whether the loop panicked.
\<close>

fun notify_waiters :: "(chan \<Rightarrow> bool) \<Rightarrow> lock_request list \<Rightarrow> lock_request list \<times> chan list \<times> bool" where
  "notify_waiters alive [] = ([], [], False)"
| "notify_waiters alive (req # reqs) =
     (if alive (req_sender req) then
        (let (rest, sent, panicked) = notify_waiters alive reqs
         in (rest, req_sender req # sent, panicked))
      else (reqs, [], True))"

definition release ::
    "(chan \<Rightarrow> bool) \<Rightarrow> time \<Rightarrow> bool option \<Rightarrow> lock_table \<Rightarrow>
      lock_table \<times> chan list \<times> (error, unit) outcome" where
  "release alive now mark_as_violatable lt =
     (let released_holder = get_current_holder_id lt;
          lt = (case released_holder of
                  None \<Rightarrow> lt
                | Some h \<Rightarrow>
                    if mark_as_violatable = Some True
                    then lt\<lparr>soft_released := insert h (soft_released lt)\<rparr> else lt);
          lt = lt\<lparr>current_holder := None\<rparr>;
          (rest, sent, panicked) = notify_waiters alive (waiting_for_release lt);
          lt = lt\<lparr>waiting_for_release := rest\<rparr>
      in if panicked then (lt, sent, Panic)
         else
           (case waiting_to_acquire lt of
              [] \<Rightarrow> (lt, sent, Ok ())
            | req # reqs \<Rightarrow>
                (let lt = lt\<lparr>waiting_to_acquire := reqs,
                             current_holder := Some
                               \<lparr>holder_transaction = req_transaction req, when_acquired = now,
                                holder_when_requested = req_when_requested req\<rparr>\<rparr>
                 in if alive (req_sender req) then (lt, sent @ [req_sender req], Ok ())
                    else (lt, sent, Panic))))"

definition soft_release ::
    "(chan \<Rightarrow> bool) \<Rightarrow> time \<Rightarrow> lock_table \<Rightarrow> lock_table \<times> chan list \<times> (error, unit) outcome" where
  "soft_release alive now lt = release alive now (Some True) lt"

definition clean_soft_released :: "uuid list \<Rightarrow> lock_table \<Rightarrow> lock_table" where
  "clean_soft_released tx_ids lt =
     lt\<lparr>soft_released := {t \<in> soft_released lt. t \<notin> set tx_ids}\<rparr>"

definition is_currently_holding :: "uuid list \<Rightarrow> lock_table \<Rightarrow> bool" where
  "is_currently_holding tx_ids lt =
     (case current_holder lt of
        None \<Rightarrow> False
      | Some h \<Rightarrow> ti_id (holder_transaction h) \<in> set tx_ids)"

lemmas lock_defs [defs] =
  acquire_def release_def soft_release_def clean_soft_released_def is_currently_holding_def
  maybe_wait_for_current_holder_def get_current_holder_id_def

section \<open>The contract: a first-in first-out mutex\<close>

text \<open>
  What a client of the lock may rely on, over the queue whose head holds the lock. A request
  names its transaction (\<open>who\<close>); \<open>'p\<close> is whatever else a release is told.
\<close>

locale fifo_mutex =
  fixes inv :: "'s \<Rightarrow> bool"
    and queue :: "'s \<Rightarrow> uuid list"
    and who :: "'r \<Rightarrow> uuid"
    and acq :: "'r \<Rightarrow> 's \<Rightarrow> 's"
    and rel :: "'p \<Rightarrow> 's \<Rightarrow> 's"
    and holds :: "'s \<Rightarrow> uuid \<Rightarrow> bool"
  assumes inv_acq: "inv s \<Longrightarrow> inv (acq r s)"
    and inv_rel: "inv s \<Longrightarrow> inv (rel p s)"
    and queue_acq: "inv s \<Longrightarrow> queue (acq r s) =
      (if queue s = [] then [who r]
       else if hd (queue s) = who r then queue s else queue s @ [who r])"
    and queue_rel: "inv s \<Longrightarrow> queue (rel p s) = tl (queue s)"
    and holds_queue: "holds s t \<longleftrightarrow> queue s \<noteq> [] \<and> hd (queue s) = t"
begin

lemma holds_unique: "holds s t \<Longrightarrow> holds s t' \<Longrightarrow> t = t'"
  by (simp add: holds_queue)

lemma holds_acq: "inv s \<Longrightarrow> holds s t \<Longrightarrow> holds (acq r s) t"
  by (auto simp: holds_queue queue_acq)

lemma acq_free: "inv s \<Longrightarrow> queue s = [] \<Longrightarrow> holds (acq r s) (who r)"
  by (simp add: holds_queue queue_acq)

text \<open>A run of acquisitions (\<open>Inl\<close>) and releases (\<open>Inr\<close>), in any interleaving.\<close>

abbreviation op :: "'r + 'p \<Rightarrow> 's \<Rightarrow> 's" where
  "op e s \<equiv> (case e of Inl r \<Rightarrow> acq r s | Inr p \<Rightarrow> rel p s)"

lemma run_inv: "inv s \<Longrightarrow> inv (fold op es s)"
  by (induction es arbitrary: s) (auto simp: inv_acq inv_rel split: sum.split)

lemma run_queue:
  assumes "inv s" and "length (filter (Not \<circ> isl) es) < length (queue s)"
  shows "\<exists>late. queue (fold op es s) = drop (length (filter (Not \<circ> isl) es)) (queue s) @ late"
  using assms
proof (induction es arbitrary: s)
  case Nil
  then show ?case by simp
next
  case (Cons e es)
  show ?case
  proof (cases e)
    case (Inl r)
    let ?n = "length (filter (Not \<circ> isl) es)"
    obtain xs where xs: "queue (acq r s) = queue s @ xs"
      using that [of "[]"] that [of "[who r]"] Cons.prems Inl queue_acq [of s r]
      by (auto split: if_splits)
    have "\<exists>late. queue (fold op es (acq r s)) = drop ?n (queue (acq r s)) @ late"
      using Cons.prems Inl xs by (intro Cons.IH) (auto simp: inv_acq)
    with Cons.prems Inl xs show ?thesis by (auto simp: comp_def)
  next
    case (Inr p)
    let ?n = "length (filter (Not \<circ> isl) es)"
    have "\<exists>late. queue (fold op es (rel p s)) = drop ?n (queue (rel p s)) @ late"
      using Cons.prems Inr by (intro Cons.IH) (auto simp: inv_rel queue_rel)
    with Cons.prems Inr show ?thesis by (auto simp: queue_rel drop_Suc comp_def)
  qed
qed

text \<open>
  Bounded waiting: whoever stands at position \<open>i\<close> of the queue holds the lock after exactly \<open>i\<close>
  releases, whatever is requested in between.
\<close>

lemma bounded_waiting:
  assumes "inv s" and "i < length (queue s)" and "length (filter (Not \<circ> isl) es) = i"
  shows "holds (fold op es s) (queue s ! i)"
proof -
  from assms obtain late where "queue (fold op es s) = drop i (queue s) @ late"
    using run_queue by blast
  with assms show ?thesis by (simp add: holds_queue hd_drop_conv_nth)
qed

end

section \<open>The lock table is such a mutex\<close>

text \<open>The queue a table stands for, and the invariant: nobody waits for a free lock.\<close>

definition lock_queue :: "lock_table \<Rightarrow> uuid list" where
  "lock_queue lt =
     (case current_holder lt of
        None \<Rightarrow> []
      | Some h \<Rightarrow> ti_id (holder_transaction h) #
                 map (\<lambda>r. ti_id (req_transaction r)) (waiting_to_acquire lt))"

definition lock_inv :: "lock_table \<Rightarrow> bool" where
  "lock_inv lt \<longleftrightarrow>
     (current_holder lt = None \<longrightarrow> waiting_to_acquire lt = [] \<and> waiting_for_release lt = [])"

text \<open>The table after an acquisition or a release whose waiters are all still there.\<close>

definition acquired :: "time \<times> time \<times> chan \<times> transaction_info \<Rightarrow> lock_table \<Rightarrow> lock_table" where
  "acquired r lt = (case r of (now, now', ch, tx) \<Rightarrow> fst (acquire now now' ch tx lt))"

definition released :: "time \<times> bool option \<Rightarrow> lock_table \<Rightarrow> lock_table" where
  "released p lt = (case p of (now, mark) \<Rightarrow> fst (release (\<lambda>_. True) now mark lt))"

lemma notify_waiters_alive:
  "\<forall>r \<in> set reqs. alive (req_sender r) \<Longrightarrow>
     notify_waiters alive reqs = ([], map req_sender reqs, False)"
  by (induction reqs) auto

text \<open>A release whose waiters are all there, without the intermediate tables.\<close>

lemma release_alive:
  assumes "\<forall>r \<in> set (waiting_for_release lt @ waiting_to_acquire lt). alive (req_sender r)"
  shows "release alive now mark lt =
    (lt\<lparr>soft_released := (case get_current_holder_id lt of
           Some h \<Rightarrow> if mark = Some True then insert h (soft_released lt) else soft_released lt
         | None \<Rightarrow> soft_released lt),
        waiting_for_release := [],
        waiting_to_acquire := tl (waiting_to_acquire lt),
        current_holder := (case waiting_to_acquire lt of
            [] \<Rightarrow> None
          | req # _ \<Rightarrow> Some \<lparr>holder_transaction = req_transaction req, when_acquired = now,
                            holder_when_requested = req_when_requested req\<rparr>)\<rparr>,
     map req_sender (waiting_for_release lt) @ map req_sender (take 1 (waiting_to_acquire lt)),
     Ok ())"
  using assms
  by (cases "waiting_to_acquire lt"; cases "current_holder lt"; cases lt)
    (auto simp: release_def get_current_holder_id_def notify_waiters_alive)

lemma acquired_queue:
  "lock_queue (acquired r lt) =
    (if lock_queue lt = [] then [ti_id (snd (snd (snd r)))]
     else if hd (lock_queue lt) = ti_id (snd (snd (snd r))) then lock_queue lt
     else lock_queue lt @ [ti_id (snd (snd (snd r)))])"
  if "lock_inv lt"
  using that
  by (auto simp: acquired_def acquire_def lock_queue_def lock_inv_def split: prod.split option.split)

lemma released_queue: "lock_inv lt \<Longrightarrow> lock_queue (released p lt) = tl (lock_queue lt)"
  by (auto simp: released_def release_alive lock_queue_def lock_inv_def
      split: prod.split option.split list.split)

lemma acquired_inv [inv_intros]: "lock_inv lt \<Longrightarrow> lock_inv (acquired r lt)"
  by (auto simp: acquired_def acquire_def lock_inv_def split: prod.split option.split)

lemma released_inv [inv_intros]: "lock_inv lt \<Longrightarrow> lock_inv (released p lt)"
  by (auto simp: released_def release_alive lock_inv_def split: prod.split list.split)

lemma holding_queue:
  "is_currently_holding [t] lt \<longleftrightarrow> lock_queue lt \<noteq> [] \<and> hd (lock_queue lt) = t"
  by (auto simp: is_currently_holding_def lock_queue_def split: option.split)

interpretation range_lock: fifo_mutex lock_inv lock_queue "\<lambda>r. ti_id (snd (snd (snd r)))"
  acquired released "\<lambda>lt t. is_currently_holding [t] lt"
  by unfold_locales
    (auto simp: acquired_queue released_queue acquired_inv released_inv holding_queue)

text \<open>
  C21: First come, first served. In a table where nobody waits for a free lock, the transaction at
  position \<open>i\<close> of the queue (the holder is at 0) is the one holding the lock after any sequence of
  acquisitions and releases with exactly \<open>i\<close> releases among them: later requests do not overtake
  it and no release skips it.
\<close>

theorem lock_bounded_waiting:
  assumes "lock_inv lt" and "i < length (lock_queue lt)"
    and "length (filter (Not \<circ> isl) es) = i"
  shows "is_currently_holding [lock_queue lt ! i]
           (fold (\<lambda>e s. case e of Inl r \<Rightarrow> acquired r s | Inr p \<Rightarrow> released p s) es lt)"
  using range_lock.bounded_waiting [OF assms] .

definition wit_tx :: "uuid \<Rightarrow> transaction_info" where
  "wit_tx i = \<lparr>ti_id = i, started = 0, overall_timeout = 10\<rparr>"

definition wit_queue :: lock_table where
  "wit_queue = acquired (2, 2, 8, wit_tx 11) (acquired (1, 1, 7, wit_tx 10) lock_table_new)"

lemma wit_queue_eqs:
  "lock_inv wit_queue" "lock_queue wit_queue = [10, 11]"
  by (simp_all add: wit_queue_def acquired_def acquire_def lock_table_new_def wit_tx_def
      lock_inv_def lock_queue_def)

theorem lock_bounded_waiting_witness:
  "is_currently_holding [11]
     (released (5, Some True) (acquired (3, 3, 9, wit_tx 12) wit_queue))"
  using lock_bounded_waiting [OF wit_queue_eqs(1), of 1
      "[Inl (3, 3, 9, wit_tx 12), Inr (5, Some True)]"]
  by (simp add: wit_queue_eqs)

text \<open>
  Releasing hands the lock over in one step. When every waiter still listens, a release
  succeeds, wakes everybody who was waiting for the release and then the first requester, makes
  that requester the holder with its own request time, keeps the others in order, and records
  the old holder among the soft-released ones iff it is asked to.
\<close>

theorem release_hands_over:
  assumes "\<forall>r \<in> set (waiting_for_release lt @ waiting_to_acquire lt). alive (req_sender r)"
    and "current_holder lt = Some h" and "waiting_to_acquire lt = req # reqs"
  shows "\<exists>lt'. release alive now mark lt =
           (lt', map req_sender (waiting_for_release lt) @ [req_sender req], Ok ()) \<and>
         current_holder lt' = Some \<lparr>holder_transaction = req_transaction req,
           when_acquired = now, holder_when_requested = req_when_requested req\<rparr> \<and>
         waiting_to_acquire lt' = reqs \<and> waiting_for_release lt' = [] \<and>
         soft_released lt' =
           (if mark = Some True then insert (ti_id (holder_transaction h)) (soft_released lt)
            else soft_released lt)"
  using assms by (simp add: release_alive get_current_holder_id_def)

theorem release_hands_over_witness:
  "\<exists>lt'. release (\<lambda>_. True) 5 (Some True) wit_queue = (lt', [8], Ok ()) \<and>
     current_holder lt' = Some \<lparr>holder_transaction = wit_tx 11, when_acquired = 5,
       holder_when_requested = 2\<rparr> \<and>
     waiting_to_acquire lt' = [] \<and> waiting_for_release lt' = [] \<and> soft_released lt' = {10}"
  using release_hands_over [of wit_queue "\<lambda>_. True"
      "\<lparr>holder_transaction = wit_tx 10, when_acquired = 1, holder_when_requested = 1\<rparr>"
      "\<lparr>req_transaction = wit_tx 11, req_sender = 8, req_when_requested = 2\<rparr>" "[]" 5 "Some True"]
  by (simp add: wit_queue_def acquired_def acquire_def lock_table_new_def wit_tx_def)

section \<open>Wake-ups\<close>

text \<open>
  The table together with the channels ever created and the channels sent on, in order. Each
  operation is one step, since it runs under the write lock of the table.
\<close>

record lock_sys =
  ls_table :: lock_table
  ls_used :: "chan set"
  ls_sent :: "chan list"

definition lock_sys_init :: lock_sys where
  "lock_sys_init = \<lparr>ls_table = lock_table_new, ls_used = {}, ls_sent = []\<rparr>"

inductive lock_step :: "lock_sys \<Rightarrow> lock_sys \<Rightarrow> bool" where
  Acquire: "\<lbrakk>ch \<notin> ls_used s; acquire now now' ch tx (ls_table s) = (lt, sent, r)\<rbrakk> \<Longrightarrow>
    lock_step s \<lparr>ls_table = lt, ls_used = insert ch (ls_used s), ls_sent = ls_sent s @ sent\<rparr>"
| Wait: "\<lbrakk>ch \<notin> ls_used s; maybe_wait_for_current_holder now ch tx (ls_table s) = (lt, sent)\<rbrakk> \<Longrightarrow>
    lock_step s \<lparr>ls_table = lt, ls_used = insert ch (ls_used s), ls_sent = ls_sent s @ sent\<rparr>"
| Release: "release (\<lambda>_. True) now mark (ls_table s) = (lt, sent, r) \<Longrightarrow>
    lock_step s \<lparr>ls_table = lt, ls_used = ls_used s, ls_sent = ls_sent s @ sent\<rparr>"
| Clean: "lock_step s (s\<lparr>ls_table := clean_soft_released txs (ls_table s)\<rparr>)"
| Statistics: "lock_step s (s\<lparr>ls_table := fst (get_statistics (ls_table s))\<rparr>)"

inductive_cases lock_stepE: "lock_step s s'"

definition pending_chans :: "lock_table \<Rightarrow> chan list" where
  "pending_chans lt = map req_sender (waiting_for_release lt) @ map req_sender (waiting_to_acquire lt)"

definition lock_sys_inv :: "lock_sys \<Rightarrow> bool" where
  "lock_sys_inv s \<longleftrightarrow>
     lock_inv (ls_table s) \<and> finite (ls_used s) \<and>
     mset (ls_sent s) + mset (pending_chans (ls_table s)) = mset_set (ls_used s)"

lemma acquire_chans:
  assumes "acquire now now' ch tx lt = (lt', sent, r)" and "lock_inv lt"
  shows "lock_inv lt' \<and> mset sent + mset (pending_chans lt') = add_mset ch (mset (pending_chans lt))"
proof (cases "current_holder lt")
  case None
  with assms show ?thesis by (auto simp: acquire_def lock_inv_def pending_chans_def)
next
  case (Some h)
  with assms show ?thesis
    by (cases "ti_id (holder_transaction h) = ti_id tx")
      (auto simp: acquire_def lock_inv_def pending_chans_def)
qed

lemma wait_chans:
  assumes "maybe_wait_for_current_holder now ch tx lt = (lt', sent)" and "lock_inv lt"
  shows "lock_inv lt' \<and> mset sent + mset (pending_chans lt') = add_mset ch (mset (pending_chans lt))"
  using assms
  by (cases "current_holder lt")
    (auto simp: maybe_wait_for_current_holder_def lock_inv_def pending_chans_def)

lemma release_chans:
  assumes "release (\<lambda>_. True) now mark lt = (lt', sent, r)" and "lock_inv lt"
  shows "lock_inv lt' \<and> mset sent + mset (pending_chans lt') = mset (pending_chans lt)"
  using assms
  by (cases "waiting_to_acquire lt") (auto simp: release_alive lock_inv_def pending_chans_def)

lemma mset_move:
  assumes "B + C' = D + C" and "A + C = U"
  shows "A + B + C' = D + (U :: 'a multiset)"
  using assms by (metis add.assoc add.left_commute)

lemma mset_eq_mset_set:
  assumes "mset xs = mset_set A" and "finite A"
  shows "distinct xs \<and> set xs = A"
proof -
  have "set xs = A" using assms by (metis finite_set_mset_mset_set set_mset_mset)
  moreover have "length xs = card A" using assms by (metis size_mset size_mset_set)
  ultimately show ?thesis by (simp add: card_distinct)
qed

lemma lock_step_inv:
  assumes "lock_step s s'" and inv: "lock_sys_inv s"
  shows "lock_sys_inv s'"
  using assms(1)
proof cases
  case (Acquire ch now now' tx lt sent r)
  with inv acquire_chans [OF Acquire(3)] show ?thesis
    using mset_move [of "mset sent" "mset (pending_chans lt)" "{#ch#}"]
    by (simp add: lock_sys_inv_def)
next
  case (Wait ch now tx lt sent)
  with inv wait_chans [OF Wait(3)] show ?thesis
    using mset_move [of "mset sent" "mset (pending_chans lt)" "{#ch#}"]
    by (simp add: lock_sys_inv_def)
next
  case (Release now mark lt sent r)
  with inv release_chans [OF Release(2)] show ?thesis
    using mset_move [of "mset sent" "mset (pending_chans lt)" "{#}"]
    by (simp add: lock_sys_inv_def)
next
  case (Clean txs)
  with inv show ?thesis
    by (simp add: lock_sys_inv_def lock_inv_def pending_chans_def clean_soft_released_def)
next
  case Statistics
  with inv show ?thesis
    by (simp add: lock_sys_inv_def lock_inv_def pending_chans_def get_statistics_def)
qed

lemma lock_reachable_inv: "lock_step\<^sup>*\<^sup>* lock_sys_init s \<Longrightarrow> lock_sys_inv s"
proof (induction rule: rtranclp_induct)
  case base
  show ?case
    by (simp add: lock_sys_init_def lock_sys_inv_def lock_inv_def lock_table_new_def
        pending_chans_def)
next
  case (step s s')
  then show ?case by (blast intro: lock_step_inv)
qed

text \<open>
  C22: No lost and no double wake-up. In every state the lock table can reach, each channel has
  been signalled at most once, every channel created has either been signalled or still sits in
  one of the two queues (never both), and when the lock is free nobody is left waiting.
\<close>

theorem lock_no_lost_wakeup:
  assumes "lock_step\<^sup>*\<^sup>* lock_sys_init s"
  shows "distinct (ls_sent s) \<and>
    ls_used s = set (ls_sent s) \<union> set (pending_chans (ls_table s)) \<and>
    set (ls_sent s) \<inter> set (pending_chans (ls_table s)) = {} \<and>
    (current_holder (ls_table s) = None \<longrightarrow> ls_used s = set (ls_sent s))"
proof -
  have inv: "lock_sys_inv s" using lock_reachable_inv [OF assms] .
  then have "distinct (ls_sent s @ pending_chans (ls_table s)) \<and>
      set (ls_sent s @ pending_chans (ls_table s)) = ls_used s"
    by (intro mset_eq_mset_set) (simp_all add: lock_sys_inv_def)
  with inv show ?thesis by (auto simp: lock_sys_inv_def lock_inv_def pending_chans_def)
qed

theorem lock_no_lost_wakeup_witness:
  "\<exists>s. lock_step\<^sup>*\<^sup>* lock_sys_init s \<and> ls_used s = {7, 8} \<and> ls_sent s = [7] \<and>
       set (pending_chans (ls_table s)) = {8}"
proof -
  let ?s1 = "\<lparr>ls_table = acquired (1, 1, 7, wit_tx 10) lock_table_new, ls_used = {7}, ls_sent = [7]\<rparr>"
  let ?s2 = "\<lparr>ls_table = wit_queue, ls_used = insert 8 {7}, ls_sent = [7]\<rparr>"
  have s1: "lock_step lock_sys_init ?s1"
    using lock_step.Acquire [of 7 lock_sys_init 1 1 "wit_tx 10"]
    by (simp add: lock_sys_init_def acquired_def acquire_def lock_table_new_def)
  have s2: "lock_step ?s1 ?s2"
    using lock_step.Acquire [of 8 ?s1 2 2 "wit_tx 11"]
    by (simp add: wit_queue_def acquired_def acquire_def lock_table_new_def wit_tx_def)
  have r: "lock_step\<^sup>*\<^sup>* lock_sys_init ?s2"
    by (rule converse_rtranclp_into_rtranclp [OF s1 r_into_rtranclp [where r = lock_step, OF s2]])
  have "set (pending_chans wit_queue) = {8}"
    by (simp add: wit_queue_def acquired_def acquire_def lock_table_new_def wit_tx_def
        pending_chans_def)
  then show ?thesis using r lock_no_lost_wakeup [OF r] by (intro exI [of _ ?s2]) auto
qed

end
