(* ===== verification/Prefetching_Buffer.thy ===== *)
theory Prefetching_Buffer
  imports Common
begin

text \<open>
  \<open>rangeserver/src/prefetching_buffer.rs\<close>: the per-range cache of values that transactions have
  asked to be fetched ahead of their reads. Each method is one critical section of the buffer's
  mutex, except \<open>process_prefetch_request\<close>, which drops the mutex while it waits for somebody
  else's fetch and is therefore modelled as three sections.
\<close>

section \<open>State\<close>

datatype key_state = Fetched | Loading u64 | Requested u64

text \<open>
  A watch channel is a number shared by the two maps \<open>key_state_watcher\<close> and \<open>key_state_sender\<close>;
  what is sent on it is an effect of the operation that sends.
\<close>

record pf_state =
  prefetch_store :: "bytes \<rightharpoonup> bytes"
  pf_key_state :: "bytes \<rightharpoonup> key_state"
  transaction_keys :: "uuid \<rightharpoonup> bytes set"
  key_transactions :: "bytes \<rightharpoonup> uuid set"
  key_state_watcher :: "bytes \<rightharpoonup> nat"
  key_state_sender :: "bytes \<rightharpoonup> nat"
  fetch_sequence_number :: u64

type_synonym watch_send = "nat \<times> key_state"

definition pf_new :: pf_state where
  "pf_new = \<lparr>prefetch_store = Map.empty, pf_key_state = Map.empty,
     transaction_keys = Map.empty, key_transactions = Map.empty,
     key_state_watcher = Map.empty, key_state_sender = Map.empty, fetch_sequence_number = 0\<rparr>"

section \<open>Operations\<close>

definition get_from_buffer :: "bytes \<Rightarrow> pf_state \<Rightarrow> (unit, bytes option) outcome" where
  "get_from_buffer key st =
     (case prefetch_store st key of Some v \<Rightarrow> Ok (Some v) | None \<Rightarrow> Ok None)"

definition add_to_transaction_keys ::
    "uuid \<Rightarrow> bytes \<Rightarrow> (uuid \<rightharpoonup> bytes set) \<Rightarrow> (uuid \<rightharpoonup> bytes set)" where
  "add_to_transaction_keys tx key m =
     (case m tx of Some s \<Rightarrow> m(tx \<mapsto> insert key s) | None \<Rightarrow> m(tx \<mapsto> {key}))"

definition add_to_key_transactions ::
    "uuid \<Rightarrow> bytes \<Rightarrow> (bytes \<rightharpoonup> uuid set) \<Rightarrow> (bytes \<rightharpoonup> uuid set)" where
  "add_to_key_transactions tx key m =
     (case m key of Some s \<Rightarrow> m(key \<mapsto> insert tx s) | None \<Rightarrow> m(key \<mapsto> {tx}))"

text \<open>\<open>ch\<close> is the channel created if the key has none yet.\<close>

definition change_keystate_to_loading ::
    "nat \<Rightarrow> bytes \<Rightarrow> u64 \<Rightarrow> pf_state \<Rightarrow> pf_state \<times> (unit, unit) outcome" where
  "change_keystate_to_loading ch key n st =
     (let previous = pf_key_state st key;
          st = st\<lparr>pf_key_state := (pf_key_state st)(key \<mapsto> Loading n)\<rparr>
      in case previous of
           Some _ \<Rightarrow>
             (if key_state_watcher st key = None
              then st\<lparr>key_state_sender := (key_state_sender st)(key \<mapsto> ch),
                      key_state_watcher := (key_state_watcher st)(key \<mapsto> ch)\<rparr>
              else st, Ok ())
         | None \<Rightarrow> (st, Err ()))"

text \<open>
  The first section: register the request and either answer (\<open>Inl\<close>) or, when the key is being
  loaded under number \<open>n\<close>, go on to wait (\<open>Inr n\<close>).
\<close>

definition process_prefetch_request ::
    "nat \<Rightarrow> uuid \<Rightarrow> bytes \<Rightarrow> pf_state \<Rightarrow> pf_state \<times> (unit, key_state + u64) outcome" where
  "process_prefetch_request ch tx key st =
     (let st = st\<lparr>transaction_keys := add_to_transaction_keys tx key (transaction_keys st),
                  key_transactions := add_to_key_transactions tx key (key_transactions st)\<rparr>;
          st = (if pf_key_state st key = None
                then (let sequence_number = fetch_sequence_number st + 1
                      in st\<lparr>fetch_sequence_number := sequence_number,
                            pf_key_state := (pf_key_state st)(key \<mapsto> Requested sequence_number)\<rparr>)
                else st)
      in case pf_key_state st key of
           None \<Rightarrow> (st, Panic)
         | Some Fetched \<Rightarrow> (st, Ok (Inl Fetched))
         | Some (Loading n) \<Rightarrow> (st, Ok (Inr n))
         | Some (Requested n) \<Rightarrow>
             (let (st, r) = change_keystate_to_loading ch key n st
              in (st, case r of Ok _ \<Rightarrow> Ok (Inl (Requested n)) | _ \<Rightarrow> Panic)))"

text \<open>
  The second section reads the watcher map; without a watcher the answer is \<open>Loading n\<close>. The third
  runs when \<open>changed()\<close> of the watch channel has returned: \<open>w\<close> is \<open>None\<close> if it failed and
  otherwise the value then borrowed from the channel.
\<close>

definition prefetch_watcher :: "bytes \<Rightarrow> u64 \<Rightarrow> pf_state \<Rightarrow> key_state + nat" where
  "prefetch_watcher key n st =
     (case key_state_watcher st key of Some receiver \<Rightarrow> Inr receiver | None \<Rightarrow> Inl (Loading n))"

definition prefetch_changed ::
    "nat \<Rightarrow> bytes \<Rightarrow> u64 \<Rightarrow> key_state option \<Rightarrow> pf_state \<Rightarrow> pf_state \<times> (unit, key_state) outcome" where
  "prefetch_changed ch key n w st =
     (case w of
        None \<Rightarrow> (st, Ok (Loading n))
      | Some Fetched \<Rightarrow> (st, Ok Fetched)
      | Some _ \<Rightarrow>
          (let (st, r) = change_keystate_to_loading ch key n st
           in (st, case r of Ok _ \<Rightarrow> Ok (Requested n) | _ \<Rightarrow> Panic)))"

definition notify_state :: "bytes \<Rightarrow> key_state \<Rightarrow> pf_state \<Rightarrow> watch_send list" where
  "notify_state key s st = (case key_state_sender st key of Some c \<Rightarrow> [(c, s)] | None \<Rightarrow> [])"

definition fetch_complete ::
    "bytes \<Rightarrow> bytes option \<Rightarrow> u64 \<Rightarrow> pf_state \<Rightarrow> pf_state \<times> watch_send list" where
  "fetch_complete key val n' st =
     (case pf_key_state st key of
        Some (Loading n) \<Rightarrow>
          if n = n' then
            (let st = (case val of
                         Some data \<Rightarrow> st\<lparr>prefetch_store := (prefetch_store st)(key \<mapsto> data)\<rparr>
                       | None \<Rightarrow> st);
                 st = st\<lparr>pf_key_state := (pf_key_state st)(key \<mapsto> Fetched)\<rparr>
             in (st, notify_state key Fetched st))
          else (st, [])
      | _ \<Rightarrow> (st, []))"

definition fetch_failed :: "bytes \<Rightarrow> u64 \<Rightarrow> pf_state \<Rightarrow> pf_state \<times> watch_send list" where
  "fetch_failed key n' st =
     (case pf_key_state st key of
        Some (Loading n) \<Rightarrow>
          if n = n' then
            (let st = st\<lparr>pf_key_state := (pf_key_state st)(key \<mapsto> Requested n')\<rparr>
             in (st, notify_state key (Requested n') st))
          else (st, [])
      | _ \<Rightarrow> (st, []))"

definition evict_key :: "bytes \<Rightarrow> pf_state \<Rightarrow> pf_state" where
  "evict_key key st =
     st\<lparr>prefetch_store := (prefetch_store st)(key := None),
        pf_key_state := (pf_key_state st)(key := None)\<rparr>"

definition remove_from_key_transactions ::
    "uuid \<Rightarrow> bytes \<Rightarrow> (bytes \<rightharpoonup> uuid set) \<Rightarrow> (bytes \<rightharpoonup> uuid set)" where
  "remove_from_key_transactions tx key m =
     (case m key of
        Some s \<Rightarrow> (let s = s - {tx} in if s = {} then m(key := None) else m(key \<mapsto> s))
      | None \<Rightarrow> m)"

text \<open>The body of the loop of \<open>process_transaction_complete\<close>; a \<open>BTreeSet\<close> is iterated in order.\<close>

definition complete_key :: "uuid \<Rightarrow> bytes \<Rightarrow> pf_state \<Rightarrow> pf_state" where
  "complete_key tx key st =
     (let st = st\<lparr>key_transactions := remove_from_key_transactions tx key (key_transactions st)\<rparr>
      in if key_transactions st key = None then evict_key key st else st)"

definition process_transaction_complete :: "uuid \<Rightarrow> pf_state \<Rightarrow> pf_state" where
  "process_transaction_complete tx st =
     (let st = (case transaction_keys st tx of
                  Some keys \<Rightarrow> fold (complete_key tx) (sorted_list_of_set keys) st
                | None \<Rightarrow> st)
      in st\<lparr>transaction_keys := (transaction_keys st)(tx := None)\<rparr>)"

definition pf_upsert :: "bytes \<Rightarrow> bytes \<Rightarrow> pf_state \<Rightarrow> pf_state" where
  "pf_upsert key val st = st\<lparr>prefetch_store := (prefetch_store st)(key \<mapsto> val)\<rparr>"

definition pf_delete :: "bytes \<Rightarrow> pf_state \<Rightarrow> pf_state \<times> watch_send list" where
  "pf_delete key st =
     (if pf_key_state st key \<noteq> None
      then
        (let st = st\<lparr>prefetch_store := (prefetch_store st)(key := None)\<rparr>
         in case pf_key_state st key of
              Some (Loading _) \<Rightarrow>
                (let st = st\<lparr>pf_key_state := (pf_key_state st)(key \<mapsto> Fetched)\<rparr>
                 in (st, notify_state key Fetched st))
            | _ \<Rightarrow> (st, []))
      else (st, []))"

lemmas pf_defs [defs] =
  add_to_transaction_keys_def add_to_key_transactions_def change_keystate_to_loading_def
  process_prefetch_request_def prefetch_changed_def fetch_complete_def fetch_failed_def
  evict_key_def remove_from_key_transactions_def complete_key_def
  process_transaction_complete_def pf_upsert_def pf_delete_def

section \<open>Bookkeeping\<close>

text \<open>Transaction \<open>tx\<close> has asked for \<open>key\<close> and has not completed.\<close>

definition requests :: "pf_state \<Rightarrow> uuid \<Rightarrow> bytes \<Rightarrow> bool" where
  "requests st tx key \<longleftrightarrow> (\<exists>ks. transaction_keys st tx = Some ks \<and> key \<in> ks)"

definition requested_by :: "pf_state \<Rightarrow> bytes \<Rightarrow> uuid \<Rightarrow> bool" where
  "requested_by st key tx \<longleftrightarrow> (\<exists>ts. key_transactions st key = Some ts \<and> tx \<in> ts)"

definition numbered :: "key_state \<Rightarrow> u64 \<Rightarrow> bool" where
  "numbered s n \<longleftrightarrow> s = Loading n \<or> s = Requested n"

definition pf_inv :: "pf_state \<Rightarrow> bool" where
  "pf_inv st \<longleftrightarrow>
     (\<forall>tx key. requests st tx key \<longleftrightarrow> requested_by st key tx) \<and>
     (\<forall>key. key_transactions st key \<noteq> Some {}) \<and>
     (\<forall>tx ks. transaction_keys st tx = Some ks \<longrightarrow> finite ks) \<and>
     (\<forall>key. key_transactions st key \<noteq> None \<longrightarrow> pf_key_state st key \<noteq> None) \<and>
     dom (key_state_watcher st) = dom (key_state_sender st) \<and>
     (\<forall>key n. pf_key_state st key = Some (Loading n) \<longrightarrow> key \<in> dom (key_state_watcher st)) \<and>
     (\<forall>key s n. pf_key_state st key = Some s \<and> numbered s n \<longrightarrow> n \<le> fetch_sequence_number st)"

lemma numbered_simps [simp]:
  "numbered (Loading m) n \<longleftrightarrow> n = m" "numbered (Requested m) n \<longleftrightarrow> n = m" "\<not> numbered Fetched n"
  by (auto simp: numbered_def)

lemma pf_invI:
  assumes "\<And>tx key. requests st tx key \<longleftrightarrow> requested_by st key tx"
    and "\<And>key. key_transactions st key \<noteq> Some {}"
    and "\<And>tx ks. transaction_keys st tx = Some ks \<Longrightarrow> finite ks"
    and "\<And>key. key_transactions st key \<noteq> None \<Longrightarrow> pf_key_state st key \<noteq> None"
    and "dom (key_state_watcher st) = dom (key_state_sender st)"
    and "\<And>key n. pf_key_state st key = Some (Loading n) \<Longrightarrow> key \<in> dom (key_state_watcher st)"
    and "\<And>key s n. \<lbrakk>pf_key_state st key = Some s; numbered s n\<rbrakk> \<Longrightarrow> n \<le> fetch_sequence_number st"
  shows "pf_inv st"
  using assms unfolding pf_inv_def by blast

lemma pf_invD:
  assumes "pf_inv st"
  shows "requests st tx key \<longleftrightarrow> requested_by st key tx"
    and "key_transactions st key \<noteq> Some {}"
    and "transaction_keys st tx = Some ks \<Longrightarrow> finite ks"
    and "key_transactions st key \<noteq> None \<Longrightarrow> pf_key_state st key \<noteq> None"
    and "dom (key_state_watcher st) = dom (key_state_sender st)"
    and "pf_key_state st key = Some (Loading n) \<Longrightarrow> key \<in> dom (key_state_watcher st)"
    and "\<lbrakk>pf_key_state st key = Some s; numbered s n\<rbrakk> \<Longrightarrow> n \<le> fetch_sequence_number st"
  using assms unfolding pf_inv_def by blast+


lemma pf_inv_frame:
  assumes "pf_inv st"
    and "transaction_keys st' = transaction_keys st" and "key_transactions st' = key_transactions st"
    and "fetch_sequence_number st' = fetch_sequence_number st"
    and "dom (key_state_watcher st') = dom (key_state_sender st')"
    and "dom (key_state_watcher st) \<subseteq> dom (key_state_watcher st')"
    and "\<And>k. k \<noteq> key \<Longrightarrow> pf_key_state st' k = pf_key_state st k"
    and "pf_key_state st' key = Some s"
    and "\<And>n. s = Loading n \<Longrightarrow> key \<in> dom (key_state_watcher st')"
    and "\<And>n. numbered s n \<Longrightarrow> n \<le> fetch_sequence_number st"
  shows "pf_inv st'"
proof (rule pf_invI, goal_cases)
  case (1 tx k)
  then show ?case using pf_invD(1) [OF assms(1)] assms(2,3)
    by (simp add: requests_def requested_by_def)
next
  case (4 k)
  then show ?case using pf_invD(4) [OF assms(1), of k] assms(3,7,8) by (cases "k = key") auto
next
  case (6 k n)
  then show ?case using pf_invD(6) [OF assms(1), of k n] assms(6,7,8,9) by (cases "k = key") auto
next
  case (7 k s' n)
  then show ?case using pf_invD(7) [OF assms(1), of k s' n] assms(4,7,8,10) by (cases "k = key") auto
qed (use assms pf_invD [OF assms(1)] in auto)

lemma store_inv [simp]: "pf_inv (st\<lparr>prefetch_store := m\<rparr>) = pf_inv st"
  by (simp add: pf_inv_def requests_def requested_by_def)

lemma loading_inv:
  assumes "pf_inv st" and "pf_key_state st key \<noteq> None \<or> key_state_watcher st key \<noteq> None"
    and "n \<le> fetch_sequence_number st"
  shows "pf_inv (fst (change_keystate_to_loading ch key n st)) \<and>
         snd (change_keystate_to_loading ch key n st) = (if pf_key_state st key = None then Err () else Ok ())"
proof
  show "pf_inv (fst (change_keystate_to_loading ch key n st))"
    by (rule pf_inv_frame [OF assms(1), of _ key "Loading n"])
      (use assms pf_invD(5) [OF assms(1)] in
        \<open>auto simp: change_keystate_to_loading_def Let_def split: option.splits\<close>)
  show "snd (change_keystate_to_loading ch key n st) = (if pf_key_state st key = None then Err () else Ok ())"
    by (auto simp: change_keystate_to_loading_def Let_def)
qed

lemma loading_known:
  assumes "pf_inv st" and "pf_key_state st key \<noteq> None" and "n \<le> fetch_sequence_number st"
  shows "pf_inv (fst (change_keystate_to_loading ch key n st)) \<and> snd (change_keystate_to_loading ch key n st) = Ok ()"
  using loading_inv [of st key n ch] assms by simp

text \<open>Changing the state of a key to one that is not \<open>Loading\<close> keeps the bookkeeping.\<close>

lemma settle_inv:
  assumes "pf_inv st" and "\<forall>n. s \<noteq> Loading n"
    and "\<forall>n. numbered s n \<longrightarrow> n \<le> fetch_sequence_number st"
  shows "pf_inv (st\<lparr>pf_key_state := (pf_key_state st)(key \<mapsto> s)\<rparr>)"
  by (rule pf_inv_frame [OF assms(1), of _ key s]) (use assms pf_invD(5) [OF assms(1)] in auto)

lemma fetch_complete_inv: "pf_inv st \<Longrightarrow> pf_inv (fst (fetch_complete key v n st))"
  using settle_inv [of st Fetched key] settle_inv [of "st\<lparr>prefetch_store := m\<rparr>" Fetched key for m]
  by (auto simp: fetch_complete_def Let_def split: option.split key_state.split)

lemma fetch_failed_inv: "pf_inv st \<Longrightarrow> pf_inv (fst (fetch_failed key n st))"
  using settle_inv [of st "Requested n" key] pf_invD(7) [of st key "Loading n" n]
  by (auto simp: fetch_failed_def Let_def split: option.split key_state.split)

lemma pf_delete_inv: "pf_inv st \<Longrightarrow> pf_inv (fst (pf_delete key st))"
  using settle_inv [of "st\<lparr>prefetch_store := m\<rparr>" Fetched key for m]
  by (auto simp: pf_delete_def Let_def split: option.split key_state.split)

lemma register_inv:
  assumes "pf_inv st" and "fetch_sequence_number st \<le> m"
    and "\<forall>n. numbered s n \<longrightarrow> n \<le> m"
    and "\<forall>n. s = Loading n \<longrightarrow> key \<in> dom (key_state_watcher st)"
  shows "pf_inv (st\<lparr>transaction_keys := add_to_transaction_keys tx key (transaction_keys st),
             key_transactions := add_to_key_transactions tx key (key_transactions st),
             fetch_sequence_number := m,
             pf_key_state := (pf_key_state st)(key \<mapsto> s)\<rparr>)"
proof (rule pf_invI, goal_cases)
  case (1 t k)
  then show ?case using pf_invD(1) [OF assms(1), of t k]
    by (auto simp: requests_def requested_by_def add_to_transaction_keys_def
        add_to_key_transactions_def split: option.split)
next
  case (2 k)
  then show ?case using pf_invD(2) [OF assms(1), of k]
    by (auto simp: add_to_key_transactions_def split: option.split)
next
  case (3 t ks)
  then show ?case using pf_invD(3) [OF assms(1), of t]
    by (auto simp: add_to_transaction_keys_def split: option.splits if_splits)
next
  case (4 k)
  then show ?case using pf_invD(4) [OF assms(1), of k]
    by (auto simp: add_to_key_transactions_def split: option.splits if_splits)
next
  case 5
  then show ?case using pf_invD(5) [OF assms(1)] by simp
next
  case (6 k n)
  then show ?case using assms(4) pf_invD(6) [OF assms(1), of k n] by (auto split: if_splits)
next
  case (7 k s' n)
  then show ?case using assms(2,3) pf_invD(7) [OF assms(1), of k s' n]
    by (auto split: if_splits)
qed

lemma request_inv:
  assumes "pf_inv st" and "fetch_sequence_number st \<noteq> - 1"
    and "process_prefetch_request ch tx key st = (st', r)"
  shows "pf_inv st' \<and> r \<noteq> Panic"
proof -
  let ?reg = "st\<lparr>transaction_keys := add_to_transaction_keys tx key (transaction_keys st),
    key_transactions := add_to_key_transactions tx key (key_transactions st)\<rparr>"
  have less: "fetch_sequence_number st \<le> fetch_sequence_number st + 1"
    using assms(2) by (rule word_le_inc)
  show ?thesis
  proof (cases "pf_key_state st key")
    case None
    let ?st = "?reg\<lparr>fetch_sequence_number := fetch_sequence_number st + 1,
      pf_key_state := (pf_key_state st)(key \<mapsto> Requested (fetch_sequence_number st + 1))\<rparr>"
    have "pf_inv ?st" using register_inv [OF assms(1) less] by simp
    then have "pf_inv (fst (change_keystate_to_loading ch key (fetch_sequence_number st + 1) ?st)) \<and>
        snd (change_keystate_to_loading ch key (fetch_sequence_number st + 1) ?st) = Ok ()"
      by (intro loading_known) auto
    with assms(3) None show ?thesis
      by (auto simp: process_prefetch_request_def Let_def split_beta)
  next
    case (Some s)
    have "pf_inv (?reg\<lparr>fetch_sequence_number := fetch_sequence_number st,
        pf_key_state := (pf_key_state st)(key \<mapsto> s)\<rparr>)"
      using Some pf_invD(6,7) [OF assms(1)] by (intro register_inv [OF assms(1)]) auto
    then have reg: "pf_inv ?reg" using Some by (simp add: fun_upd_idem)
    moreover have "pf_inv (fst (change_keystate_to_loading ch key n ?reg)) \<and>
        snd (change_keystate_to_loading ch key n ?reg) = Ok ()" if "s = Requested n" for n
      using Some that pf_invD(7) [OF assms(1)] by (intro loading_known reg) auto
    ultimately show ?thesis using assms(3) Some
      by (cases s) (auto simp: process_prefetch_request_def Let_def split_beta)
  qed
qed

text \<open>What completing \<open>tx\<close> leaves of the set of requesters of a key.\<close>

definition without :: "uuid \<Rightarrow> uuid set option \<Rightarrow> uuid set option" where
  "without tx ts = (case ts of Some s \<Rightarrow> if s \<subseteq> {tx} then None else Some (s - {tx}) | None \<Rightarrow> None)"

lemma without_idem [simp]: "without tx (without tx ts) = without tx ts"
  by (auto simp: without_def split: option.split)

lemma without_stable:
  "without tx ts = Some s \<Longrightarrow> without tx (Some s) = Some s" "without tx ts = None \<Longrightarrow> without tx None = None"
  by (metis without_idem)+

lemma remove_from_key_transactions_without:
  "remove_from_key_transactions tx key m = m(key := without tx (m key))"
  by (auto simp: remove_from_key_transactions_def without_def Let_def fun_upd_idem split: option.split)

lemma complete_keys:
  "fold (complete_key tx) keys st =
    st\<lparr>key_transactions := (\<lambda>k. if k \<in> set keys then without tx (key_transactions st k)
                               else key_transactions st k),
       prefetch_store := (\<lambda>k. if k \<in> set keys \<and> without tx (key_transactions st k) = None
                             then None else prefetch_store st k),
       pf_key_state := (\<lambda>k. if k \<in> set keys \<and> without tx (key_transactions st k) = None
                           then None else pf_key_state st k)\<rparr>"
proof (induction keys arbitrary: st)
  case Nil
  then show ?case by simp
next
  case (Cons key keys)
  have stable: "without tx (Some s) = Some s" if "without tx (key_transactions st key) = Some s" for s
    using without_stable(1) [OF that] .
  show ?case
    unfolding fold_Cons comp_def Cons.IH
    by (auto simp: complete_key_def remove_from_key_transactions_without evict_key_def Let_def
        fun_eq_iff stable without_stable(2) intro!: pf_state.equality)
qed

lemma complete_eqs:
  assumes "pf_inv st"
  shows "key_transactions (process_transaction_complete tx st) =
           (\<lambda>k. if requests st tx k then without tx (key_transactions st k) else key_transactions st k)"
    and "pf_key_state (process_transaction_complete tx st) =
           (\<lambda>k. if requests st tx k \<and> without tx (key_transactions st k) = None then None
                else pf_key_state st k)"
    and "prefetch_store (process_transaction_complete tx st) =
           (\<lambda>k. if requests st tx k \<and> without tx (key_transactions st k) = None then None
                else prefetch_store st k)"
    and "transaction_keys (process_transaction_complete tx st) = (transaction_keys st)(tx := None)"
    and "key_state_watcher (process_transaction_complete tx st) = key_state_watcher st"
    and "key_state_sender (process_transaction_complete tx st) = key_state_sender st"
    and "fetch_sequence_number (process_transaction_complete tx st) = fetch_sequence_number st"
  using pf_invD(3) [OF assms, of tx]
  by (auto simp: process_transaction_complete_def complete_keys requests_def Let_def fun_eq_iff
      split: option.split)

lemma complete_inv:
  assumes "pf_inv st"
  shows "pf_inv (process_transaction_complete tx st)"
proof (rule pf_invI, goal_cases)
  case (1 t k)
  then show ?case using pf_invD(1) [OF assms, of t k] pf_invD(1) [OF assms, of tx k]
    by (auto simp: requests_def requested_by_def complete_eqs [OF assms] without_def
        split: option.splits if_splits)
next
  case (2 k)
  then show ?case using pf_invD(2) [OF assms, of k]
    by (auto simp: complete_eqs [OF assms] without_def split: option.split)
next
  case (4 k)
  then show ?case using pf_invD(4) [OF assms, of k]
    by (auto simp: complete_eqs [OF assms] without_def split: option.splits)
qed (use pf_invD [OF assms] in \<open>auto simp: complete_eqs [OF assms] split: if_splits\<close>)

section \<open>Reachable buffers\<close>

text \<open>
  One step per critical section. A resumed waiter has its receiver from the map of watchers, in which
  nothing is ever removed, and its number from an earlier request; its transaction may have completed
  since. The sequence number does not wrap around.
\<close>

inductive pf_step :: "pf_state \<Rightarrow> pf_state \<Rightarrow> bool" where
  Request: "\<lbrakk>fetch_sequence_number st \<noteq> - 1; process_prefetch_request ch tx key st = (st', r)\<rbrakk> \<Longrightarrow>
    pf_step st st'"
| Changed: "\<lbrakk>key_state_watcher st key \<noteq> None; n \<le> fetch_sequence_number st;
    prefetch_changed ch key n w st = (st', r)\<rbrakk> \<Longrightarrow> pf_step st st'"
| Fetch_Complete: "pf_step st (fst (fetch_complete key v n st))"
| Fetch_Failed: "pf_step st (fst (fetch_failed key n st))"
| Transaction_Complete: "pf_step st (process_transaction_complete tx st)"
| Upsert: "pf_step st (pf_upsert key val st)"
| Delete: "pf_step st (fst (pf_delete key st))"

lemma changed_inv:
  assumes "pf_inv st" and "key_state_watcher st key \<noteq> None" and "n \<le> fetch_sequence_number st"
    and "prefetch_changed ch key n w st = (st', r)"
  shows "pf_inv st'"
proof -
  have "pf_inv (fst (change_keystate_to_loading ch key n st))"
    using loading_inv [OF assms(1) _ assms(3), of key ch] assms(2) by blast
  with assms(1,4) show ?thesis
    by (auto simp: prefetch_changed_def split_beta split: option.splits key_state.splits)
qed


lemma pf_step_inv: "pf_step st st' \<Longrightarrow> pf_inv st \<Longrightarrow> pf_inv st'"
  by (induction rule: pf_step.induct)
    (auto simp: fetch_complete_inv fetch_failed_inv complete_inv pf_delete_inv pf_upsert_def
      dest: request_inv changed_inv)

lemma pf_reachable_inv: "pf_step\<^sup>*\<^sup>* pf_new st \<Longrightarrow> pf_inv st"
proof (induction rule: rtranclp_induct)
  case base
  show ?case by (simp add: pf_inv_def pf_new_def requests_def requested_by_def)
next
  case (step st st')
  then show ?case by (blast intro: pf_step_inv)
qed


definition wit_pf :: pf_state where
  "wit_pf = fst (process_prefetch_request 1 5 [97] pf_new)"

lemma wit_pf_eq:
  "wit_pf = \<lparr>prefetch_store = Map.empty, pf_key_state = [[97] \<mapsto> Loading 1],
     transaction_keys = [5 \<mapsto> {[97]}], key_transactions = [[97] \<mapsto> {5}],
     key_state_watcher = [[97] \<mapsto> 1], key_state_sender = [[97] \<mapsto> 1], fetch_sequence_number = 1\<rparr>"
  by (simp add: wit_pf_def pf_new_def pf_defs)

lemma wit_pf_reachable: "pf_step\<^sup>*\<^sup>* pf_new wit_pf"
  by (rule r_into_rtranclp, rule pf_step.Request [of _ 1 5 "[97]"])
    (simp_all add: wit_pf_def pf_new_def prod_eq_iff)




text \<open>
  Completing a transaction evicts exactly the keys that only it had asked for. Every other
  transaction keeps its requests, the completed one has none left, a key that somebody else
  still wants keeps its fetch state and value, and a key nobody else wants loses both.
\<close>

theorem complete_evicts_exactly:
  assumes "pf_inv st" and st': "process_transaction_complete tx st = st'"
  shows "(\<forall>t key. requests st' t key \<longleftrightarrow> t \<noteq> tx \<and> requests st t key) \<and>
    (\<forall>key. requests st tx key \<and> (\<forall>t. t \<noteq> tx \<longrightarrow> \<not> requests st t key) \<longrightarrow>
       prefetch_store st' key = None \<and> pf_key_state st' key = None) \<and>
    (\<forall>key. (\<exists>t. t \<noteq> tx \<and> requests st t key) \<or> \<not> requests st tx key \<longrightarrow>
       prefetch_store st' key = prefetch_store st key \<and>
       pf_key_state st' key = pf_key_state st key)"
proof (intro conjI allI impI)
  note eqs = complete_eqs [OF assms(1), of tx, unfolded st']
  note D = pf_invD [OF assms(1)]
  show "requests st' t key \<longleftrightarrow> t \<noteq> tx \<and> requests st t key" for t key
    by (auto simp: requests_def eqs)
  fix key
  have alone: "without tx (key_transactions st key) = None \<longleftrightarrow> (\<forall>t. requested_by st key t \<longrightarrow> t = tx)"
    by (auto simp: without_def requested_by_def split: option.split)
  show "prefetch_store st' key = None" "pf_key_state st' key = None"
    if "requests st tx key \<and> (\<forall>t. t \<noteq> tx \<longrightarrow> \<not> requests st t key)"
    using that alone D(1) by (auto simp: eqs)
  show "prefetch_store st' key = prefetch_store st key" "pf_key_state st' key = pf_key_state st key"
    if "(\<exists>t. t \<noteq> tx \<and> requests st t key) \<or> \<not> requests st tx key"
    using that alone D(1) by (auto simp: eqs)
qed

theorem complete_evicts_exactly_witness:
  "pf_key_state (process_transaction_complete 5 wit_pf) [97] = None \<and>
   \<not> requests (process_transaction_complete 5 wit_pf) 5 [97]"
  using complete_evicts_exactly [OF pf_reachable_inv [OF wit_pf_reachable] refl, of 5]
  by (auto simp: requests_def wit_pf_eq)

text \<open>
  A fetch that was overtaken by an eviction is ignored. If a key was being loaded under number
  \<open>n\<close>, its only requester completes, and another transaction asks for the key again, then the key
  is loaded under a different number, and the completion of the old fetch changes nothing and
  wakes nobody, so that the new requester never sees the outdated value.
\<close>

theorem stale_fetch_ignored:
  assumes "pf_inv st" and "fetch_sequence_number st \<noteq> - 1"
    and "pf_key_state st key = Some (Loading n)" and "key_transactions st key = Some {tx}"
    and "process_prefetch_request ch tx' key (process_transaction_complete tx st) = (st', r)"
  shows "(\<exists>n'. n' \<noteq> n \<and> pf_key_state st' key = Some (Loading n') \<and> r = Ok (Inl (Requested n'))) \<and>
    (\<forall>v. fetch_complete key v n st' = (st', []))"
proof -
  note eqs = complete_eqs [OF assms(1), of tx]
  let ?n = "fetch_sequence_number st + 1"
  have "requests st tx key"
    using pf_invD(1) [OF assms(1)] assms(4) by (simp add: requested_by_def)
  then have none: "pf_key_state (process_transaction_complete tx st) key = None"
    using assms(4) by (simp add: eqs without_def)
  have fresh: "?n \<noteq> n"
    using pf_invD(7) [OF assms(1,3)] word_le_inc [OF assms(2)] assms(2)
    by (metis add_cancel_right_right antisym numbered_simps(1) zero_neq_one)
  have "pf_key_state st' key = Some (Loading ?n) \<and> r = Ok (Inl (Requested ?n))"
    using assms(5) none eqs(7)
    by (auto simp: process_prefetch_request_def change_keystate_to_loading_def Let_def split_beta)
  with fresh show ?thesis by (auto simp: fetch_complete_def)
qed

theorem stale_fetch_ignored_witness:
  "fetch_complete [97] (Some [1]) 1
     (fst (process_prefetch_request 2 6 [97] (process_transaction_complete 5 wit_pf))) =
   (fst (process_prefetch_request 2 6 [97] (process_transaction_complete 5 wit_pf)), [])"
  using stale_fetch_ignored [of wit_pf "[97]" 1 5 2 6, OF _ _ _ _ prod.collapse [symmetric]]
    pf_reachable_inv [OF wit_pf_reachable]
  by (simp add: wit_pf_eq)

section \<open>The buffer as a cache\<close>

text \<open>The buffer agrees with the committed contents \<open>db\<close> of the range wherever it has a value.\<close>

definition coherent :: "(bytes \<rightharpoonup> bytes) \<Rightarrow> pf_state \<Rightarrow> bool" where
  "coherent db st \<longleftrightarrow> (\<forall>key v. prefetch_store st key = Some v \<longrightarrow> db key = Some v)"

text \<open>
  The buffer together with the committed contents of the range and the reads of the storage that fetches
  have made and not yet delivered (key, number and what was read).
\<close>

record pf_system =
  sys_buffer :: pf_state
  sys_db :: "bytes \<rightharpoonup> bytes"
  sys_reads :: "(bytes \<times> u64 \<times> bytes option) set"

definition pf_system_new :: "(bytes \<rightharpoonup> bytes) \<Rightarrow> pf_system" where
  "pf_system_new db = \<lparr>sys_buffer = pf_new, sys_db = db, sys_reads = {}\<rparr>"

text \<open>A read for the key under the number its fetch state has now.\<close>

definition current_read :: "pf_system \<Rightarrow> bytes \<Rightarrow> bool" where
  "current_read s key \<longleftrightarrow>
     (\<exists>k n r. pf_key_state (sys_buffer s) key = Some k \<and> numbered k n \<and> (key, n, r) \<in> sys_reads s)"

text \<open>
  A fetch reads the storage at any time and delivers what it has read at any later time, also when
  the key has been evicted and requested again since; \<open>Sys_Forget\<close> is a fetch that ends. A committed
  change is applied to the buffer at once, as the range manager does. Three races are left out:
  a write while a read for the key's present number is under way, a delete of such a key in
  state \<open>Requested\<close> or of a key that is stored without a fetch state, and a waiter that
  resumes with a number under which an outdated read is under way.
\<close>

inductive sys_step :: "pf_system \<Rightarrow> pf_system \<Rightarrow> bool" where
  Sys_Request: "fetch_sequence_number (sys_buffer s) \<noteq> - 1 \<Longrightarrow>
    sys_step s (s\<lparr>sys_buffer := fst (process_prefetch_request ch tx key (sys_buffer s))\<rparr>)"
| Sys_Changed: "\<lbrakk>key_state_watcher (sys_buffer s) key \<noteq> None; n \<le> fetch_sequence_number (sys_buffer s);
    \<forall>r. (key, n, r) \<in> sys_reads s \<longrightarrow> r = sys_db s key\<rbrakk> \<Longrightarrow>
    sys_step s (s\<lparr>sys_buffer := fst (prefetch_changed ch key n w (sys_buffer s))\<rparr>)"
| Sys_Read: "n \<le> fetch_sequence_number (sys_buffer s) \<Longrightarrow>
    sys_step s (s\<lparr>sys_reads := insert (key, n, sys_db s key) (sys_reads s)\<rparr>)"
| Sys_Forget: "sys_step s (s\<lparr>sys_reads := sys_reads s - {r}\<rparr>)"
| Sys_Complete: "(key, n, r) \<in> sys_reads s \<Longrightarrow>
    sys_step s (s\<lparr>sys_buffer := fst (fetch_complete key r n (sys_buffer s))\<rparr>)"
| Sys_Failed: "sys_step s (s\<lparr>sys_buffer := fst (fetch_failed key n (sys_buffer s))\<rparr>)"
| Sys_Done: "sys_step s (s\<lparr>sys_buffer := process_transaction_complete tx (sys_buffer s)\<rparr>)"
| Sys_Write: "\<not> current_read s key \<Longrightarrow>
    sys_step s (s\<lparr>sys_db := (sys_db s)(key \<mapsto> v), sys_buffer := pf_upsert key v (sys_buffer s)\<rparr>)"
| Sys_Delete: "\<lbrakk>pf_key_state (sys_buffer s) key \<noteq> None \<or> prefetch_store (sys_buffer s) key = None;
    \<forall>n r. pf_key_state (sys_buffer s) key = Some (Requested n) \<longrightarrow> (key, n, r) \<notin> sys_reads s\<rbrakk> \<Longrightarrow>
    sys_step s (s\<lparr>sys_db := (sys_db s)(key := None), sys_buffer := fst (pf_delete key (sys_buffer s))\<rparr>)"

text \<open>Reads carry numbers handed out before, and one under the present number of its key is up to date.\<close>

definition sys_inv :: "pf_system \<Rightarrow> bool" where
  "sys_inv s \<longleftrightarrow> pf_inv (sys_buffer s) \<and> coherent (sys_db s) (sys_buffer s) \<and>
     (\<forall>key n r. (key, n, r) \<in> sys_reads s \<longrightarrow> n \<le> fetch_sequence_number (sys_buffer s)) \<and>
     (\<forall>key k n r. pf_key_state (sys_buffer s) key = Some k \<longrightarrow> numbered k n \<longrightarrow> (key, n, r) \<in> sys_reads s \<longrightarrow>
        r = sys_db s key)"

lemma sys_invD:
  assumes "sys_inv s"
  shows "pf_inv (sys_buffer s)" and "prefetch_store (sys_buffer s) key = Some v \<Longrightarrow> sys_db s key = Some v"
    and "(key, n, r) \<in> sys_reads s \<Longrightarrow> n \<le> fetch_sequence_number (sys_buffer s)"
    and "\<lbrakk>pf_key_state (sys_buffer s) key = Some k; numbered k n; (key, n, r) \<in> sys_reads s\<rbrakk> \<Longrightarrow> r = sys_db s key"
  using assms unfolding sys_inv_def coherent_def by blast+

text \<open>A step that changes the fetch state of one key only, to one whose reads are up to date.\<close>

lemma sys_invI:
  assumes "sys_inv s" and "pf_inv b" and "coherent db b" and "fetch_sequence_number (sys_buffer s) \<le> fetch_sequence_number b"
    and "\<And>k. k \<noteq> key \<Longrightarrow> pf_key_state b k = pf_key_state (sys_buffer s) k"
    and "\<And>k. k \<noteq> key \<Longrightarrow> db k = sys_db s k"
    and "\<And>k n r. \<lbrakk>pf_key_state b key = Some k; numbered k n; (key, n, r) \<in> sys_reads s\<rbrakk> \<Longrightarrow> r = db key"
  shows "sys_inv (s\<lparr>sys_db := db, sys_buffer := b\<rparr>)"
  unfolding sys_inv_def
proof (intro conjI allI impI)
  show "n \<le> fetch_sequence_number (sys_buffer (s\<lparr>sys_db := db, sys_buffer := b\<rparr>))"
    if "(k, n, r) \<in> sys_reads (s\<lparr>sys_db := db, sys_buffer := b\<rparr>)" for k n r
    using sys_invD(3) [OF assms(1)] that assms(4) by (fastforce intro: order_trans)
  show "r = sys_db (s\<lparr>sys_db := db, sys_buffer := b\<rparr>) k"
    if "pf_key_state (sys_buffer (s\<lparr>sys_db := db, sys_buffer := b\<rparr>)) k = Some ks" "numbered ks n"
      "(k, n, r) \<in> sys_reads (s\<lparr>sys_db := db, sys_buffer := b\<rparr>)" for k ks n r
    using that assms(5-7) sys_invD(4) [OF assms(1)] by (cases "k = key") auto
qed (use assms in simp_all)

lemmas sys_inv_buffer = sys_invI [where db = "sys_db s" and s = s for s, simplified]

lemma request_facts:
  assumes "process_prefetch_request ch tx key st = (st', r)"
  shows "prefetch_store st' = prefetch_store st"
    and "k \<noteq> key \<Longrightarrow> pf_key_state st' k = pf_key_state st k"
    and "pf_key_state st key = Some s \<Longrightarrow> fetch_sequence_number st' = fetch_sequence_number st \<and>
      (\<exists>s'. pf_key_state st' key = Some s' \<and> (\<forall>n. numbered s' n \<longleftrightarrow> numbered s n))"
    and "pf_key_state st key = None \<Longrightarrow> fetch_sequence_number st' = fetch_sequence_number st + 1 \<and>
      pf_key_state st' key = Some (Loading (fetch_sequence_number st + 1))"
  using assms
  by (auto simp: process_prefetch_request_def change_keystate_to_loading_def Let_def split_beta
      split: option.splits key_state.splits)

lemma sys_request_inv:
  assumes "sys_inv s" and "fetch_sequence_number (sys_buffer s) \<noteq> - 1"
  shows "sys_inv (s\<lparr>sys_buffer := fst (process_prefetch_request ch tx key (sys_buffer s))\<rparr>)"
proof -
  let ?b = "sys_buffer s"
  obtain b r where b: "process_prefetch_request ch tx key ?b = (b, r)" by force
  note f = request_facts [OF b]
  have less: "fetch_sequence_number ?b < fetch_sequence_number ?b + 1"
    using word_le_inc [OF assms(2)] assms(2) by (metis add_cancel_right_right order_le_neq_trans zero_neq_one)
  have "r' = sys_db s key" if "pf_key_state b key = Some k" "numbered k n" "(key, n, r') \<in> sys_reads s" for k n r'
  proof (cases "pf_key_state ?b key")
    case None
    with f(4) that less sys_invD(3) [OF assms(1) that(3)] show ?thesis by auto
  next
    case (Some s')
    with f(3) that sys_invD(4) [OF assms(1) Some] show ?thesis by auto
  qed
  moreover have "fetch_sequence_number ?b \<le> fetch_sequence_number b"
    using f(3,4) less by (cases "pf_key_state ?b key") auto
  moreover have "pf_inv b" using request_inv [OF sys_invD(1) [OF assms(1)] assms(2) b] by blast
  ultimately show ?thesis
    using sys_inv_buffer [OF assms(1), of b key] f(1,2) sys_invD(2) [OF assms(1)]
    by (simp add: b coherent_def)
qed

lemma sys_complete_inv:
  assumes "sys_inv s" and "(key, n, r) \<in> sys_reads s"
  shows "sys_inv (s\<lparr>sys_buffer := fst (fetch_complete key r n (sys_buffer s))\<rparr>)"
proof (cases "pf_key_state (sys_buffer s) key = Some (Loading n)")
  case True
  have "r = sys_db s key" by (rule sys_invD(4) [OF assms(1) True _ assms(2)]) simp
  then have c: "coherent (sys_db s) (fst (fetch_complete key r n (sys_buffer s)))"
    using True sys_invD(2) [OF assms(1)] by (auto simp: fetch_complete_def Let_def coherent_def split: option.split)
  show ?thesis
    by (rule sys_inv_buffer [OF assms(1) fetch_complete_inv [OF sys_invD(1) [OF assms(1)]] c, where key = key])
      (use True in \<open>auto simp: fetch_complete_def Let_def split: option.splits\<close>)
next
  case False
  then have "fst (fetch_complete key r n (sys_buffer s)) = sys_buffer s"
    by (auto simp: fetch_complete_def split: option.split key_state.split)
  with assms(1) show ?thesis by simp
qed

lemma sys_failed_inv:
  assumes "sys_inv s"
  shows "sys_inv (s\<lparr>sys_buffer := fst (fetch_failed key n (sys_buffer s))\<rparr>)"
proof (cases "pf_key_state (sys_buffer s) key = Some (Loading n)")
  case True
  then have f: "fst (fetch_failed key n (sys_buffer s)) =
      sys_buffer s\<lparr>pf_key_state := (pf_key_state (sys_buffer s))(key \<mapsto> Requested n)\<rparr>"
    by (simp add: fetch_failed_def Let_def)
  show ?thesis
    by (rule sys_inv_buffer [OF assms fetch_failed_inv [OF sys_invD(1) [OF assms]], where key = key])
      (use True sys_invD(2,4) [OF assms] in \<open>auto simp: f coherent_def\<close>)
next
  case False
  then have "fst (fetch_failed key n (sys_buffer s)) = sys_buffer s"
    by (auto simp: fetch_failed_def split: option.split key_state.split)
  with assms(1) show ?thesis by simp
qed

lemma loading_facts:
  "prefetch_store (fst (change_keystate_to_loading ch key n st)) = prefetch_store st"
  "fetch_sequence_number (fst (change_keystate_to_loading ch key n st)) = fetch_sequence_number st"
  "pf_key_state (fst (change_keystate_to_loading ch key n st)) = (pf_key_state st)(key \<mapsto> Loading n)"
  by (auto simp: change_keystate_to_loading_def Let_def split: option.split)

lemma sys_changed_inv:
  assumes "sys_inv s" and "key_state_watcher (sys_buffer s) key \<noteq> None" and "n \<le> fetch_sequence_number (sys_buffer s)"
    and "\<forall>r. (key, n, r) \<in> sys_reads s \<longrightarrow> r = sys_db s key"
  shows "sys_inv (s\<lparr>sys_buffer := fst (prefetch_changed ch key n w (sys_buffer s))\<rparr>)"
proof -
  have "pf_inv (fst (change_keystate_to_loading ch key n (sys_buffer s)))"
    using loading_inv [OF sys_invD(1) [OF assms(1)] _ assms(3), of key ch] assms(2) by blast
  then have "sys_inv (s\<lparr>sys_buffer := fst (change_keystate_to_loading ch key n (sys_buffer s))\<rparr>)"
    by (rule sys_inv_buffer [OF assms(1), where key = key])
      (use assms(4) sys_invD(2) [OF assms(1)] in \<open>auto simp: loading_facts coherent_def\<close>)
  moreover have "fst (prefetch_changed ch key n w (sys_buffer s)) \<in>
      {sys_buffer s, fst (change_keystate_to_loading ch key n (sys_buffer s))}"
    by (auto simp: prefetch_changed_def split_beta split: option.split key_state.split)
  ultimately show ?thesis using assms(1) by auto
qed

lemma sys_done_inv:
  assumes "sys_inv s"
  shows "sys_inv (s\<lparr>sys_buffer := process_transaction_complete tx (sys_buffer s)\<rparr>)"
proof -
  note eqs = complete_eqs [OF sys_invD(1) [OF assms], of tx]
  show ?thesis
    using assms complete_inv [OF sys_invD(1) [OF assms], of tx]
    by (auto simp: sys_inv_def coherent_def eqs split: if_splits)
qed

lemma sys_write_inv:
  assumes "sys_inv s" and "\<not> current_read s key"
  shows "sys_inv (s\<lparr>sys_db := (sys_db s)(key \<mapsto> v), sys_buffer := pf_upsert key v (sys_buffer s)\<rparr>)"
  using assms sys_invD [OF assms(1)]
  by (intro sys_invI [where key = key]) (auto simp: pf_upsert_def coherent_def current_read_def)

lemma delete_facts:
  "prefetch_store (fst (pf_delete key st)) =
     (if pf_key_state st key = None then prefetch_store st else (prefetch_store st)(key := None))"
  "fetch_sequence_number (fst (pf_delete key st)) = fetch_sequence_number st"
  "pf_key_state (fst (pf_delete key st)) =
     (if \<exists>n. pf_key_state st key = Some (Loading n) then (pf_key_state st)(key \<mapsto> Fetched) else pf_key_state st)"
  by (auto simp: pf_delete_def Let_def split: option.split key_state.split)

lemma sys_delete_inv:
  assumes "sys_inv s" and "pf_key_state (sys_buffer s) key \<noteq> None \<or> prefetch_store (sys_buffer s) key = None"
    and "\<forall>n r. pf_key_state (sys_buffer s) key = Some (Requested n) \<longrightarrow> (key, n, r) \<notin> sys_reads s"
  shows "sys_inv (s\<lparr>sys_db := (sys_db s)(key := None), sys_buffer := fst (pf_delete key (sys_buffer s))\<rparr>)"
proof (rule sys_invI [OF assms(1), where key = key])
  show "pf_inv (fst (pf_delete key (sys_buffer s)))" by (rule pf_delete_inv [OF sys_invD(1) [OF assms(1)]])
qed (use assms(2,3) sys_invD(2) [OF assms(1)] in
    \<open>auto simp: delete_facts coherent_def numbered_def split: if_splits\<close>)

lemma sys_step_inv: "sys_step s s' \<Longrightarrow> sys_inv s \<Longrightarrow> sys_inv s'"
proof (induction rule: sys_step.induct)
  case (Sys_Read n s key)
  then show ?case by (auto simp: sys_inv_def)
next
  case (Sys_Forget s r)
  then show ?case by (auto simp: sys_inv_def)
qed (simp_all add: sys_request_inv sys_changed_inv sys_complete_inv sys_failed_inv sys_done_inv sys_write_inv sys_delete_inv)

lemma sys_steps_inv: "sys_step\<^sup>*\<^sup>* (pf_system_new db) s \<Longrightarrow> sys_inv s"
proof (induction rule: rtranclp_induct)
  case base
  show ?case by (simp add: pf_system_new_def sys_inv_def coherent_def pf_new_def pf_inv_def requests_def requested_by_def)
qed (rule sys_step_inv)

text \<open>
  C25: The buffer is a faithful cache. However requests, reads of the storage, deliveries of what was
  read, failures, completions of transactions and committed writes and deletes are interleaved,
  the buffer answers only with values that are committed at that moment, also when a fetch delivers
  an outdated value after its key was evicted and requested again. The runs leave out three races: a
  write while a fetch under the key's present number has read but not delivered; a delete of such a
  key in state \<open>Requested\<close>, or of a key that is stored without a fetch state; and a waiter that resumes
  with a number under which an outdated read is under way. The first is shown to matter: if a
  write is committed while the key is being loaded and the fetch then delivers what it read before,
  the buffer answers with the old value.
\<close>

theorem buffer_coherent:
  assumes "sys_step\<^sup>*\<^sup>* (pf_system_new db) s"
  shows "(\<forall>key v. get_from_buffer key (sys_buffer s) = Ok (Some v) \<longrightarrow> sys_db s key = Some v) \<and>
    (\<forall>key n old v. pf_key_state (sys_buffer s) key = Some (Loading n) \<longrightarrow>
       get_from_buffer key (fst (fetch_complete key (Some old) n (pf_upsert key v (sys_buffer s)))) = Ok (Some old))"
proof (intro conjI allI impI)
  show "sys_db s key = Some v" if "get_from_buffer key (sys_buffer s) = Ok (Some v)" for key v
    using that sys_invD(2) [OF sys_steps_inv [OF assms]] by (auto simp: get_from_buffer_def split: option.splits)
  show "get_from_buffer key (fst (fetch_complete key (Some old) n (pf_upsert key v (sys_buffer s)))) = Ok (Some old)"
    if "pf_key_state (sys_buffer s) key = Some (Loading n)" for key n old v
    using that by (simp add: get_from_buffer_def fetch_complete_def pf_upsert_def Let_def)
qed

text \<open>
  Transaction 5 asks for a key and its fetch reads the value 1; 5 completes, the value 2 is
  committed, transaction 6 asks for the key, and the fetch delivers the value 1.
\<close>

definition wit_pf_read :: pf_system where
  "wit_pf_read = \<lparr>sys_buffer = wit_pf, sys_db = [[97] \<mapsto> [1]], sys_reads = {([97], 1, Some [1])}\<rparr>"

definition wit_again :: pf_state where
  "wit_again = fst (process_prefetch_request 2 6 [97] (pf_upsert [97] [2] (process_transaction_complete 5 wit_pf)))"

definition wit_delivered :: pf_system where
  "wit_delivered = \<lparr>sys_buffer = fst (fetch_complete [97] (Some [1]) 1 wit_again), sys_db = [[97] \<mapsto> [2]],
     sys_reads = {([97], 1, Some [1])}\<rparr>"

lemma wit_delivered_reachable: "sys_step\<^sup>*\<^sup>* (pf_system_new [[97] \<mapsto> [1]]) wit_delivered"
proof -
  let ?new = "pf_system_new [[97] \<mapsto> [1]]"
  have "sys_step ?new (?new\<lparr>sys_buffer := wit_pf\<rparr>)"
    using Sys_Request [of ?new 1 5 "[97]"] by (simp add: pf_system_new_def pf_new_def wit_pf_def)
  moreover have "sys_step (?new\<lparr>sys_buffer := wit_pf\<rparr>) wit_pf_read"
    using Sys_Read [of 1 "?new\<lparr>sys_buffer := wit_pf\<rparr>" "[97]"] by (simp add: pf_system_new_def wit_pf_read_def wit_pf_eq)
  moreover have "sys_step wit_pf_read (wit_pf_read\<lparr>sys_buffer := process_transaction_complete 5 wit_pf\<rparr>)"
    using Sys_Done [of wit_pf_read 5] by (simp add: wit_pf_read_def)
  moreover have "sys_step (wit_pf_read\<lparr>sys_buffer := process_transaction_complete 5 wit_pf\<rparr>)
      (wit_pf_read\<lparr>sys_db := [[97] \<mapsto> [2]], sys_buffer := pf_upsert [97] [2] (process_transaction_complete 5 wit_pf)\<rparr>)"
    using Sys_Write [of "wit_pf_read\<lparr>sys_buffer := process_transaction_complete 5 wit_pf\<rparr>" "[97]" "[2]"]
    by (simp add: wit_pf_read_def current_read_def wit_pf_eq pf_defs)
  moreover have "sys_step
      (wit_pf_read\<lparr>sys_db := [[97] \<mapsto> [2]], sys_buffer := pf_upsert [97] [2] (process_transaction_complete 5 wit_pf)\<rparr>)
      (wit_pf_read\<lparr>sys_db := [[97] \<mapsto> [2]], sys_buffer := wit_again\<rparr>)"
    using Sys_Request [of "wit_pf_read\<lparr>sys_db := [[97] \<mapsto> [2]], sys_buffer := pf_upsert [97] [2]
      (process_transaction_complete 5 wit_pf)\<rparr>" 2 6 "[97]"]
    by (simp add: wit_pf_read_def wit_again_def wit_pf_eq pf_upsert_def process_transaction_complete_def complete_key_def evict_key_def Let_def)
  moreover have "sys_step (wit_pf_read\<lparr>sys_db := [[97] \<mapsto> [2]], sys_buffer := wit_again\<rparr>) wit_delivered"
    using Sys_Complete [of "[97]" 1 "Some [1]" "wit_pf_read\<lparr>sys_db := [[97] \<mapsto> [2]], sys_buffer := wit_again\<rparr>"]
    by (simp add: wit_pf_read_def wit_delivered_def)
  ultimately show ?thesis by (meson converse_rtranclp_into_rtranclp rtranclp.rtrancl_refl)
qed

theorem buffer_coherent_witness:
  "get_from_buffer [97] (sys_buffer wit_delivered) = Ok (Some [2]) \<and> sys_db wit_delivered [97] = Some [2]"
proof -
  have "get_from_buffer [97] (sys_buffer wit_delivered) = Ok (Some [2])"
    by (simp add: wit_delivered_def wit_again_def wit_pf_eq pf_defs get_from_buffer_def)
  with buffer_coherent [OF wit_delivered_reachable] show ?thesis by blast
qed

text \<open>
  C26: The condition on deletes is needed, and the code does not establish it. \<open>upsert\<close> stores the
  value of a committed write even when nobody has asked for the key, but \<open>delete\<close> removes a value
  only when somebody has: after a write and a delete have both been committed the buffer still
  answers with the deleted value, for every value and every key without a fetch state.
\<close>

theorem deleted_value_survives:
  assumes "pf_key_state st key = None"
  shows "get_from_buffer key (fst (pf_delete key (pf_upsert key v st))) = Ok (Some v) \<and>
         \<not> coherent (db(key := None)) (fst (pf_delete key (pf_upsert key v st)))"
  using assms by (auto simp: get_from_buffer_def pf_delete_def pf_upsert_def coherent_def)

theorem deleted_value_survives_witness:
  "get_from_buffer [97] (fst (pf_delete [97] (pf_upsert [97] [1] pf_new))) = Ok (Some [1])"
  using deleted_value_survives [of pf_new "[97]" "[1]"] by (simp add: pf_new_def)

end
