(* ===== verification/Range_Manager.thy ===== *)
theory Range_Manager
  imports Range_Interfaces Lock_Table Prefetching_Buffer
begin

text \<open>
  \<open>rangeserver/src/range_manager/impl.rs\<close>: the manager of one range. A handler that waits (for
  the range lock, for the write-ahead log to be flushed) is modelled as one definition per part
  between the waits; the read guard on the manager's state that it keeps over the waits means
  that the range stays loaded from one part to the next.
\<close>

section \<open>State\<close>

record prepare_record =
  changes :: changes

record pending_state =
  pending_prepare_records :: "uuid \<rightharpoonup> prepare_record"
  pending_commit_table :: "bytes \<rightharpoonup> uuid"

record loaded_state =
  range_info :: range_info
  highest_known_epoch :: u64
  ls_lock_table :: lock_table
  pending_state :: pending_state

text \<open>\<open>RM_Loading c\<close>: somebody is loading and will broadcast the result on channel \<open>c\<close>.\<close>

datatype rm_state = NotLoaded | RM_Loading chan | Loaded loaded_state | Unloaded

text \<open>The part of the configuration the manager reads; the duration is in nanoseconds.\<close>

record rm_config =
  cfg_commit_strategy :: commit_strategy
  cfg_heuristic :: heuristic
  epoch_duration :: nat

record ('s, 'w) range_manager =
  rm_range_id :: full_range_id
  rm_config :: rm_config
  rm_storage :: 's
  rm_wal :: 'w
  rm_state :: rm_state
  prefetching_buffer :: pf_state

definition hke_maybe_update :: "u64 \<Rightarrow> u64 \<Rightarrow> u64" where
  "hke_maybe_update v new_epoch = max v new_epoch"

definition rm_new :: "full_range_id \<Rightarrow> rm_config \<Rightarrow> 's \<Rightarrow> 'w \<Rightarrow> ('s, 'w) range_manager" where
  "rm_new rid cfg so w = \<lparr>rm_range_id = rid, rm_config = cfg, rm_storage = so, rm_wal = w,
     rm_state = NotLoaded, prefetching_buffer = pf_new\<rparr>"

section \<open>Loading and unloading\<close>

text \<open>
  The first part of \<open>load\<close>: it returns at once, subscribes to the result of another call, or goes
  on as the loader with its own broadcast channel.
\<close>

datatype load_path = Load_Return "(error, unit) outcome" | Load_Subscribe chan | Load_Run chan

definition load_enter ::
    "chan \<Rightarrow> ('s, 'w) range_manager \<Rightarrow> ('s, 'w) range_manager \<times> load_path" where
  "load_enter ch rm =
     (case rm_state rm of
        Loaded _ \<Rightarrow> (rm, Load_Return (Ok ()))
      | RM_Loading sender \<Rightarrow> (rm, Load_Subscribe sender)
      | NotLoaded \<Rightarrow> (rm\<lparr>rm_state := RM_Loading ch\<rparr>, Load_Run ch)
      | Unloaded \<Rightarrow> (rm, Load_Return (Err RangeIsNotLoaded)))"

text \<open>\<open>2 s\<close> worth of epochs, and at least one; the quotient always fits into 64 bits.\<close>

definition num_epochs_per_lease :: "rm_config \<Rightarrow> u64 option" where
  "num_epochs_per_lease cfg =
     (if epoch_duration cfg = 0 then None
      else Some (max 1 (of_nat (2000000000 div epoch_duration cfg))))"

definition new_lease :: "u64 \<Rightarrow> u64 \<Rightarrow> lease \<Rightarrow> lease" where
  "new_lease known n old =
     (let new_epoch_lease_lower_bound = max known (snd old + 1)
      in (new_epoch_lease_lower_bound, new_epoch_lease_lower_bound + n))"

definition load_inner ::
    "'s storage \<Rightarrow> 'w wal \<Rightarrow> ('s, 'w) range_manager \<Rightarrow>
      ('s, 'w) range_manager \<times> (error, loaded_state) outcome" where
  "load_inner so wo rm =
     (case num_epochs_per_lease (rm_config rm) of
        None \<Rightarrow> (rm, Panic)
      | Some num_epochs \<Rightarrow>
          (let epoch = 0 :: u64;
               (s, r) = take_ownership_and_load_range so (rm_range_id rm) (rm_storage rm);
               rm = rm\<lparr>rm_storage := s\<rparr>
           in case map_err from_storage_error r of
                Panic \<Rightarrow> (rm, Panic)
              | Err e \<Rightarrow> (rm, Err e)
              | Ok info \<Rightarrow>
                  (let highest_known_epoch = epoch + 1;
                       lease = new_lease highest_known_epoch num_epochs (epoch_lease info);
                       (s, r) = renew_epoch_lease so (rm_range_id rm) lease
                                  (leader_sequence_number info) (rm_storage rm);
                       rm = rm\<lparr>rm_storage := s\<rparr>
                   in case map_err from_storage_error r of
                        Panic \<Rightarrow> (rm, Panic)
                      | Err e \<Rightarrow> (rm, Err e)
                      | Ok _ \<Rightarrow>
                          (let info = info\<lparr>epoch_lease := lease\<rparr>;
                               (w, r) = wal_sync wo (rm_wal rm);
                               rm = rm\<lparr>rm_wal := w\<rparr>
                           in (rm, try_ok (map_err from_wal_error r) (\<lambda>_.
                                Ok \<lparr>range_info = info,
                                    highest_known_epoch = highest_known_epoch,
                                    ls_lock_table = lock_table_new,
                                    pending_state = \<lparr>pending_prepare_records = Map.empty,
                                                     pending_commit_table = Map.empty\<rparr>\<rparr>))))))"

text \<open>
  The last part of \<open>load\<close>, for the loader, with the number of subscribers of its channel. Sending
  fails when there is none; after a failed load that failure is unwrapped.
\<close>

definition load_finish ::
    "nat \<Rightarrow> (error, loaded_state) outcome \<Rightarrow> ('s, 'w) range_manager \<Rightarrow>
      ('s, 'w) range_manager \<times> (error, unit) outcome" where
  "load_finish subscribers load_result rm =
     (case load_result of
        Panic \<Rightarrow> (rm, Panic)
      | Err e \<Rightarrow> (rm\<lparr>rm_state := Unloaded\<rparr>, if subscribers = 0 then Panic else Err e)
      | Ok st \<Rightarrow> (rm\<lparr>rm_state := Loaded st\<rparr>, Ok ()))"

definition unload :: "('s, 'w) range_manager \<Rightarrow> ('s, 'w) range_manager" where
  "unload rm = rm\<lparr>rm_state := Unloaded\<rparr>"

definition is_unloaded :: "('s, 'w) range_manager \<Rightarrow> bool" where
  "is_unloaded rm = (case rm_state rm of Unloaded \<Rightarrow> True | _ \<Rightarrow> False)"

text \<open>
  One round of the lease renewal: what it reads, the lease it asks the storage for, and what it
  writes back. \<open>Inl ()\<close> stands for sleeping and trying again.
\<close>

definition renew_lease_read ::
    "u64 \<Rightarrow> ('s, 'w) range_manager \<Rightarrow> unit + (lease \<times> lease \<times> u64)" where
  "renew_lease_read num_epochs rm =
     (case rm_state rm of
        Loaded st \<Rightarrow>
          (let epoch = 0 :: u64; known = epoch + 1;
               old_lease = epoch_lease (range_info st);
               num_epochs_left = (if epoch \<le> snd old_lease then snd old_lease - epoch else 0)
           in if num_epochs_left > 2 * num_epochs then Inl ()
              else Inr (old_lease, new_lease known num_epochs old_lease,
                        leader_sequence_number (range_info st)))
      | _ \<Rightarrow> Inl ())"

definition renew_lease_write ::
    "lease \<Rightarrow> lease \<Rightarrow> ('s, 'w) range_manager \<Rightarrow> ('s, 'w) range_manager \<times> (error, unit) outcome" where
  "renew_lease_write old_lease asked rm =
     (let new_lease = (if fst asked - snd old_lease = 1 then (fst old_lease, snd asked) else asked)
      in case rm_state rm of
           Loaded st \<Rightarrow>
             if epoch_lease (range_info st) \<noteq> old_lease then (rm, Panic)
             else
               (rm\<lparr>rm_state := Loaded (st
                  \<lparr>range_info := (range_info st)\<lparr>epoch_lease := new_lease\<rparr>,
                   highest_known_epoch := hke_maybe_update (highest_known_epoch st) 1\<rparr>)\<rparr>, Ok ())
         | _ \<Rightarrow> (rm, Err RangeIsNotLoaded))"

section \<open>Early lock release\<close>

definition do_early_lock_release ::
    "rm_config \<Rightarrow> lock_table \<Rightarrow> f64 \<Rightarrow> u32 \<Rightarrow> bool" where
  "do_early_lock_release cfg lt load clients =
     (case cfg_commit_strategy cfg of
        Pipelined \<Rightarrow> True
      | Traditional \<Rightarrow> False
      | Adaptive \<Rightarrow>
          (case cfg_heuristic cfg of
             OpenClients \<Rightarrow>
               (let contention_proxy = f64_of_nat (unat clients)
                in if f64_le (Fin 5000) load then False
                   else if f64_le (Fin 200) load \<and> f64_lt load (Fin 5000)
                     then f64_lt (Fin 100) contention_proxy
                   else if f64_le (Fin 50) load \<and> f64_lt load (Fin 200)
                     then f64_lt (Fin 50) contention_proxy
                   else True)
           | LockContention \<Rightarrow>
               (let contention_proxy = get_num_waiters_and_pending lt
                in if f64_le (Fin 5000) load then False
                   else if f64_le (Fin 200) load \<and> f64_lt load (Fin 5000)
                     then f64_lt (Fin 40) contention_proxy
                   else if f64_le (Fin 50) load \<and> f64_lt load (Fin 200)
                     then f64_lt (Fin 20) contention_proxy
                   else True)))"

definition get_lock_table_stats ::
    "('s, 'w) range_manager \<Rightarrow> ('s, 'w) range_manager \<times> statistics" where
  "get_lock_table_stats rm =
     (case rm_state rm of
        Loaded st \<Rightarrow>
          (let (lt, stats) = get_statistics (ls_lock_table st)
           in (rm\<lparr>rm_state := Loaded (st\<lparr>ls_lock_table := lt\<rparr>)\<rparr>, stats))
      | _ \<Rightarrow> (rm, default_statistics))"

text \<open>The lock request of \<open>acquire_range_lock\<close>; the handler then awaits the channel.\<close>

definition acquire_range_lock ::
    "time \<Rightarrow> time \<Rightarrow> chan \<Rightarrow> transaction_info \<Rightarrow> loaded_state \<Rightarrow>
      loaded_state \<times> chan list \<times> (error, chan) outcome" where
  "acquire_range_lock now now' ch tx st =
     (let (lt, sent, r) = acquire now now' ch tx (ls_lock_table st)
      in (st\<lparr>ls_lock_table := lt\<rparr>, sent, r))"

section \<open>Prefetch\<close>

text \<open>
  What \<open>prefetch\<close> does once the buffer has answered with the state of the key. For a key that
  has just been requested it reads the storage and reports the value, or the failure, to the
  buffer.
\<close>

definition prefetch_get ::
    "'s storage \<Rightarrow> bytes \<Rightarrow> ('s, 'w) range_manager \<Rightarrow> (error, bytes option) outcome" where
  "prefetch_get so key rm =
     map_err from_storage_error (storage_get so (rm_range_id rm) key (rm_storage rm))"

definition prefetch_enter ::
    "nat \<Rightarrow> uuid \<Rightarrow> bytes \<Rightarrow> ('s, 'w) range_manager \<Rightarrow>
      ('s, 'w) range_manager \<times> (unit, key_state + u64) outcome" where
  "prefetch_enter ch tx key rm =
     (let (pf, r) = process_prefetch_request ch tx key (prefetching_buffer rm)
      in (rm\<lparr>prefetching_buffer := pf\<rparr>, r))"

text \<open>The value read from the storage is \<open>val\<close>: the buffer may have changed since.\<close>

definition prefetch_store_result ::
    "bytes \<Rightarrow> u64 \<Rightarrow> (error, bytes option) outcome \<Rightarrow> ('s, 'w) range_manager \<Rightarrow>
      ('s, 'w) range_manager \<times> watch_send list \<times> (error, unit) outcome" where
  "prefetch_store_result key n val rm =
     (case val of
        Ok v \<Rightarrow>
          (let (pf, sends) = fetch_complete key v n (prefetching_buffer rm)
           in (rm\<lparr>prefetching_buffer := pf\<rparr>, sends, Ok ()))
      | Err _ \<Rightarrow>
          (let (pf, sends) = fetch_failed key n (prefetching_buffer rm)
           in (rm\<lparr>prefetching_buffer := pf\<rparr>, sends, Err PrefetchError))
      | Panic \<Rightarrow> (rm, [], Panic))"

definition prefetch ::
    "'s storage \<Rightarrow> bytes \<Rightarrow> key_state \<Rightarrow> ('s, 'w) range_manager \<Rightarrow>
      ('s, 'w) range_manager \<times> watch_send list \<times> (error, unit) outcome" where
  "prefetch so key keystate rm =
     (case keystate of
        Fetched \<Rightarrow> (rm, [], Ok ())
      | Loading _ \<Rightarrow> (rm, [], Err PrefetchError)
      | Requested n \<Rightarrow> prefetch_store_result key n (prefetch_get so key rm) rm)"

section \<open>Get\<close>

definition get_enter ::
    "time \<Rightarrow> time \<Rightarrow> chan \<Rightarrow> transaction_info \<Rightarrow> bytes \<Rightarrow> ('s, 'w) range_manager \<Rightarrow>
      ('s, 'w) range_manager \<times> chan list \<times> (error, chan) outcome" where
  "get_enter now now' ch tx key rm =
     (case rm_state rm of
        Loaded st \<Rightarrow>
          if \<not> kr_includes (ri_key_range (range_info st)) key then (rm, [], Err KeyIsOutOfRange)
          else
            (let (st, sent, r) = acquire_range_lock now now' ch tx st
             in (rm\<lparr>rm_state := Loaded st\<rparr>, sent, r))
      | _ \<Rightarrow> (rm, [], Err RangeIsNotLoaded))"

text \<open>The committed value: the prefetching buffer first, then the storage.\<close>

definition get_committed ::
    "'s storage \<Rightarrow> bytes \<Rightarrow> ('s, 'w) range_manager \<Rightarrow> (error, bytes option) outcome" where
  "get_committed so key rm =
     try_ok (map_err (\<lambda>_. PrefetchError) (get_from_buffer key (prefetching_buffer rm))) (\<lambda>v.
       case v of
         Some val \<Rightarrow> Ok (Some val)
       | None \<Rightarrow>
           map_err from_storage_error (storage_get so (rm_range_id rm) key (rm_storage rm)))"

text \<open>After the lock has been granted.\<close>

definition get_locked ::
    "'s storage \<Rightarrow> bytes \<Rightarrow> ('s, 'w) range_manager \<Rightarrow> (error, get_result) outcome" where
  "get_locked so key rm =
     (case rm_state rm of
        Loaded st \<Rightarrow>
          (let res = \<lparr>gr_val = None,
                      gr_leader_sequence_number = leader_sequence_number (range_info st),
                      gr_dependencies = []\<rparr>;
               pending = pending_state st;
               committed = try_ok (get_committed so key rm) (\<lambda>v. Ok (res\<lparr>gr_val := v\<rparr>))
           in if cfg_commit_strategy (rm_config rm) \<noteq> Traditional then
                (case pending_commit_table pending key of
                   None \<Rightarrow> committed
                 | Some dependency \<Rightarrow>
                     (case pending_prepare_records pending dependency of
                        None \<Rightarrow> Panic
                      | Some prepare_record \<Rightarrow>
                          (case hm_get (changes prepare_record) key of
                             None \<Rightarrow> Panic
                           | Some val \<Rightarrow>
                               Ok (res\<lparr>gr_dependencies := [dependency], gr_val := val\<rparr>))))
              else committed)
      | _ \<Rightarrow> Panic)"

section \<open>Prepare\<close>

text \<open>The two loops that build the prepare record; a missing field is unwrapped.\<close>

fun record_puts ::
    "key_range \<Rightarrow> (bytes option \<times> bytes option) list \<Rightarrow> changes \<Rightarrow> (error, changes) outcome" where
  "record_puts r [] acc = Ok acc"
| "record_puts r ((None, _) # ps) acc = Panic"
| "record_puts r ((Some key, v) # ps) acc =
     (if \<not> kr_includes r key then Err KeyIsOutOfRange
      else case v of
             None \<Rightarrow> Panic
           | Some val \<Rightarrow> record_puts r ps (hm_insert key (Some val) acc))"

fun record_deletes ::
    "key_range \<Rightarrow> bytes option list \<Rightarrow> changes \<Rightarrow> (error, changes) outcome" where
  "record_deletes r [] acc = Ok acc"
| "record_deletes r (None # ds) acc = Panic"
| "record_deletes r (Some key # ds) acc =
     (if \<not> kr_includes r key then Err KeyIsOutOfRange
      else record_deletes r ds (hm_insert key None acc))"

definition build_prepare_record ::
    "key_range \<Rightarrow> prepare_request \<Rightarrow> (error, prepare_record) outcome" where
  "build_prepare_record r req =
     try_ok (record_puts r (case puts req of None \<Rightarrow> [] | Some ps \<Rightarrow> ps) []) (\<lambda>acc.
     try_ok (record_deletes r (case deletes req of None \<Rightarrow> [] | Some ds \<Rightarrow> ds) acc) (\<lambda>acc.
       Ok \<lparr>changes = acc\<rparr>))"

definition has_writes :: "prepare_request \<Rightarrow> bool" where
  "has_writes req \<longleftrightarrow> \<not> ((case puts req of None \<Rightarrow> [] | Some ps \<Rightarrow> ps) = [] \<and>
                          (case deletes req of None \<Rightarrow> [] | Some ds \<Rightarrow> ds) = [])"

text \<open>
  Up to the lock request: a read-only transaction is answered (\<open>Inl\<close>), one with writes awaits
  the lock (\<open>Inr\<close>, with its record).
\<close>

definition prepare_enter ::
    "(chan \<Rightarrow> bool) \<Rightarrow> time \<Rightarrow> time \<Rightarrow> chan \<Rightarrow> transaction_info \<Rightarrow> prepare_request \<Rightarrow>
      ('s, 'w) range_manager \<Rightarrow>
      ('s, 'w) range_manager \<times> chan list \<times>
      (error, prepare_result + (chan \<times> prepare_record)) outcome" where
  "prepare_enter alive now now' ch tx req rm =
     (case rm_state rm of
        Loaded st \<Rightarrow>
          if \<not> has_writes req then
            (let reply = Inl \<lparr>pr_highest_known_epoch = highest_known_epoch st,
                              pr_epoch_lease = epoch_lease (range_info st),
                              pr_dependencies = [], released_lock_early = False\<rparr>
             in if has_reads req then
                  (if \<not> is_currently_holding [ti_id tx] (ls_lock_table st)
                   then (rm, [], Err (TransactionAborted TransactionLockLost))
                   else
                     (let (lt, sent, r) = release alive now None (ls_lock_table st)
                      in (rm\<lparr>rm_state := Loaded (st\<lparr>ls_lock_table := lt\<rparr>)\<rparr>, sent,
                          try_ok r (\<lambda>_. Ok reply))))
                else (rm, [], Ok reply))
          else
            (case build_prepare_record (ri_key_range (range_info st)) req of
               Panic \<Rightarrow> (rm, [], Panic)
             | Err e \<Rightarrow> (rm, [], Err e)
             | Ok prepare_record \<Rightarrow>
                 if has_reads req \<and> \<not> is_currently_holding [ti_id tx] (ls_lock_table st)
                 then (rm, [], Err (TransactionAborted TransactionLockLost))
                 else
                   (let (st, sent, r) = acquire_range_lock now now' ch tx st
                    in (rm\<lparr>rm_state := Loaded st\<rparr>, sent,
                        try_ok r (\<lambda>c. Ok (Inr (c, prepare_record))))))
      | _ \<Rightarrow> (rm, [], Err RangeIsNotLoaded))"

text \<open>
  The body of the loop over the keys of the record: collect the dependency and enter the
  transaction into, or clear, the pending commit table.
\<close>

definition prepare_key ::
    "uuid \<Rightarrow> bytes \<times> bool \<Rightarrow> (bytes \<rightharpoonup> uuid) \<times> uuid list \<Rightarrow> (bytes \<rightharpoonup> uuid) \<times> uuid list" where
  "prepare_key tx_id ke acc =
     (case ke of (key, early_lock_release) \<Rightarrow> case acc of (table, dependencies) \<Rightarrow>
       (if early_lock_release then table(key \<mapsto> tx_id) else table(key := None),
        case table key of Some d \<Rightarrow> hs_insert d dependencies | None \<Rightarrow> dependencies))"

text \<open>
  After the lock has been granted. The heuristic is evaluated once per key, each time on the
  lock table as it is then (\<open>lts key\<close>); \<open>order\<close> is the iteration order of the hash map with the
  decisions. The result is what the handler returns once the log has been flushed.
\<close>

definition prepare_locked ::
    "'w wal \<Rightarrow> (bytes list \<Rightarrow> bytes list) \<Rightarrow> (bytes \<Rightarrow> lock_table) \<Rightarrow> (chan \<Rightarrow> bool) \<Rightarrow> time \<Rightarrow>
      transaction_info \<Rightarrow> prepare_request \<Rightarrow> prepare_record \<Rightarrow> ('s, 'w) range_manager \<Rightarrow>
      ('s, 'w) range_manager \<times> chan list \<times> (error, prepare_result) outcome" where
  "prepare_locked wo order lts alive now tx req prepare_record rm =
     (case rm_state rm of
        Loaded st \<Rightarrow>
          (let early_lock_release_per_key =
                 map (\<lambda>key. (key, do_early_lock_release (rm_config rm) (lts key)
                                    (resolver_average_load req) (num_open_clients req)))
                   (order (hm_keys (changes prepare_record)));
               pending = pending_state st;
               pending = pending\<lparr>pending_prepare_records :=
                           (pending_prepare_records pending)(ti_id tx \<mapsto> prepare_record)\<rparr>;
               (table, dependencies) =
                 (if cfg_commit_strategy (rm_config rm) \<noteq> Traditional
                  then fold (prepare_key (ti_id tx)) early_lock_release_per_key
                         (pending_commit_table pending, [])
                  else (pending_commit_table pending, []));
               st = st\<lparr>pending_state := pending\<lparr>pending_commit_table := table\<rparr>\<rparr>;
               (w, r) = append_prepare wo req (rm_wal rm);
               rm = rm\<lparr>rm_state := Loaded st, rm_wal := w\<rparr>
           in case map_err from_wal_error r of
                Panic \<Rightarrow> (rm, [], Panic)
              | Err e \<Rightarrow> (rm, [], Err e)
              | Ok _ \<Rightarrow>
                  (let reply = \<lambda>early. \<lparr>pr_highest_known_epoch = 0,
                                 pr_epoch_lease = epoch_lease (range_info st),
                                 pr_dependencies = dependencies, released_lock_early = early\<rparr>
                   in case early_lock_release_per_key of
                        [] \<Rightarrow> (rm, [], Panic)
                      | (_, True) # _ \<Rightarrow>
                          (let (lt, sent, r) = soft_release alive now (ls_lock_table st)
                           in (rm\<lparr>rm_state := Loaded (st\<lparr>ls_lock_table := lt\<rparr>)\<rparr>, sent,
                               try_ok r (\<lambda>_. Ok (reply True))))
                      | (_, False) # _ \<Rightarrow> (rm, [], Ok (reply False))))
      | _ \<Rightarrow> (rm, [], Panic))"

text \<open>
  After the flush: \<open>flushed\<close> is what the receiver of the log delivers, \<open>None\<close> when its sender is
  gone; anything but success is unwrapped.
\<close>

definition await_flush :: "(wal_error, unit) outcome option \<Rightarrow> (error, 'a) outcome \<Rightarrow> (error, 'a) outcome" where
  "await_flush flushed result = (case flushed of Some (Ok _) \<Rightarrow> result | _ \<Rightarrow> Panic)"

section \<open>Abort\<close>

text \<open>\<open>Inl\<close> is returned, \<open>Inr\<close> awaits the flush.\<close>

definition abort_enter ::
    "'w wal \<Rightarrow> transaction_info \<Rightarrow> abort_request \<Rightarrow> ('s, 'w) range_manager \<Rightarrow>
      ('s, 'w) range_manager \<times> (error, unit) outcome + ('s, 'w) range_manager" where
  "abort_enter wo tx req rm =
     (case rm_state rm of
        Loaded st \<Rightarrow>
          if \<not> is_currently_holding [ti_id tx] (ls_lock_table st) then Inl (rm, Ok ())
          else
            (let (w, r) = append_abort wo req (rm_wal rm);
                 rm = rm\<lparr>rm_wal := w\<rparr>
             in case map_err from_wal_error r of
                  Ok _ \<Rightarrow> Inr rm
                | Err e \<Rightarrow> Inl (rm, Err e)
                | Panic \<Rightarrow> Inl (rm, Panic))
      | _ \<Rightarrow> Inl (rm, Err RangeIsNotLoaded))"

definition abort_flushed ::
    "(chan \<Rightarrow> bool) \<Rightarrow> time \<Rightarrow> (wal_error, unit) outcome option \<Rightarrow> ('s, 'w) range_manager \<Rightarrow>
      ('s, 'w) range_manager \<times> chan list \<times> (error, unit) outcome" where
  "abort_flushed alive now flushed rm =
     (case await_flush flushed (Ok ()) of
        Ok _ \<Rightarrow>
          (case rm_state rm of
             Loaded st \<Rightarrow>
               (let (lt, sent, r) = release alive now None (ls_lock_table st)
                in (rm\<lparr>rm_state := Loaded (st\<lparr>ls_lock_table := lt\<rparr>)\<rparr>, sent, r))
           | _ \<Rightarrow> (rm, [], Panic))
      | r \<Rightarrow> (rm, [], r))"

section \<open>Commit\<close>

definition commit_enter ::
    "'w wal \<Rightarrow> commit_request \<Rightarrow> ('s, 'w) range_manager \<Rightarrow>
      ('s, 'w) range_manager \<times> (error, unit) outcome" where
  "commit_enter wo req rm =
     (case rm_state rm of
        Loaded st \<Rightarrow>
          (let (w, r) = append_commit wo req (rm_wal rm)
           in (rm\<lparr>rm_wal := w\<rparr>, map_err from_wal_error r))
      | _ \<Rightarrow> (rm, Err RangeIsNotLoaded))"

text \<open>The prepare records of the transactions, collected under the read lock of the pending state.\<close>

fun commit_collect ::
    "pending_state \<Rightarrow> uuid list \<Rightarrow> (error, (uuid \<times> prepare_record) list) outcome" where
  "commit_collect ps [] = Ok []"
| "commit_collect ps (tx_id # txs) =
     (case pending_prepare_records ps tx_id of
        None \<Rightarrow> Panic
      | Some prepare_record \<Rightarrow>
          try_ok (commit_collect ps txs) (\<lambda>rs. Ok ((tx_id, prepare_record) # rs)))"

text \<open>
  One transaction's turn in the loop that merges the changes: later transactions overwrite
  earlier ones, and the last writer of every key is remembered.
\<close>

definition merge_change ::
    "uuid \<Rightarrow> bytes \<times> bytes option \<Rightarrow> changes \<times> (bytes, uuid) hmap \<Rightarrow> changes \<times> (bytes, uuid) hmap" where
  "merge_change tx_id kv acc =
     (hm_insert (fst kv) (snd kv) (fst acc), hm_insert (fst kv) tx_id (snd acc))"

definition merge_record ::
    "uuid \<times> prepare_record \<Rightarrow> changes \<times> (bytes, uuid) hmap \<Rightarrow> changes \<times> (bytes, uuid) hmap" where
  "merge_record r acc = fold (merge_change (fst r)) (changes (snd r)) acc"

definition merge_changes ::
    "(uuid \<times> prepare_record) list \<Rightarrow> changes \<times> (bytes, uuid) hmap" where
  "merge_changes rs = fold merge_record rs ([], [])"

definition buffer_change :: "bytes \<times> bytes option \<Rightarrow> pf_state \<Rightarrow> pf_state" where
  "buffer_change kv pf =
     (case snd kv of Some val \<Rightarrow> pf_upsert (fst kv) val pf | None \<Rightarrow> fst (pf_delete (fst kv) pf))"

definition commit_store ::
    "'s storage \<Rightarrow> key_version \<Rightarrow> changes \<Rightarrow> ('s, 'w) range_manager \<Rightarrow>
      ('s, 'w) range_manager \<times> (error, unit) outcome" where
  "commit_store so version all_changes rm =
     (if all_changes = [] then (rm, Ok ())
      else
        (let (s, r) = batch_upsert so (rm_range_id rm) all_changes version (rm_storage rm);
             rm = rm\<lparr>rm_storage := s\<rparr>
         in case map_err from_storage_error r of
              Ok _ \<Rightarrow> (rm\<lparr>prefetching_buffer :=
                             fold buffer_change all_changes (prefetching_buffer rm)\<rparr>, Ok ())
            | Err e \<Rightarrow> (rm, Err e)
            | Panic \<Rightarrow> (rm, Panic)))"

definition clear_last :: "bytes \<times> uuid \<Rightarrow> (bytes \<rightharpoonup> uuid) \<Rightarrow> (bytes \<rightharpoonup> uuid)" where
  "clear_last kt table =
     (case table (fst kt) of
        Some last_dependee \<Rightarrow> if snd kt = last_dependee then table(fst kt := None) else table
      | None \<Rightarrow> table)"

definition commit_pending ::
    "commit_strategy \<Rightarrow> uuid list \<Rightarrow> (bytes, uuid) hmap \<Rightarrow> pending_state \<Rightarrow> pending_state" where
  "commit_pending strategy txs last_tx_per_key ps =
     (let ps = (if strategy \<noteq> Traditional
                then ps\<lparr>pending_commit_table := fold clear_last last_tx_per_key (pending_commit_table ps)\<rparr>
                else ps)
      in ps\<lparr>pending_prepare_records :=
              fold (\<lambda>tx_id m. m(tx_id := None)) txs (pending_prepare_records ps)\<rparr>)"

definition commit_unlock ::
    "(chan \<Rightarrow> bool) \<Rightarrow> time \<Rightarrow> uuid list \<Rightarrow> lock_table \<Rightarrow>
      lock_table \<times> chan list \<times> (error, unit) outcome" where
  "commit_unlock alive now txs lt =
     (case get_current_holder_id lt of
        Some holder \<Rightarrow>
          if holder \<in> set txs then
            (let (lt, sent, r) = release alive now None lt
             in case r of
                  Ok _ \<Rightarrow> (clean_soft_released txs lt, sent, Ok ())
                | _ \<Rightarrow> (lt, sent, r))
          else (clean_soft_released txs lt, [], Ok ())
      | None \<Rightarrow> (clean_soft_released txs lt, [], Ok ()))"

text \<open>After the flush, from the collection of the records to the reply.\<close>

definition commit_flushed ::
    "'s storage \<Rightarrow> (chan \<Rightarrow> bool) \<Rightarrow> time \<Rightarrow> uuid list \<Rightarrow> commit_request \<Rightarrow>
      (wal_error, unit) outcome option \<Rightarrow> ('s, 'w) range_manager \<Rightarrow>
      ('s, 'w) range_manager \<times> chan list \<times> (error, unit) outcome" where
  "commit_flushed so alive now txs req flushed rm =
     (case await_flush flushed (Ok ()) of
        Err e \<Rightarrow> (rm, [], Err e)
      | Panic \<Rightarrow> (rm, [], Panic)
      | Ok _ \<Rightarrow>
          (case rm_state rm of
             Loaded st \<Rightarrow>
               (case commit_collect (pending_state st) txs of
                  Err e \<Rightarrow> (rm, [], Err e)
                | Panic \<Rightarrow> (rm, [], Panic)
                | Ok records \<Rightarrow>
                    (let (all_changes, last_tx_per_key) = merge_changes records;
                         version = \<lparr>kv_epoch = creq_epoch req, version_counter = vid req\<rparr>;
                         (rm, r) = commit_store so version all_changes rm
                     in case r of
                          Err e \<Rightarrow> (rm, [], Err e)
                        | Panic \<Rightarrow> (rm, [], Panic)
                        | Ok _ \<Rightarrow>
                            (let ps = commit_pending (cfg_commit_strategy (rm_config rm)) txs
                                        last_tx_per_key (pending_state st);
                                 (lt, sent, r) = commit_unlock alive now txs (ls_lock_table st)
                             in (rm\<lparr>rm_state := Loaded (st\<lparr>pending_state := ps,
                                                              ls_lock_table := lt\<rparr>)\<rparr>,
                                 sent, r))))
           | _ \<Rightarrow> (rm, [], Panic)))"

end
