(* ===== verification/Range_Manager_Correct.thy ===== *)
theory Range_Manager_Correct
  imports Range_Manager
begin

text \<open>
  The properties of the range manager: its life cycle and leases, the early lock release
  decision, the bookkeeping of prepared and early-released transactions, and what a get, a
  prepare, an abort and a commit do to it.
\<close>

section \<open>Folds of the handlers\<close>

lemma prepare_key_apply:
  "prepare_key t (k, b) (tab, deps) =
    (if b then tab(k \<mapsto> t) else tab(k := None),
     case tab k of Some d \<Rightarrow> hs_insert d deps | None \<Rightarrow> deps)"
  by (simp add: prepare_key_def)

lemma prepare_keys_table:
  assumes "distinct (map fst kes)"
  shows "fst (fold (prepare_key t) kes (tab, deps)) k =
    (case map_of kes k of Some True \<Rightarrow> Some t | Some False \<Rightarrow> None | None \<Rightarrow> tab k)"
  using assms
proof (induction kes arbitrary: tab deps)
  case Nil
  then show ?case by simp
next
  case (Cons ke kes)
  obtain k' b where ke: "ke = (k', b)" by fastforce
  have "map_of kes k' = None" using Cons.prems ke by (simp add: map_of_eq_None_iff)
  with Cons show ?case by (auto simp: ke prepare_key_apply split: option.split bool.split)
qed

lemma prepare_keys_deps:
  assumes "distinct (map fst kes)"
  shows "set (snd (fold (prepare_key t) kes (tab, deps))) =
    set deps \<union> {d. \<exists>k \<in> fst ` set kes. tab k = Some d}"
  using assms
proof (induction kes arbitrary: tab deps)
  case Nil
  then show ?case by simp
next
  case (Cons ke kes)
  obtain k' b where ke: "ke = (k', b)" by fastforce
  let ?tab = "if b then tab(k' \<mapsto> t) else tab(k' := None)"
  let ?deps = "case tab k' of Some d \<Rightarrow> hs_insert d deps | None \<Rightarrow> deps"
  have "{d. \<exists>k \<in> fst ` set kes. ?tab k = Some d} = {d. \<exists>k \<in> fst ` set kes. tab k = Some d}"
    using Cons.prems ke by auto
  moreover have "set (snd (fold (prepare_key t) kes (?tab, ?deps))) =
      set ?deps \<union> {d. \<exists>k \<in> fst ` set kes. ?tab k = Some d}"
    using Cons.prems by (intro Cons.IH) simp
  ultimately show ?case by (simp only: ke fold_Cons comp_def prepare_key_apply)
      (auto split: option.splits)
qed

lemma prepare_keys_distinct:
  "distinct deps \<Longrightarrow> distinct (snd (fold (prepare_key t) kes (tab, deps)))"
  by (induction kes arbitrary: tab deps) (auto simp: prepare_key_def split: prod.split option.split)

text \<open>The last record of the list that changes \<open>k\<close>, with the transaction and the new value.\<close>

definition last_write :: "(uuid \<times> prepare_record) list \<Rightarrow> bytes \<Rightarrow> (uuid \<times> bytes option) option" where
  "last_write rs k =
     (case filter (\<lambda>r. hm_get (changes (snd r)) k \<noteq> None) (rev rs) of
        [] \<Rightarrow> None
      | r # _ \<Rightarrow> Some (fst r, the (hm_get (changes (snd r)) k)))"

lemma last_write_snoc:
  "last_write (rs @ [r]) k =
    (case hm_get (changes (snd r)) k of Some v \<Rightarrow> Some (fst r, v) | None \<Rightarrow> last_write rs k)"
  by (auto simp: last_write_def split: option.split)

lemma last_write_mem:
  "last_write rs k = Some (t, v) \<Longrightarrow> \<exists>rec. (t, rec) \<in> set rs \<and> hm_get (changes rec) k = Some v"
proof (induction rs rule: rev_induct)
  case Nil
  then show ?case by (simp add: last_write_def)
next
  case (snoc r rs)
  then show ?case by (cases r) (auto simp: last_write_snoc split: option.splits)
qed

lemma last_write_None:
  "last_write rs k = None \<longleftrightarrow> (\<forall>r \<in> set rs. hm_get (changes (snd r)) k = None)"
  by (induction rs rule: rev_induct)
    (auto simp: last_write_snoc last_write_def split: option.splits)

lemma merge_change_fold:
  assumes "distinct (map fst cs)"
  shows "map_of (fst (fold (merge_change t) cs acc)) = map_of (fst acc) ++ map_of cs"
    and "map_of (snd (fold (merge_change t) cs acc)) =
           (\<lambda>k. if map_of cs k = None then map_of (snd acc) k else Some t)"
  using assms
proof (induction cs arbitrary: acc)
  case (Cons c cs)
  {
    case 1
    then have "map_of cs (fst c) = None" by (simp add: map_of_eq_None_iff)
    with 1 Cons.IH(1) show ?case
      by (auto simp: merge_change_def fun_eq_iff map_add_def split: option.split)
  next
    case 2
    then have "map_of cs (fst c) = None" by (simp add: map_of_eq_None_iff)
    with 2 Cons.IH(2) show ?case
      by (auto simp: merge_change_def fun_eq_iff)
  }
qed auto

lemma merge_changes_last_write:
  assumes "\<forall>r \<in> set rs. distinct (hm_keys (changes (snd r)))"
  shows "map_of (fst (merge_changes rs)) k = map_option snd (last_write rs k)"
    and "map_of (snd (merge_changes rs)) k = map_option fst (last_write rs k)"
  using assms
  by (induction rs rule: rev_induct)
    (auto simp: merge_changes_def merge_record_def merge_change_fold last_write_snoc
      last_write_def [of "[]"] map_add_def split: option.splits)

lemma distinct_merge_change:
  "distinct (hm_keys (fst acc)) \<and> distinct (hm_keys (snd acc)) \<Longrightarrow>
    distinct (hm_keys (fst (fold (merge_change t) cs acc))) \<and>
    distinct (hm_keys (snd (fold (merge_change t) cs acc)))"
  by (induction cs arbitrary: acc) (auto simp: merge_change_def distinct_hm_insert)

lemma distinct_merge_changes:
  "distinct (hm_keys (fst (merge_changes rs))) \<and> distinct (hm_keys (snd (merge_changes rs)))"
  by (induction rs rule: rev_induct)
    (simp_all add: merge_changes_def merge_record_def distinct_merge_change)

lemma clear_last_fold:
  assumes "distinct (map fst kts)"
  shows "fold clear_last kts tab k =
    (if tab k \<noteq> None \<and> map_of kts k = tab k then None else tab k)"
  using assms
proof (induction kts arbitrary: tab)
  case (Cons kt kts)
  then have "map_of kts (fst kt) = None" by (simp add: map_of_eq_None_iff)
  with Cons show ?case by (auto simp: clear_last_def split: option.splits)
qed auto

lemma remove_all: "fold (\<lambda>t m. m(t := None)) ts m = (\<lambda>t. if t \<in> set ts then None else m t)"
  by (induction ts arbitrary: m) auto

lemma commit_collect_Ok:
  "commit_collect ps txs = Ok rs \<longleftrightarrow>
     map fst rs = txs \<and> (\<forall>r \<in> set rs. pending_prepare_records ps (fst r) = Some (snd r))"
  by (induction txs arbitrary: rs) (auto split: option.splits simp: Cons_eq_map_conv)

lemma commit_collect_total:
  "(\<forall>t \<in> set txs. pending_prepare_records ps t \<noteq> None) \<Longrightarrow> \<exists>rs. commit_collect ps txs = Ok rs"
  by (induction txs) (auto split: option.splits)

lemma commit_collect_missing:
  "t \<in> set txs \<Longrightarrow> pending_prepare_records ps t = None \<Longrightarrow> commit_collect ps txs = Panic"
proof (induction txs)
  case (Cons t' txs)
  then show ?case by (cases "commit_collect ps txs") (auto split: option.splits)
qed simp

section \<open>Records\<close>

lemma record_puts_Ok:
  "record_puts r ps acc = Ok acc' \<Longrightarrow> distinct (hm_keys acc) \<Longrightarrow>
    distinct (hm_keys acc') \<and> (acc \<noteq> [] \<or> ps \<noteq> [] \<longrightarrow> acc' \<noteq> []) \<and>
    (\<forall>k \<in> set (hm_keys acc'). kr_includes r k \<or> k \<in> set (hm_keys acc))"
  by (induction r ps acc rule: record_puts.induct)
    (force split: if_splits option.splits simp: distinct_hm_insert)+

lemma record_deletes_Ok:
  "record_deletes r ds acc = Ok acc' \<Longrightarrow> distinct (hm_keys acc) \<Longrightarrow>
    distinct (hm_keys acc') \<and> (acc \<noteq> [] \<or> ds \<noteq> [] \<longrightarrow> acc' \<noteq> []) \<and>
    (\<forall>k \<in> set (hm_keys acc'). kr_includes r k \<or> k \<in> set (hm_keys acc))"
  by (induction r ds acc rule: record_deletes.induct)
    (force split: if_splits simp: distinct_hm_insert)+

lemma build_prepare_record_Ok:
  assumes "build_prepare_record r req = Ok rec"
  shows "distinct (hm_keys (changes rec))" and "has_writes req \<Longrightarrow> changes rec \<noteq> []"
    and "\<forall>k \<in> set (hm_keys (changes rec)). kr_includes r k"
proof -
  obtain acc where "record_puts r (case puts req of None \<Rightarrow> [] | Some ps \<Rightarrow> ps) [] = Ok acc"
    and "record_deletes r (case deletes req of None \<Rightarrow> [] | Some ds \<Rightarrow> ds) acc = Ok (changes rec)"
    using assms by (auto simp: build_prepare_record_def)
  from record_puts_Ok [OF this(1)] record_deletes_Ok [OF this(2)]
  show "distinct (hm_keys (changes rec))" and "has_writes req \<Longrightarrow> changes rec \<noteq> []"
    and "\<forall>k \<in> set (hm_keys (changes rec)). kr_includes r k"
    unfolding has_writes_def by fastforce+
qed

section \<open>The bookkeeping invariant\<close>

text \<open>
  Every entry of the pending commit table names a transaction whose prepare record is still
  there and changes the key.
\<close>

definition writes_key :: "pending_state \<Rightarrow> bytes \<Rightarrow> uuid \<Rightarrow> bool" where
  "writes_key ps k t \<longleftrightarrow>
     (case pending_prepare_records ps t of
        None \<Rightarrow> False
      | Some rec \<Rightarrow> hm_get (changes rec) k \<noteq> None)"

definition pending_ok :: "pending_state \<Rightarrow> bool" where
  "pending_ok ps \<longleftrightarrow>
     (\<forall>t rec. pending_prepare_records ps t = Some rec \<longrightarrow> distinct (hm_keys (changes rec))) \<and>
     (\<forall>k t. pending_commit_table ps k = Some t \<longrightarrow> writes_key ps k t)"

definition rm_inv :: "('s, 'w) range_manager \<Rightarrow> bool" where
  "rm_inv rm \<longleftrightarrow>
     (case rm_state rm of
        Loaded st \<Rightarrow>
          lock_inv (ls_lock_table st) \<and> pending_ok (pending_state st) \<and>
          (cfg_commit_strategy (rm_config rm) = Traditional \<longrightarrow>
             pending_commit_table (pending_state st) = Map.empty)
      | _ \<Rightarrow> True)"

text \<open>
  The commits of a list are in order when every transaction has been prepared and no transaction
  of the list changes a key after the one that the pending commit table names for it.
\<close>

definition last_writer :: "pending_state \<Rightarrow> uuid list \<Rightarrow> bytes \<Rightarrow> uuid option" where
  "last_writer ps txs k = (case filter (writes_key ps k) (rev txs) of [] \<Rightarrow> None | t # _ \<Rightarrow> Some t)"

definition commit_in_order :: "pending_state \<Rightarrow> uuid list \<Rightarrow> bool" where
  "commit_in_order ps txs \<longleftrightarrow>
     (\<forall>t \<in> set txs. pending_prepare_records ps t \<noteq> None) \<and>
     (\<forall>k t. pending_commit_table ps k = Some t \<and> t \<in> set txs \<longrightarrow> last_writer ps txs k = Some t)"

lemma last_write_last_writer:
  assumes "commit_collect ps txs = Ok rs"
  shows "map_option fst (last_write rs k) = last_writer ps txs k"
proof -
  have rs: "\<forall>r \<in> set rs. writes_key ps k (fst r) \<longleftrightarrow> hm_get (changes (snd r)) k \<noteq> None"
    and txs: "txs = map fst rs"
    using assms by (auto simp: commit_collect_Ok writes_key_def)
  have "filter (writes_key ps k) (rev txs) =
      map fst (filter (\<lambda>r. hm_get (changes (snd r)) k \<noteq> None) (rev rs))"
    using rs unfolding txs rev_map filter_map comp_def by (metis (mono_tags, lifting) filter_cong set_rev)
  then show ?thesis by (simp add: last_writer_def last_write_def split: list.split)
qed

lemma collected_distinct:
  "pending_ok ps \<Longrightarrow> commit_collect ps txs = Ok rs \<Longrightarrow>
     \<forall>r \<in> set rs. distinct (hm_keys (changes (snd r)))"
  by (auto simp: pending_ok_def commit_collect_Ok)

lemma commit_pending_table:
  assumes "pending_ok ps" and "commit_collect ps txs = Ok rs" and "strategy \<noteq> Traditional"
  shows "pending_commit_table (commit_pending strategy txs (snd (merge_changes rs)) ps) k =
    (if pending_commit_table ps k \<noteq> None \<and> last_writer ps txs k = pending_commit_table ps k then None
     else pending_commit_table ps k)"
  using assms(3) merge_changes_last_write(2) [OF collected_distinct [OF assms(1,2)], of k]
  by (simp add: commit_pending_def clear_last_fold distinct_merge_changes
      last_write_last_writer [OF assms(2)])

lemma commit_pending_records:
  "pending_prepare_records (commit_pending strategy txs lasts ps) =
    (\<lambda>t. if t \<in> set txs then None else pending_prepare_records ps t)"
  by (cases "strategy = Traditional") (simp_all add: commit_pending_def remove_all Let_def fun_eq_iff)

lemma commit_pending_Traditional:
  "pending_commit_table (commit_pending Traditional txs lasts ps) = pending_commit_table ps"
  by (simp add: commit_pending_def Let_def)

lemma commit_pending_ok:
  assumes "pending_ok ps" and "commit_in_order ps txs" and "commit_collect ps txs = Ok rs"
    and "strategy = Traditional \<Longrightarrow> pending_commit_table ps = Map.empty"
  shows "pending_ok (commit_pending strategy txs (snd (merge_changes rs)) ps)"
proof (cases "strategy = Traditional")
  case True
  then show ?thesis
    using assms(1,4) by (auto simp: pending_ok_def commit_pending_def remove_all split: if_splits)
next
  case False
  show ?thesis
    unfolding pending_ok_def
  proof (intro conjI allI impI)
    fix t rec
    assume "pending_prepare_records (commit_pending strategy txs (snd (merge_changes rs)) ps) t = Some rec"
    then show "distinct (hm_keys (changes rec))"
      using assms(1) by (auto simp: pending_ok_def commit_pending_records split: if_splits)
  next
    fix k t
    assume "pending_commit_table (commit_pending strategy txs (snd (merge_changes rs)) ps) k = Some t"
    then have t: "pending_commit_table ps k = Some t" "last_writer ps txs k \<noteq> Some t"
      using commit_pending_table [OF assms(1,3) False, of k] by (auto split: if_splits)
    then have "t \<notin> set txs" using assms(2) by (auto simp: commit_in_order_def)
    with t assms(1) show "writes_key (commit_pending strategy txs (snd (merge_changes rs)) ps) k t"
      by (auto simp: pending_ok_def writes_key_def commit_pending_records)
  qed
qed

text \<open>A transaction that has no record yet enters its record and its keys.\<close>

lemma prepare_pending_ok:
  assumes "pending_ok ps" and "pending_prepare_records ps t = None"
    and "distinct (hm_keys (changes rec))" and "distinct (map fst kes)"
    and "set (map fst kes) \<subseteq> set (hm_keys (changes rec))"
    and records: "pending_prepare_records ps' = (pending_prepare_records ps)(t \<mapsto> rec)"
    and table: "pending_commit_table ps' = fst (fold (prepare_key t) kes (pending_commit_table ps, []))"
  shows "pending_ok ps'"
  unfolding pending_ok_def
proof (intro conjI allI impI)
  fix t' rec'
  assume "pending_prepare_records ps' t' = Some rec'"
  then show "distinct (hm_keys (changes rec'))"
    using assms(1,3) by (auto simp: records pending_ok_def split: if_splits)
next
  fix k t'
  assume k: "pending_commit_table ps' k = Some t'"
  have eq: "pending_commit_table ps' k =
      (case map_of kes k of Some True \<Rightarrow> Some t | Some False \<Rightarrow> None
       | None \<Rightarrow> pending_commit_table ps k)"
    unfolding table by (rule prepare_keys_table [OF assms(4)])
  show "writes_key ps' k t'"
  proof (cases "map_of kes k")
    case None
    with k eq assms(1) have "writes_key ps k t'" by (simp add: pending_ok_def)
    with assms(2) show ?thesis by (auto simp: writes_key_def records split: option.splits)
  next
    case (Some b)
    with k eq have "t' = t" by (cases b) auto
    from Some have "k \<in> set (map fst kes)" by (metis map_of_eq_None_iff option.distinct(1) set_map)
    then have "k \<in> set (hm_keys (changes rec))" using assms(5) by blast
    then have "map_of (changes rec) k \<noteq> None" by (simp add: map_of_eq_None_iff)
    with \<open>t' = t\<close> show ?thesis by (simp add: writes_key_def records)
  qed
qed

section \<open>Reachable range managers\<close>

lemma acquire_lock_inv: "lock_inv lt \<Longrightarrow> lock_inv (fst (acquire now now' ch tx lt))"
  using range_lock.inv_acq [of lt "(now, now', ch, tx)"] by (simp add: acquired_def)

lemma release_lock_inv: "lock_inv lt \<Longrightarrow> lock_inv (fst (release (\<lambda>_. True) now mark lt))"
  using range_lock.inv_rel [of lt "(now, mark)"] by (simp add: released_def)

lemma release_alive_Ok: "snd (snd (release (\<lambda>_. True) now mark lt)) = Ok ()"
  by (simp add: release_alive)

lemma commit_unlock_inv: "lock_inv lt \<Longrightarrow> lock_inv (fst (commit_unlock (\<lambda>_. True) now txs lt))"
  using release_lock_inv [of lt now None] release_alive_Ok [of now None lt]
  by (auto simp: commit_unlock_def split_beta clean_soft_released_def lock_inv_def
      split: option.split)

lemma rm_inv_Loaded:
  "rm_state rm = Loaded st \<Longrightarrow> rm_inv rm \<longleftrightarrow>
     lock_inv (ls_lock_table st) \<and> pending_ok (pending_state st) \<and>
     (cfg_commit_strategy (rm_config rm) = Traditional \<longrightarrow>
        pending_commit_table (pending_state st) = Map.empty)"
  by (simp add: rm_inv_def)

lemma get_enter_inv: "rm_inv rm \<Longrightarrow> rm_inv (fst (get_enter now now' ch tx key rm))"
  by (auto simp: get_enter_def acquire_range_lock_def rm_inv_def split_beta acquire_lock_inv
      split: rm_state.splits)

lemma prepare_enter_inv:
  "rm_inv rm \<Longrightarrow> rm_inv (fst (prepare_enter (\<lambda>_. True) now now' ch tx req rm))"
  by (auto simp: prepare_enter_def acquire_range_lock_def rm_inv_def split_beta Let_def
      acquire_lock_inv release_lock_inv split: rm_state.splits outcome.split)

lemma abort_inv:
  "rm_inv rm \<Longrightarrow> abort_enter wo tx req rm = Inr rm' \<Longrightarrow> rm_inv rm'"
  "rm_inv rm \<Longrightarrow> abort_enter wo tx req rm = Inl (rm', r) \<Longrightarrow> rm_inv rm'"
  "rm_inv rm \<Longrightarrow> rm_inv (fst (abort_flushed (\<lambda>_. True) now flushed rm))"
  by (auto simp: abort_enter_def abort_flushed_def rm_inv_def split_beta Let_def release_lock_inv
      split: rm_state.splits outcome.splits if_splits)

lemma commit_enter_inv: "rm_inv rm \<Longrightarrow> rm_inv (fst (commit_enter wo req rm))"
  by (auto simp: commit_enter_def rm_inv_def split_beta split: rm_state.splits)

lemma commit_store_frame:
  "rm_state (fst (commit_store so v cs rm)) = rm_state rm"
  "rm_config (fst (commit_store so v cs rm)) = rm_config rm"
  "rm_range_id (fst (commit_store so v cs rm)) = rm_range_id rm"
  by (auto simp: commit_store_def split_beta Let_def split: outcome.split)

text \<open>A commit that gets past the flush, without its error branches.\<close>

lemma commit_flushed_eq:
  assumes "rm_state rm = Loaded st" and "commit_collect (pending_state st) txs = Ok rs"
    and "snd (commit_store so \<lparr>kv_epoch = creq_epoch req, version_counter = vid req\<rparr>
           (fst (merge_changes rs)) rm) = Ok ()"
  shows "commit_flushed so alive now txs req (Some (Ok ())) rm =
    ((fst (commit_store so \<lparr>kv_epoch = creq_epoch req, version_counter = vid req\<rparr>
        (fst (merge_changes rs)) rm))
       \<lparr>rm_state := Loaded (st
          \<lparr>pending_state := commit_pending (cfg_commit_strategy (rm_config rm)) txs
             (snd (merge_changes rs)) (pending_state st),
           ls_lock_table := fst (commit_unlock alive now txs (ls_lock_table st))\<rparr>)\<rparr>,
     fst (snd (commit_unlock alive now txs (ls_lock_table st))),
     snd (snd (commit_unlock alive now txs (ls_lock_table st))))"
  using assms by (simp add: commit_flushed_def await_flush_def split_beta commit_store_frame Let_def)

lemma commit_inv:
  assumes "rm_inv rm" and "rm_state rm = Loaded st" and "commit_in_order (pending_state st) txs"
  shows "rm_inv (fst (commit_flushed so (\<lambda>_. True) now txs req flushed rm))"
proof -
  obtain rs where rs: "commit_collect (pending_state st) txs = Ok rs"
    using commit_collect_total assms(3) unfolding commit_in_order_def by blast
  let ?store = "commit_store so \<lparr>kv_epoch = creq_epoch req, version_counter = vid req\<rparr>
    (fst (merge_changes rs)) rm"
  have inv: "lock_inv (ls_lock_table st)" "pending_ok (pending_state st)"
    "cfg_commit_strategy (rm_config rm) = Traditional \<Longrightarrow> pending_commit_table (pending_state st) = Map.empty"
    using assms(1) by (auto simp: rm_inv_Loaded [OF assms(2)])
  show ?thesis
  proof (cases "flushed = Some (Ok ()) \<and> snd ?store = Ok ()")
    case True
    then show ?thesis
      using commit_flushed_eq [OF assms(2) rs] commit_unlock_inv [OF inv(1)]
        commit_pending_ok [OF inv(2) assms(3) rs inv(3)] inv(3)
      by (auto simp: rm_inv_def commit_store_frame commit_pending_Traditional)
  next
    case False
    then have "rm_state (fst (commit_flushed so (\<lambda>_. True) now txs req flushed rm)) = rm_state rm \<and>
        rm_config (fst (commit_flushed so (\<lambda>_. True) now txs req flushed rm)) = rm_config rm"
      using assms(2) rs
      by (auto simp: commit_flushed_def await_flush_def split_beta commit_store_frame Let_def
          split: option.split outcome.split)
    with assms(1,2) show ?thesis by (simp add: rm_inv_def)
  qed
qed

text \<open>The decisions of a prepare, and the pending state it leaves.\<close>

definition decisions ::
    "rm_config \<Rightarrow> (bytes list \<Rightarrow> bytes list) \<Rightarrow> (bytes \<Rightarrow> lock_table) \<Rightarrow> prepare_request \<Rightarrow>
      prepare_record \<Rightarrow> (bytes \<times> bool) list" where
  "decisions cfg order lts req rec =
     map (\<lambda>key. (key, do_early_lock_release cfg (lts key) (resolver_average_load req)
                        (num_open_clients req)))
       (order (hm_keys (changes rec)))"

lemma decisions_keys [simp]: "map fst (decisions cfg order lts req rec) = order (hm_keys (changes rec))"
  by (simp add: decisions_def comp_def)

lemma map_of_decisions:
  "map_of (decisions cfg order lts req rec) k =
    (if k \<in> set (order (hm_keys (changes rec)))
     then Some (do_early_lock_release cfg (lts k) (resolver_average_load req) (num_open_clients req))
     else None)"
  by (simp add: decisions_def map_of_map_restrict restrict_map_def)

lemma hm_get_in_keys: "hm_get m k = Some v \<Longrightarrow> k \<in> set (hm_keys m)"
  by (metis map_of_eq_None_iff option.distinct(1) set_map)

definition prepared :: "commit_strategy \<Rightarrow> uuid \<Rightarrow> prepare_record \<Rightarrow> (bytes \<times> bool) list \<Rightarrow>
    pending_state \<Rightarrow> pending_state \<times> uuid list" where
  "prepared strategy t rec kes ps =
     (if strategy = Traditional
      then (ps\<lparr>pending_prepare_records := (pending_prepare_records ps)(t \<mapsto> rec)\<rparr>, [])
      else (ps\<lparr>pending_prepare_records := (pending_prepare_records ps)(t \<mapsto> rec),
               pending_commit_table := fst (fold (prepare_key t) kes (pending_commit_table ps, []))\<rparr>,
            snd (fold (prepare_key t) kes (pending_commit_table ps, []))))"

lemma prepare_locked_eq:
  assumes "rm_state rm = Loaded st"
    and "decisions (rm_config rm) order lts req rec = kes"
    and "prepared (cfg_commit_strategy (rm_config rm)) (ti_id tx) rec kes (pending_state st) = (ps, deps)"
    and "append_prepare wo req (rm_wal rm) = (w, r)"
  shows "prepare_locked wo order lts alive now tx req rec rm =
    (let rm' = rm\<lparr>rm_state := Loaded (st\<lparr>pending_state := ps\<rparr>), rm_wal := w\<rparr>;
         reply = \<lambda>early. \<lparr>pr_highest_known_epoch = 0, pr_epoch_lease = epoch_lease (range_info st),
                          pr_dependencies = deps, released_lock_early = early\<rparr>
     in case map_err from_wal_error r of
          Panic \<Rightarrow> (rm', [], Panic)
        | Err e \<Rightarrow> (rm', [], Err e)
        | Ok _ \<Rightarrow>
            (case kes of
               [] \<Rightarrow> (rm', [], Panic)
             | (_, b) # _ \<Rightarrow>
                 if b then
                   (rm'\<lparr>rm_state := Loaded (st\<lparr>pending_state := ps,
                       ls_lock_table := fst (soft_release alive now (ls_lock_table st))\<rparr>)\<rparr>,
                    fst (snd (soft_release alive now (ls_lock_table st))),
                    try_ok (snd (snd (soft_release alive now (ls_lock_table st))))
                      (\<lambda>_. Ok (reply True)))
                 else (rm', [], Ok (reply False))))"
proof -
  have kes: "map (\<lambda>key. (key, do_early_lock_release (rm_config rm) (lts key)
      (resolver_average_load req) (num_open_clients req))) (order (hm_keys (changes rec))) = kes"
    using assms(2) by (simp add: decisions_def)
  show ?thesis
    using assms(1,3,4)
    unfolding prepare_locked_def assms(1) rm_state.case Let_def kes
    by (cases "cfg_commit_strategy (rm_config rm) = Traditional")
      (auto simp: prepared_def split_beta split: outcome.split list.split bool.split)
qed

lemma prepared_ok:
  assumes "pending_ok ps" and "pending_prepare_records ps t = None"
    and "distinct (hm_keys (changes rec))" and "set (order (hm_keys (changes rec))) = set (hm_keys (changes rec))"
    and "distinct (order (hm_keys (changes rec)))"
  shows "pending_ok (fst (prepared strategy t rec (decisions cfg order lts req rec) ps))"
proof (cases "strategy = Traditional")
  case True
  then show ?thesis
    by (intro prepare_pending_ok [OF assms(1-3), where kes = "[]"]) (simp_all add: prepared_def)
next
  case False
  then show ?thesis
    using assms
    by (intro prepare_pending_ok [OF assms(1-3), where kes = "decisions cfg order lts req rec"])
      (auto simp: prepared_def decisions_def comp_def)
qed

lemma prepare_locked_inv:
  assumes "rm_inv rm" and "rm_state rm = Loaded st"
    and "pending_prepare_records (pending_state st) (ti_id tx) = None"
    and "distinct (hm_keys (changes rec))" and "mset (order (hm_keys (changes rec))) = mset (hm_keys (changes rec))"
  shows "rm_inv (fst (prepare_locked wo order lts (\<lambda>_. True) now tx req rec rm))"
proof -
  let ?kes = "decisions (rm_config rm) order lts req rec"
  obtain ps deps where ps: "prepared (cfg_commit_strategy (rm_config rm)) (ti_id tx) rec ?kes
      (pending_state st) = (ps, deps)" by fastforce
  obtain w r where w: "append_prepare wo req (rm_wal rm) = (w, r)" by fastforce
  have ord: "set (order (hm_keys (changes rec))) = set (hm_keys (changes rec))"
    "distinct (order (hm_keys (changes rec)))"
    using assms(4,5) mset_eq_setD mset_eq_imp_distinct_iff by blast+
  have inv: "lock_inv (ls_lock_table st)" "pending_ok (pending_state st)"
    "cfg_commit_strategy (rm_config rm) = Traditional \<longrightarrow> pending_commit_table (pending_state st) = Map.empty"
    using assms(1) by (auto simp: rm_inv_Loaded [OF assms(2)])
  have "pending_ok ps"
    using prepared_ok [where order = order and strategy = "cfg_commit_strategy (rm_config rm)"
        and cfg = "rm_config rm" and lts = lts and req = req, OF inv(2) assms(3,4) ord] ps
    by simp
  moreover have "cfg_commit_strategy (rm_config rm) = Traditional \<longrightarrow> pending_commit_table ps = Map.empty"
    using inv(3) ps by (auto simp: prepared_def)
  moreover have "lock_inv (fst (soft_release (\<lambda>_. True) now (ls_lock_table st)))"
    using release_lock_inv [OF inv(1)] by (simp add: soft_release_def)
  ultimately show ?thesis
    using inv(1) unfolding prepare_locked_eq [OF assms(2) refl ps w] Let_def
    by (auto simp: rm_inv_def split: outcome.split list.split)
qed

text \<open>
  One step per part of a handler. A transaction prepares once, with a record built from its
  request and the lock in its hands; commits arrive in order; nobody abandons a channel.
\<close>

inductive rm_step ::
    "'s storage \<Rightarrow> 'w wal \<Rightarrow> ('s, 'w) range_manager \<Rightarrow> ('s, 'w) range_manager \<Rightarrow> bool"
  for so :: "'s storage" and wo :: "'w wal" where
  Load_Enter: "rm_step so wo rm (fst (load_enter ch rm))"
| Load_Inner: "rm_step so wo rm (fst (load_inner so wo rm))"
| Load_Finish: "snd (load_inner so wo rm0) = r \<Longrightarrow> rm_step so wo rm (fst (load_finish n r rm))"
| Unload: "rm_step so wo rm (unload rm)"
| Renew: "renew_lease_read n (rm0 :: ('s, 'w) range_manager) = Inr (old, asked, lsn) \<Longrightarrow>
    rm_step so wo rm (fst (renew_lease_write old asked rm))"
| Prefetch: "rm_step so wo rm (rm\<lparr>prefetching_buffer := pf\<rparr>)"
| Get_Enter: "rm_step so wo rm (fst (get_enter now now' ch tx key rm))"
| Prepare_Enter: "rm_step so wo rm (fst (prepare_enter (\<lambda>_. True) now now' ch tx req rm))"
| Prepare_Locked: "\<lbrakk>rm_state rm = Loaded st; is_currently_holding [ti_id tx] (ls_lock_table st);
    pending_prepare_records (pending_state st) (ti_id tx) = None;
    build_prepare_record (ri_key_range (range_info st)) req = Ok rec;
    mset (order (hm_keys (changes rec))) = mset (hm_keys (changes rec))\<rbrakk> \<Longrightarrow>
    rm_step so wo rm (fst (prepare_locked wo order lts (\<lambda>_. True) now tx req rec rm))"
| Abort_Enter: "abort_enter wo tx req rm = Inr rm' \<Longrightarrow> rm_step so wo rm rm'"
| Abort_Error: "abort_enter wo tx req rm = Inl (rm', r) \<Longrightarrow> rm_step so wo rm rm'"
| Abort_Flushed: "rm_step so wo rm (fst (abort_flushed (\<lambda>_. True) now flushed rm))"
| Commit_Enter: "rm_step so wo rm (fst (commit_enter wo creq rm))"
| Commit_Flushed: "\<lbrakk>rm_state rm = Loaded st; commit_in_order (pending_state st) txs\<rbrakk> \<Longrightarrow>
    rm_step so wo rm (fst (commit_flushed so (\<lambda>_. True) now txs creq flushed rm))"

lemma load_inner_frame:
  "rm_state (fst (load_inner so wo rm)) = rm_state rm \<and>
   rm_config (fst (load_inner so wo rm)) = rm_config rm"
  by (auto simp: load_inner_def split_beta Let_def split: option.split outcome.split)

lemma load_inner_fresh:
  assumes "snd (load_inner so wo rm) = Ok st"
  shows "ls_lock_table st = lock_table_new \<and>
    pending_state st = \<lparr>pending_prepare_records = Map.empty, pending_commit_table = Map.empty\<rparr>"
  using assms
  by (auto simp: load_inner_def split_beta Let_def split: option.splits outcome.splits)

lemma load_finish_inv:
  assumes "rm_inv rm" and "snd (load_inner so wo rm0) = r"
  shows "rm_inv (fst (load_finish n r rm))"
proof (cases r)
  case (Ok st)
  with assms load_inner_fresh [of so wo rm0] show ?thesis
    by (simp add: load_finish_def rm_inv_def lock_inv_def lock_table_new_def pending_ok_def)
qed (use assms(1) in \<open>simp_all add: load_finish_def rm_inv_def\<close>)

lemma rm_step_inv: "rm_step so wo rm rm' \<Longrightarrow> rm_inv rm \<Longrightarrow> rm_inv rm'"
proof (induction rule: rm_step.induct)
  case (Load_Enter rm ch)
  then show ?case by (auto simp: load_enter_def rm_inv_def split: rm_state.split)
next
  case (Load_Inner rm)
  then show ?case using load_inner_frame [of so wo rm] by (auto simp: rm_inv_def split: rm_state.splits)
next
  case (Load_Finish rm0 r rm n)
  then show ?case by (blast intro: load_finish_inv)
next
  case (Renew n rm0 old asked lsn rm)
  then show ?case by (auto simp: renew_lease_write_def rm_inv_def Let_def split: rm_state.splits)
next
  case (Prepare_Locked rm st tx req rec order lts now)
  then show ?case by (blast intro: prepare_locked_inv build_prepare_record_Ok(1))
next
  case (Unload rm)
  show ?case by (simp add: unload_def rm_inv_def)
next
  case (Prefetch rm pf)
  then show ?case by (simp add: rm_inv_def split: rm_state.splits)
next
  case (Abort_Enter tx req rm rm')
  then show ?case using abort_inv(1) by blast
next
  case (Abort_Error tx req rm rm' r)
  then show ?case using abort_inv(2) by blast
next
  case (Commit_Flushed rm st txs now creq flushed)
  then show ?case using commit_inv by blast
qed (rule get_enter_inv prepare_enter_inv abort_inv(3) commit_enter_inv; assumption)+

lemma rm_reachable_inv: "(rm_step so wo)\<^sup>*\<^sup>* (rm_new rid cfg s w) rm \<Longrightarrow> rm_inv rm"
proof (induction rule: rtranclp_induct)
  case base
  show ?case by (simp add: rm_new_def rm_inv_def)
next
  case (step rm rm')
  then show ?case by (blast intro: rm_step_inv)
qed

section \<open>Properties\<close>

text \<open>A storage that keeps one map and a log that accepts everything, for the examples below.\<close>

definition wit_so :: "(bytes \<rightharpoonup> bytes) storage" where
  "wit_so = \<lparr>take_ownership_and_load_range =
       (\<lambda>_ s. (s, Ok \<lparr>ri_id = 7, ri_key_range = key_range_all, leader_sequence_number = 3,
                      epoch_lease = (0, 4)\<rparr>)),
     renew_epoch_lease = (\<lambda>_ _ _ s. (s, Ok ())),
     batch_upsert = (\<lambda>_ cs _ s. (\<lambda>k. case map_of cs k of Some v \<Rightarrow> v | None \<Rightarrow> s k, Ok ())),
     storage_get = (\<lambda>_ k s. Ok (s k))\<rparr>"

definition wit_wo :: "nat wal" where
  "wit_wo = \<lparr>wal_sync = (\<lambda>w. (w, Ok ())), append_prepare = (\<lambda>_ w. (Suc w, Ok ())),
     append_commit = (\<lambda>_ w. (Suc w, Ok ())), append_abort = (\<lambda>_ w. (Suc w, Ok ()))\<rparr>"

definition wit_cfg :: rm_config where
  "wit_cfg = \<lparr>cfg_commit_strategy = Pipelined, cfg_heuristic = OpenClients,
     epoch_duration = 10000000\<rparr>"

definition wit_loaded :: loaded_state where
  "wit_loaded = \<lparr>range_info = \<lparr>ri_id = 7, ri_key_range = key_range_all, leader_sequence_number = 3,
       epoch_lease = (5, 205)\<rparr>,
     highest_known_epoch = 1, ls_lock_table = acquired (1, 1, 7, wit_tx 10) lock_table_new,
     pending_state = \<lparr>pending_prepare_records = Map.empty, pending_commit_table = Map.empty\<rparr>\<rparr>"

definition wit_rm :: "(bytes \<rightharpoonup> bytes, nat) range_manager" where
  "wit_rm = \<lparr>rm_range_id = \<lparr>keyspace_id = 1, range_id = 7\<rparr>, rm_config = wit_cfg,
     rm_storage = Map.empty, rm_wal = 0, rm_state = Loaded wit_loaded, prefetching_buffer = pf_new\<rparr>"

definition wit_req :: prepare_request where
  "wit_req = \<lparr>preq_request_id = None, preq_transaction_id = None, preq_range_id = None,
     has_reads = True, puts = Some [(Some [97], Some [1])], deletes = None,
     resolver_average_load = Fin 0, num_open_clients = 1\<rparr>"

definition wit_creq :: commit_request where
  "wit_creq = \<lparr>creq_request_id = None, creq_transaction_ids = None, creq_range_id = None,
     creq_epoch = 6, vid = 1\<rparr>"

lemmas wit_rm_defs = wit_so_def wit_wo_def wit_cfg_def wit_loaded_def wit_rm_def wit_req_def
  wit_creq_def wit_tx_def acquired_def acquire_def lock_table_new_def

definition wit_rec :: prepare_record where
  "wit_rec = \<lparr>changes = [([97], Some [1])]\<rparr>"

text \<open>\<open>wit_rm\<close> after the prepare of transaction 10, which writes the key \<open>[97]\<close>.\<close>

definition wit_prepared :: "(bytes \<rightharpoonup> bytes, nat) range_manager" where
  "wit_prepared =
     fst (prepare_locked wit_wo rev (\<lambda>_. lock_table_new) (\<lambda>_. True) 2 (wit_tx 10) wit_req wit_rec wit_rm)"

lemma wit_build: "build_prepare_record key_range_all wit_req = Ok wit_rec"
  by (simp add: build_prepare_record_def wit_req_def wit_rec_def)

lemma wit_pending:
  "\<exists>st. rm_state wit_prepared = Loaded st \<and>
     pending_state st = \<lparr>pending_prepare_records = [10 \<mapsto> wit_rec], pending_commit_table = [[97] \<mapsto> 10]\<rparr> \<and>
     current_holder (ls_lock_table st) = None"
  by (simp add: wit_prepared_def wit_rm_defs wit_rec_def prepare_locked_def do_early_lock_release_def
      prepare_key_apply soft_release_def release_def get_current_holder_id_def)

lemma wit_rm_reachable:
  "(rm_step wit_so wit_wo)\<^sup>*\<^sup>* (rm_new \<lparr>keyspace_id = 1, range_id = 7\<rparr> wit_cfg Map.empty 0) wit_rm"
proof -
  let ?a = "rm_new \<lparr>keyspace_id = 1, range_id = 7\<rparr> wit_cfg Map.empty 0"
  let ?b = "fst (load_enter 0 ?a)"
  let ?c = "fst (load_finish 0 (snd (load_inner wit_so wit_wo ?b)) ?b)"
  have "rm_step wit_so wit_wo ?a ?b" by (rule rm_step.Load_Enter)
  moreover have "rm_step wit_so wit_wo ?b ?c" by (rule rm_step.Load_Finish [OF refl])
  moreover have "rm_step wit_so wit_wo ?c (fst (get_enter 1 1 7 (wit_tx 10) [97] ?c))"
    by (rule rm_step.Get_Enter)
  moreover have "fst (get_enter 1 1 7 (wit_tx 10) [97] ?c) = wit_rm"
    by (simp add: wit_rm_defs rm_new_def load_enter_def load_inner_def load_finish_def
        get_enter_def acquire_range_lock_def num_epochs_per_lease_def new_lease_def max_def)
  ultimately show ?thesis
    by (metis (no_types, lifting) converse_rtranclp_into_rtranclp rtranclp.rtrancl_refl)
qed

lemma wit_prepared_reachable:
  "(rm_step wit_so wit_wo)\<^sup>*\<^sup>* (rm_new \<lparr>keyspace_id = 1, range_id = 7\<rparr> wit_cfg Map.empty 0) wit_prepared"
proof -
  have "rm_step wit_so wit_wo wit_rm wit_prepared"
    unfolding wit_prepared_def
    by (rule rm_step.Prepare_Locked [where st = wit_loaded])
      (use wit_build in \<open>simp_all add: wit_rm_defs is_currently_holding_def\<close>)
  with wit_rm_reachable show ?thesis by (rule rtranclp.rtrancl_into_rtrancl)
qed

text \<open>
  C1: Reads of early-released values never fall off the table. In every state the range manager
  can reach when commits arrive in dependency order, each entry of the pending commit table
  names a transaction whose prepare record is present and changes that key; without early lock
  release the table is empty. Hence the two panics of \<open>get\<close> and the panic of \<open>commit\<close> on a
  missing prepare record cannot happen, for any key and for any list of commits in order.
\<close>

theorem pending_bookkeeping:
  assumes "(rm_step so wo)\<^sup>*\<^sup>* (rm_new rid cfg s w) rm" and "rm_state rm = Loaded st"
    and get: "\<And>r k s'. storage_get so r k s' \<noteq> Panic"
    and ups: "\<And>r cs v s'. snd (batch_upsert so r cs v s') \<noteq> Panic"
  shows "(\<forall>k t. pending_commit_table (pending_state st) k = Some t \<longrightarrow> writes_key (pending_state st) k t) \<and>
    (\<forall>key. get_locked so key rm \<noteq> Panic) \<and>
    (\<forall>txs now req. commit_in_order (pending_state st) txs \<longrightarrow>
       snd (snd (commit_flushed so (\<lambda>_. True) now txs req (Some (Ok ())) rm)) \<noteq> Panic)"
proof (intro conjI allI impI)
  have inv: "pending_ok (pending_state st)"
    using rm_reachable_inv [OF assms(1)] by (simp add: rm_inv_Loaded [OF assms(2)])
  show w: "writes_key (pending_state st) k t" if "pending_commit_table (pending_state st) k = Some t" for k t
    using inv that by (simp add: pending_ok_def)
  have committed: "get_committed so key rm \<noteq> Panic" for key
    using get by (auto simp: get_committed_def get_from_buffer_def split: option.split)
      (metis map_err.simps outcome.exhaust outcome.distinct(3,5))
  show "get_locked so key rm \<noteq> Panic" for key
    using w [of key] committed [of key]
    by (cases "get_committed so key rm")
      (auto simp: get_locked_def assms(2) Let_def writes_key_def split: option.split)
  fix txs now req
  assume ord: "commit_in_order (pending_state st) txs"
  then obtain rs where rs: "commit_collect (pending_state st) txs = Ok rs"
    using commit_collect_total unfolding commit_in_order_def by blast
  have "snd (commit_store so v cs rm) \<noteq> Panic" for v cs
    using ups by (auto simp: commit_store_def split_beta Let_def split: outcome.split)
      (metis map_err.simps outcome.exhaust outcome.distinct(3,5))
  moreover have "snd (snd (commit_unlock (\<lambda>_. True) now txs lt)) = Ok ()" for lt
    by (auto simp: commit_unlock_def split_beta release_alive_Ok split: option.split)
  ultimately show "snd (snd (commit_flushed so (\<lambda>_. True) now txs req (Some (Ok ())) rm)) \<noteq> Panic"
    by (auto simp: commit_flushed_def await_flush_def assms(2) rs split_beta Let_def
        split: outcome.split)
qed

theorem pending_bookkeeping_witness:
  "\<exists>st. rm_state wit_prepared = Loaded st \<and> writes_key (pending_state st) [97] 10 \<and>
     get_locked wit_so [97] wit_prepared \<noteq> Panic"
proof -
  obtain st where st: "rm_state wit_prepared = Loaded st"
    "pending_state st = \<lparr>pending_prepare_records = [10 \<mapsto> wit_rec], pending_commit_table = [[97] \<mapsto> 10]\<rparr>"
    using wit_pending by blast
  then show ?thesis
    using pending_bookkeeping [OF wit_prepared_reachable st(1)] by (simp add: wit_so_def)
qed

text \<open>
  C11: An early-released write is visible to the next transaction, together with the dependency it
  creates. When a pipelined prepare gets past the log, it passes the lock on to the next waiter,
  and from then on a get of each key it wrote (deletes included) returns the pending value and
  exactly this transaction as its dependency.
\<close>

theorem early_release_read:
  assumes "rm_state rm = Loaded st" and "cfg_commit_strategy (rm_config rm) = Pipelined"
    and "distinct (hm_keys (changes rec))" and "changes rec \<noteq> []"
    and "mset (order (hm_keys (changes rec))) = mset (hm_keys (changes rec))"
    and "append_prepare wo req (rm_wal rm) = (w, Ok ())" and "lock_inv (ls_lock_table st)"
    and "prepare_locked wo order lts (\<lambda>_. True) now tx req rec rm = (rm', sent, r)"
  shows "(\<exists>res. r = Ok res \<and> released_lock_early res) \<and>
    (\<exists>st'. rm_state rm' = Loaded st' \<and>
       lock_queue (ls_lock_table st') = tl (lock_queue (ls_lock_table st))) \<and>
    (\<forall>key v. hm_get (changes rec) key = Some v \<longrightarrow>
       get_locked so key rm' =
         Ok \<lparr>gr_val = v, gr_leader_sequence_number = leader_sequence_number (range_info st),
             gr_dependencies = [ti_id tx]\<rparr>)"
proof -
  let ?kes = "decisions (rm_config rm) order lts req rec"
  have ord: "set (order (hm_keys (changes rec))) = set (hm_keys (changes rec))"
    "distinct (order (hm_keys (changes rec)))" "order (hm_keys (changes rec)) \<noteq> []"
    using assms(3-5) mset_eq_setD mset_eq_imp_distinct_iff by fastforce+
  have kes: "distinct (map fst ?kes)" using ord(2) by simp
  obtain ps deps where ps: "prepared (cfg_commit_strategy (rm_config rm)) (ti_id tx) rec ?kes
      (pending_state st) = (ps, deps)" by fastforce
  then have recs: "pending_prepare_records ps (ti_id tx) = Some rec"
    and "pending_commit_table ps =
      fst (fold (prepare_key (ti_id tx)) ?kes (pending_commit_table (pending_state st), []))"
    using assms(2) by (auto simp: prepared_def)
  then have tab: "pending_commit_table ps key = Some (ti_id tx)"
    if "hm_get (changes rec) key = Some v" for key v
    using ord(1) hm_get_in_keys [OF that] assms(2)
    by (simp add: prepare_keys_table [OF kes] map_of_decisions do_early_lock_release_def)
  obtain k xs where "order (hm_keys (changes rec)) = k # xs"
    using ord(3) by (cases "order (hm_keys (changes rec))") auto
  then obtain kes' where cons: "?kes = (k, True) # kes'"
    using assms(2) by (simp add: decisions_def do_early_lock_release_def)
  have rel: "snd (snd (soft_release (\<lambda>_. True) now (ls_lock_table st))) = Ok ()"
    by (simp add: soft_release_def release_alive_Ok)
  have queue: "lock_queue (fst (soft_release (\<lambda>_. True) now (ls_lock_table st))) =
      tl (lock_queue (ls_lock_table st))"
    using range_lock.queue_rel [OF assms(7), of "(now, Some True)"]
    by (simp add: released_def soft_release_def)
  have rm': "rm' = rm\<lparr>rm_state := Loaded (st\<lparr>pending_state := ps,
      ls_lock_table := fst (soft_release (\<lambda>_. True) now (ls_lock_table st))\<rparr>), rm_wal := w\<rparr>"
    and "\<exists>res. r = Ok res \<and> released_lock_early res"
    using assms(8) unfolding prepare_locked_eq [OF assms(1) refl ps assms(6)] Let_def cons
    by (auto simp: rel)
  then show ?thesis
    using tab recs queue assms(2) by (simp add: get_locked_def Let_def)
qed

theorem early_release_read_witness:
  "get_locked wit_so [97] wit_prepared =
     Ok \<lparr>gr_val = Some [1], gr_leader_sequence_number = 3, gr_dependencies = [10]\<rparr>"
proof -
  have "lock_inv (ls_lock_table wit_loaded)" by (simp add: wit_rm_defs lock_inv_def)
  then show ?thesis
    using early_release_read [of wit_rm wit_loaded wit_rec rev wit_wo wit_req "Suc 0"
        "\<lambda>_. lock_table_new" 2 "wit_tx 10" wit_prepared _ _ wit_so]
    by (simp add: wit_prepared_def wit_rec_def wit_rm_def wit_cfg_def wit_wo_def wit_loaded_def
        wit_tx_def prod_eq_iff)
qed

lemma prepare_locked_deps:
  assumes "rm_state rm = Loaded st" and "distinct (hm_keys (changes rec))"
    and "mset (order (hm_keys (changes rec))) = mset (hm_keys (changes rec))"
    and "prepare_locked wo order lts alive now tx req rec rm = (rm', sent, Ok res)"
  shows "distinct (pr_dependencies res) \<and>
    set (pr_dependencies res) =
      (if cfg_commit_strategy (rm_config rm) = Traditional then {}
       else {d. \<exists>k \<in> set (hm_keys (changes rec)). pending_commit_table (pending_state st) k = Some d})"
proof -
  let ?kes = "decisions (rm_config rm) order lts req rec"
  have ord: "set (order (hm_keys (changes rec))) = set (hm_keys (changes rec))"
    "distinct (order (hm_keys (changes rec)))"
    using assms(2,3) mset_eq_setD mset_eq_imp_distinct_iff by blast+
  obtain ps deps where ps: "prepared (cfg_commit_strategy (rm_config rm)) (ti_id tx) rec ?kes
      (pending_state st) = (ps, deps)" by fastforce
  obtain w r where w: "append_prepare wo req (rm_wal rm) = (w, r)" by fastforce
  have "pr_dependencies res = deps"
    using assms(4) unfolding prepare_locked_eq [OF assms(1) refl ps w] Let_def
    by (auto split: outcome.splits list.splits if_splits)
  moreover have "fst ` set ?kes = set (hm_keys (changes rec))"
    using ord(1) by (metis decisions_keys set_map)
  ultimately show ?thesis
    using ps prepare_keys_deps [of ?kes "ti_id tx" "pending_commit_table (pending_state st)" "[]"]
      prepare_keys_distinct [of "[]" "ti_id tx" ?kes "pending_commit_table (pending_state st)"] ord(2)
    by (auto simp: prepared_def split: if_splits)
qed

text \<open>
  A prepare reports exactly its write-write dependencies: the transactions the pending commit
  table named for its keys beforehand, each once, and none at all in the traditional mode. This
  holds whatever the per-key decisions and the iteration order of the hash map are.
\<close>

theorem prepare_dependencies_exact:
  assumes "rm_state rm = Loaded st" and "distinct (hm_keys (changes rec))"
    and "mset (order (hm_keys (changes rec))) = mset (hm_keys (changes rec))"
    and "prepare_locked wo order lts alive now tx req rec rm = (rm', sent, Ok res)"
  shows "distinct (pr_dependencies res) \<and>
    set (pr_dependencies res) =
      (if cfg_commit_strategy (rm_config rm) = Traditional then {}
       else {d. \<exists>k \<in> set (hm_keys (changes rec)). pending_commit_table (pending_state st) k = Some d})"
  using assms by (rule prepare_locked_deps)

text \<open>Transaction 11 overwrites the key after transaction 10 has released the lock early.\<close>

definition wit_second :: "(bytes \<rightharpoonup> bytes, nat) range_manager \<times> chan list \<times> (error, prepare_result) outcome" where
  "wit_second = prepare_locked wit_wo rev (\<lambda>_. lock_table_new) (\<lambda>_. True) 3 (wit_tx 11) wit_req
     \<lparr>changes = [([97], None)]\<rparr> wit_prepared"

theorem prepare_dependencies_exact_witness:
  "\<exists>res. snd (snd wit_second) = Ok res \<and> set (pr_dependencies res) = {10}"
proof -
  obtain st where st: "rm_state wit_prepared = Loaded st"
    "pending_state st = \<lparr>pending_prepare_records = [10 \<mapsto> wit_rec], pending_commit_table = [[97] \<mapsto> 10]\<rparr>"
    using wit_pending by blast
  obtain res where ok: "snd (snd wit_second) = Ok res"
    by (simp add: wit_second_def wit_prepared_def wit_rm_defs wit_rec_def prepare_locked_def
        do_early_lock_release_def prepare_key_apply soft_release_def release_def get_current_holder_id_def)
  then have res: "wit_second = (fst wit_second, fst (snd wit_second), Ok res)"
    by (metis prod.collapse)
  have cfg: "cfg_commit_strategy (rm_config wit_prepared) = Pipelined"
    by (simp add: wit_prepared_def wit_rm_defs wit_rec_def prepare_locked_def
        do_early_lock_release_def prepare_key_apply soft_release_def release_def get_current_holder_id_def)
  show ?thesis
    using prepare_dependencies_exact [OF st(1), of "\<lparr>changes = [([97], None)]\<rparr>" rev, OF _ _
        res [unfolded wit_second_def]] st(2) cfg by (intro exI [of _ res]) (simp add: ok)
qed

lemma buffer_changes_store:
  assumes "distinct (map fst cs)"
  shows "prefetch_store (fold buffer_change cs pf) k =
    (case map_of cs k of
       Some (Some v) \<Rightarrow> Some v
     | Some None \<Rightarrow> if pf_key_state pf k = None then prefetch_store pf k else None
     | None \<Rightarrow> prefetch_store pf k)"
  using assms
proof (induction cs arbitrary: pf)
  case (Cons c cs)
  then have none: "map_of cs (fst c) = None" by (simp add: map_of_eq_None_iff)
  have state: "pf_key_state (buffer_change c pf) k = None \<longleftrightarrow> pf_key_state pf k = None"
    by (auto simp: buffer_change_def pf_upsert_def pf_delete_def Let_def
        split: option.split key_state.split)
  show ?case
  proof (cases "k = fst c")
    case True
    with Cons.IH Cons.prems none show ?thesis
      by (cases "snd c") (auto simp: buffer_change_def pf_upsert_def pf_delete_def Let_def
          split: option.split key_state.split)
  next
    case False
    then have "prefetch_store (buffer_change c pf) k = prefetch_store pf k"
      by (auto simp: buffer_change_def pf_upsert_def pf_delete_def Let_def
          split: option.split key_state.split)
    with Cons.IH Cons.prems False state show ?thesis
      by (cases c) (auto split: option.split)
  qed
qed simp

lemma commit_unlock_queue:
  assumes "lock_inv lt"
  shows "lock_queue (fst (commit_unlock (\<lambda>_. True) now txs lt)) =
    (if \<exists>t \<in> set txs. is_currently_holding [t] lt then tl (lock_queue lt) else lock_queue lt)"
  using range_lock.queue_rel [OF assms, of "(now, None)"] release_alive_Ok [of now None lt]
  by (auto simp: commit_unlock_def split_beta clean_soft_released_def lock_queue_def released_def
      get_current_holder_id_def is_currently_holding_def split: option.splits)

text \<open>
  C10: What a successful commit does under a strategy other than \<open>Traditional\<close>. The storage receives, in one batch, for every key the value
  of the last transaction of the list that changes it, and nothing else; the prefetching buffer
  then answers with that value for every key written; the prepare records of exactly the
  committed transactions are gone; an entry of the pending commit table is cleared iff it names
  the last committed writer of its key; and the lock goes to the next waiter iff a committed
  transaction held it.
\<close>

theorem commit_effect:
  assumes "rm_inv rm" and "rm_state rm = Loaded st" and "commit_collect (pending_state st) txs = Ok rs"
    and "cfg_commit_strategy (rm_config rm) \<noteq> Traditional"
    and "commit_flushed so (\<lambda>_. True) now txs req (Some (Ok ())) rm = (rm', sent, Ok ())"
  shows "\<exists>st' cs. rm_state rm' = Loaded st' \<and>
    (\<forall>k. map_of cs k = map_option snd (last_write rs k)) \<and>
    rm_storage rm' = (if cs = [] then rm_storage rm else
      fst (batch_upsert so (rm_range_id rm) cs
             \<lparr>kv_epoch = creq_epoch req, version_counter = vid req\<rparr> (rm_storage rm))) \<and>
    (\<forall>k t v. last_write rs k = Some (t, Some v) \<longrightarrow> get_committed so k rm' = Ok (Some v)) \<and>
    (\<forall>t. pending_prepare_records (pending_state st') t =
       (if t \<in> set txs then None else pending_prepare_records (pending_state st) t)) \<and>
    (\<forall>k. pending_commit_table (pending_state st') k =
       (if pending_commit_table (pending_state st) k = last_writer (pending_state st) txs k then None
        else pending_commit_table (pending_state st) k)) \<and>
    lock_queue (ls_lock_table st') =
      (if \<exists>t \<in> set txs. is_currently_holding [t] (ls_lock_table st)
       then tl (lock_queue (ls_lock_table st)) else lock_queue (ls_lock_table st))"
proof -
  let ?v = "\<lparr>kv_epoch = creq_epoch req, version_counter = vid req\<rparr>"
  let ?cs = "fst (merge_changes rs)"
  have inv: "lock_inv (ls_lock_table st)" "pending_ok (pending_state st)"
    using assms(1) by (auto simp: rm_inv_Loaded [OF assms(2)])
  note lw = merge_changes_last_write(1) [OF collected_distinct [OF inv(2) assms(3)]]
  have ok: "snd (commit_store so ?v ?cs rm) = Ok ()"
    using assms(5) by (auto simp: commit_flushed_def await_flush_def assms(2,3) split_beta Let_def
        split: outcome.splits)
  note eq = commit_flushed_eq [OF assms(2,3) ok, of "\<lambda>_. True" now]
  have storage: "rm_storage (fst (commit_store so ?v ?cs rm)) =
      (if ?cs = [] then rm_storage rm else fst (batch_upsert so (rm_range_id rm) ?cs ?v (rm_storage rm)))"
    by (auto simp: commit_store_def split_beta Let_def split: outcome.split)
  have "prefetching_buffer (fst (commit_store so ?v ?cs rm)) = fold buffer_change ?cs (prefetching_buffer rm)"
    using ok by (auto simp: commit_store_def split_beta Let_def split: outcome.splits if_splits)
  then have buffer: "get_committed so k (fst (commit_store so ?v ?cs rm)\<lparr>rm_state := x\<rparr>) = Ok (Some v)"
    if "last_write rs k = Some (t, Some v)" for k t v x
    using that lw [of k] distinct_merge_changes [of rs]
    by (simp add: get_committed_def get_from_buffer_def buffer_changes_store)
  show ?thesis
    using assms(5) eq lw storage buffer commit_pending_table [OF inv(2) assms(3,4)]
      commit_unlock_queue [OF inv(1), of now txs]
    by (intro exI [of _ "st\<lparr>pending_state := commit_pending (cfg_commit_strategy (rm_config rm)) txs
          (snd (merge_changes rs)) (pending_state st),
        ls_lock_table := fst (commit_unlock (\<lambda>_. True) now txs (ls_lock_table st))\<rparr>"] exI [of _ ?cs])
      (auto simp: commit_pending_records)
qed

definition wit_commit ::
    "(bytes \<rightharpoonup> bytes, nat) range_manager \<times> chan list \<times> (error, unit) outcome" where
  "wit_commit = commit_flushed wit_so (\<lambda>_. True) 4 [10] wit_creq (Some (Ok ())) wit_prepared"

lemma wit_prepared_simps:
  "cfg_commit_strategy (rm_config wit_prepared) = Pipelined"
  "snd (snd wit_commit) = Ok ()"
  by (simp_all add: wit_commit_def wit_prepared_def wit_rm_defs wit_rec_def prepare_locked_def
      do_early_lock_release_def prepare_key_apply soft_release_def release_def
      get_current_holder_id_def commit_flushed_def await_flush_def merge_changes_def
      merge_record_def merge_change_def commit_store_def commit_unlock_def Let_def)

theorem commit_effect_witness:
  "get_committed wit_so [97] (fst wit_commit) = Ok (Some [1]) \<and>
   (\<exists>st. rm_state (fst wit_commit) = Loaded st \<and>
      pending_prepare_records (pending_state st) 10 = None \<and>
      pending_commit_table (pending_state st) [97] = None)"
proof -
  obtain st where st: "rm_state wit_prepared = Loaded st"
    "pending_state st = \<lparr>pending_prepare_records = [10 \<mapsto> wit_rec], pending_commit_table = [[97] \<mapsto> 10]\<rparr>"
    using wit_pending by blast
  have rs: "commit_collect (pending_state st) [10] = Ok [(10, wit_rec)]"
    by (simp add: st(2))
  have c: "wit_commit = (fst wit_commit, fst (snd wit_commit), Ok ())"
    using wit_prepared_simps(2) by (metis prod.collapse)
  have "last_write [(10, wit_rec)] [97] = Some (10, Some [1])"
    "last_writer (pending_state st) [10] [97] = Some 10"
    by (simp_all add: last_write_def last_writer_def writes_key_def wit_rec_def st(2))
  then show ?thesis
    using commit_effect [OF rm_reachable_inv [OF wit_prepared_reachable] st(1) rs _
        c [unfolded wit_commit_def], folded wit_commit_def] wit_prepared_simps(1)
    by (auto simp: st(2))
qed

text \<open>
  An unloaded range manager refuses every request: \<open>load\<close>, \<open>get\<close>, \<open>prepare\<close>, \<open>abort\<close> and
  \<open>commit\<close> fail with \<open>RangeIsNotLoaded\<close> and change nothing, neither storage nor log.
\<close>

theorem unloaded_refuses:
  assumes "is_unloaded rm"
  shows "load_enter ch rm = (rm, Load_Return (Err RangeIsNotLoaded)) \<and>
    get_enter now now' ch tx key rm = (rm, [], Err RangeIsNotLoaded) \<and>
    prepare_enter alive now now' ch tx req rm = (rm, [], Err RangeIsNotLoaded) \<and>
    abort_enter wo tx areq rm = Inl (rm, Err RangeIsNotLoaded) \<and>
    commit_enter wo creq rm = (rm, Err RangeIsNotLoaded)"
  using assms
  by (simp add: is_unloaded_def load_enter_def get_enter_def prepare_enter_def abort_enter_def
      commit_enter_def split: rm_state.splits)

theorem unloaded_refuses_witness:
  "get_enter 1 1 7 (wit_tx 10) [97] (unload wit_rm) = (unload wit_rm, [], Err RangeIsNotLoaded)"
  using unloaded_refuses [of "unload wit_rm"] by (simp add: unload_def is_unloaded_def)

text \<open>
  An unload that arrives while the range is being loaded is lost: the loader overwrites the
  unloaded state when it succeeds, so a range manager that has been unloaded is loaded again.
\<close>

theorem unload_during_load_lost:
  "is_unloaded (unload rm) \<and>
   load_finish n (Ok st) (unload rm) = (rm\<lparr>rm_state := Loaded st\<rparr>, Ok ()) \<and>
   \<not> is_unloaded (fst (load_finish n (Ok st) (unload rm)))"
  by (simp add: unload_def is_unloaded_def load_finish_def)

text \<open>
  A range is loaded with a fresh lease. If loading succeeds, the lease starts after the end of
  the lease found in the storage and not before epoch 1, covers the configured number of epochs
  (at least one, at most two seconds worth), is the one the storage was asked to record, and the
  range starts with a free lock and no pending transaction. (The last epoch plus one lease must
  fit into 64 bits.)
\<close>

theorem load_takes_fresh_lease:
  assumes "load_inner so wo rm = (rm', Ok st)"
    and "take_ownership_and_load_range so (rm_range_id rm) (rm_storage rm) = (s, Ok info)"
    and "unat (snd (epoch_lease info)) + 2000000001 < 2 ^ 64"
  shows "\<exists>n. num_epochs_per_lease (rm_config rm) = Some n \<and> 1 \<le> unat n \<and> unat n \<le> 2000000000 \<and>
    snd (epoch_lease info) < fst (epoch_lease (range_info st)) \<and>
    1 \<le> fst (epoch_lease (range_info st)) \<and>
    unat (snd (epoch_lease (range_info st))) = unat (fst (epoch_lease (range_info st))) + unat n \<and>
    rm_storage rm' = fst (renew_epoch_lease so (rm_range_id rm) (epoch_lease (range_info st))
      (leader_sequence_number info) s) \<and>
    ri_key_range (range_info st) = ri_key_range info \<and>
    lock_queue (ls_lock_table st) = [] \<and> pending_commit_table (pending_state st) = Map.empty"
proof -
  obtain n where n: "num_epochs_per_lease (rm_config rm) = Some n"
    using assms(1) by (auto simp: load_inner_def split: option.splits)
  let ?e = "epoch_duration (rm_config rm)"
  have e: "?e \<noteq> 0" "n = max 1 (of_nat (2000000000 div ?e))"
    using n by (auto simp: num_epochs_per_lease_def split: if_splits)
  have q: "2000000000 div ?e \<le> 2000000000" by (rule div_le_dividend)
  then have "unat (of_nat (2000000000 div ?e) :: u64) = 2000000000 div ?e"
    unfolding unat_of_nat by (intro mod_less le_less_trans [OF q]) simp
  then have n_bounds: "1 \<le> unat n" "unat n \<le> 2000000000"
    using q by (auto simp: e(2) max_def word_le_nat_alt)
  have succ: "unat (snd (epoch_lease info) + 1) = unat (snd (epoch_lease info)) + 1"
    using assms(3) unat_plus_nat [of "snd (epoch_lease info)" 1] by simp
  let ?lo = "max 1 (snd (epoch_lease info) + 1)"
  have lo: "unat ?lo = unat (snd (epoch_lease info)) + 1"
    using succ by (auto simp: max_def word_le_nat_alt)
  have hi: "unat (?lo + n) = unat ?lo + unat n"
    using assms(3) lo n_bounds by (intro unat_plus_nat) simp
  show ?thesis
    using assms(1,2) n n_bounds lo hi
    by (auto simp: load_inner_def new_lease_def Let_def split_beta word_less_nat_alt word_le_nat_alt
        lock_queue_def lock_table_new_def split: outcome.splits)
qed

theorem load_takes_fresh_lease_witness:
  "\<exists>st. snd (load_inner wit_so wit_wo wit_rm) = Ok st \<and> 4 < fst (epoch_lease (range_info st))"
proof -
  obtain st where st: "snd (load_inner wit_so wit_wo wit_rm) = Ok st"
    by (simp add: load_inner_def wit_rm_defs num_epochs_per_lease_def)
  then have "load_inner wit_so wit_wo wit_rm = (fst (load_inner wit_so wit_wo wit_rm), Ok st)"
    by (metis prod.collapse)
  moreover have "take_ownership_and_load_range wit_so (rm_range_id wit_rm) (rm_storage wit_rm) =
      (Map.empty, Ok \<lparr>ri_id = 7, ri_key_range = key_range_all, leader_sequence_number = 3,
                     epoch_lease = (0, 4)\<rparr>)"
    by (simp add: wit_so_def wit_rm_def)
  ultimately show ?thesis using st load_takes_fresh_lease by fastforce
qed

text \<open>The adaptive decision for a contention \<open>c\<close>, with the thresholds of a heuristic.\<close>

definition adaptive :: "rat \<Rightarrow> rat \<Rightarrow> f64 \<Rightarrow> rat \<Rightarrow> bool" where
  "adaptive a b load c =
     (if f64_le (Fin 5000) load then False
      else if f64_le (Fin 200) load \<and> f64_lt load (Fin 5000) then a < c
      else if f64_le (Fin 50) load \<and> f64_lt load (Fin 200) then b < c
      else True)"

lemma adaptive_mono:
  assumes "adaptive a b load c" and "f64_le load' load" and "c \<le> c'" and "b \<le> a"
  shows "adaptive a b load' c'"
  using assms by (cases load; cases load') (auto simp: adaptive_def split: if_splits simp del: f64_lt.simps)

lemma do_early_lock_release_adaptive:
  "cfg_commit_strategy cfg = Adaptive \<Longrightarrow> do_early_lock_release cfg lt load clients =
    (case cfg_heuristic cfg of
       OpenClients \<Rightarrow> adaptive 100 50 load (of_nat (unat clients))
     | LockContention \<Rightarrow>
         adaptive 40 20 load (of_nat (length (waiting_to_acquire lt) + card (soft_released lt))))"
  by (auto simp: do_early_lock_release_def adaptive_def get_num_waiters_and_pending_def
      f64_of_nat_def Let_def split: heuristic.split simp del: of_nat_add)

text \<open>
  The early lock release decision. The traditional mode never releases early, the pipelined
  mode always does. In the adaptive mode the decision is monotone: more open clients and a longer
  lock queue never turn a release into a refusal, a more loaded resolver never turns a refusal
  into a release, and from a load of 5000 on the resolver is always avoided.
\<close>

theorem early_release_decision:
  assumes "unat clients \<le> unat clients'" and "f64_le load' load"
    and "length (waiting_to_acquire lt) + card (soft_released lt)
         \<le> length (waiting_to_acquire lt') + card (soft_released lt')"
  shows "(cfg_commit_strategy cfg = Traditional \<longrightarrow> \<not> do_early_lock_release cfg lt load clients) \<and>
    (cfg_commit_strategy cfg = Pipelined \<longrightarrow> do_early_lock_release cfg lt load clients) \<and>
    (do_early_lock_release cfg lt load clients \<longrightarrow> do_early_lock_release cfg lt' load' clients') \<and>
    (cfg_commit_strategy cfg = Adaptive \<and> f64_le (Fin 5000) load \<longrightarrow>
       \<not> do_early_lock_release cfg lt load clients)"
proof (cases "cfg_commit_strategy cfg")
  case Adaptive
  have "(of_nat (unat clients) :: rat) \<le> of_nat (unat clients')"
    "(of_nat (length (waiting_to_acquire lt) + card (soft_released lt)) :: rat)
       \<le> of_nat (length (waiting_to_acquire lt') + card (soft_released lt'))"
    using assms(1,3) of_nat_le_iff by blast+
  then show ?thesis
    using Adaptive adaptive_mono [OF _ assms(2)]
    by (cases "cfg_heuristic cfg")
      (auto simp: do_early_lock_release_adaptive adaptive_def [of _ _ load] simp del: of_nat_add)
qed (simp_all add: do_early_lock_release_def)

theorem early_release_decision_witness:
  "do_early_lock_release \<lparr>cfg_commit_strategy = Adaptive, cfg_heuristic = OpenClients,
     epoch_duration = 1\<rparr> lock_table_new (Fin 100) 70"
  using early_release_decision [of 60 70 "Fin 100" "Fin 150" lock_table_new lock_table_new
      "\<lparr>cfg_commit_strategy = Adaptive, cfg_heuristic = OpenClients, epoch_duration = 1\<rparr>"]
  by (simp add: do_early_lock_release_def f64_of_nat_def)

text \<open>
  A lost reply to a commit cannot be retried. Once a commit has succeeded, committing any of
  its transactions again panics on the missing prepare record, for every list that contains it.
\<close>

theorem commit_not_idempotent:
  assumes "commit_flushed so alive now txs req (Some (Ok ())) rm = (rm', sent, Ok ())"
    and "t \<in> set txs" and "t \<in> set txs'"
  shows "commit_flushed so alive' now' txs' req' (Some (Ok ())) rm' = (rm', [], Panic)"
proof -
  obtain st where st: "rm_state rm = Loaded st"
    using assms(1) by (auto simp: commit_flushed_def await_flush_def split: rm_state.splits)
  obtain rs where rs: "commit_collect (pending_state st) txs = Ok rs"
    and ok: "snd (commit_store so \<lparr>kv_epoch = creq_epoch req, version_counter = vid req\<rparr>
           (fst (merge_changes rs)) rm) = Ok ()"
    using assms(1) by (auto simp: commit_flushed_def await_flush_def st split_beta Let_def
        split: outcome.splits)
  let ?ps = "commit_pending (cfg_commit_strategy (rm_config rm)) txs (snd (merge_changes rs)) (pending_state st)"
  have "commit_collect ?ps txs' = Panic"
    by (rule commit_collect_missing [OF assms(3)]) (simp add: commit_pending_records assms(2))
  moreover have "\<exists>lt. rm_state rm' = Loaded (st\<lparr>pending_state := ?ps, ls_lock_table := lt\<rparr>)"
    using assms(1) commit_flushed_eq [OF st rs ok, of alive now] by auto
  ultimately show ?thesis by (auto simp: commit_flushed_def await_flush_def)
qed

theorem commit_not_idempotent_witness:
  "snd (snd (commit_flushed wit_so (\<lambda>_. True) 5 [10] wit_creq (Some (Ok ())) (fst wit_commit))) = Panic"
proof -
  have "wit_commit = (fst wit_commit, fst (snd wit_commit), Ok ())"
    using wit_prepared_simps(2) by (metis prod.collapse)
  from commit_not_idempotent [OF this [unfolded wit_commit_def], of 10 "[10]"]
  show ?thesis by (simp add: wit_commit_def)
qed

text \<open>
  A repeated prepare depends on itself. If a pipelined transaction has prepared and its
  request is processed a second time, the second reply lists the transaction itself among its
  own dependencies.
\<close>

theorem prepare_again_self_dependency:
  assumes "rm_state rm = Loaded st" and "cfg_commit_strategy (rm_config rm) \<noteq> Traditional"
    and "distinct (hm_keys (changes rec))"
    and "mset (order (hm_keys (changes rec))) = mset (hm_keys (changes rec))"
    and "key \<in> set (hm_keys (changes rec))"
    and "pending_commit_table (pending_state st) key = Some (ti_id tx)"
    and "prepare_locked wo order lts alive now tx req rec rm = (rm', sent, Ok res)"
  shows "ti_id tx \<in> set (pr_dependencies res)"
  using prepare_locked_deps [OF assms(1,3,4,7)] assms(2,5,6) by auto

theorem prepare_again_self_dependency_witness:
  "\<exists>res. snd (snd (prepare_locked wit_wo rev (\<lambda>_. lock_table_new) (\<lambda>_. True) 3 (wit_tx 10) wit_req
     wit_rec wit_prepared)) = Ok res \<and> 10 \<in> set (pr_dependencies res)"
proof -
  let ?p = "prepare_locked wit_wo rev (\<lambda>_. lock_table_new) (\<lambda>_. True) 3 (wit_tx 10) wit_req wit_rec
    wit_prepared"
  obtain st where st: "rm_state wit_prepared = Loaded st"
    "pending_state st = \<lparr>pending_prepare_records = [10 \<mapsto> wit_rec], pending_commit_table = [[97] \<mapsto> 10]\<rparr>"
    using wit_pending by blast
  obtain res where ok: "snd (snd ?p) = Ok res"
    by (simp add: wit_prepared_def wit_rm_defs wit_rec_def prepare_locked_def
        do_early_lock_release_def prepare_key_apply soft_release_def release_def get_current_holder_id_def)
  then have "?p = (fst ?p, fst (snd ?p), Ok res)" by (metis prod.collapse)
  from prepare_again_self_dependency [OF st(1) _ _ _ _ _ this, of "[97]"]
  show ?thesis using ok st(2) wit_prepared_simps(1) by (simp add: wit_rec_def wit_tx_def)
qed

text \<open>
  Aborting a transaction that has released its lock early undoes nothing. The abort succeeds
  without touching the range, and a later get of a key the aborted transaction had written still
  returns its value, with the aborted transaction as a dependency.
\<close>

theorem abort_keeps_early_released:
  assumes "rm_state rm = Loaded st" and "cfg_commit_strategy (rm_config rm) \<noteq> Traditional"
    and "\<not> is_currently_holding [ti_id tx] (ls_lock_table st)"
    and "pending_commit_table (pending_state st) key = Some (ti_id tx)"
    and "pending_prepare_records (pending_state st) (ti_id tx) = Some rec"
    and "hm_get (changes rec) key = Some v"
  shows "abort_enter wo tx req rm = Inl (rm, Ok ()) \<and>
    get_locked so key rm =
      Ok \<lparr>gr_val = v, gr_leader_sequence_number = leader_sequence_number (range_info st),
          gr_dependencies = [ti_id tx]\<rparr>"
  using assms by (simp add: abort_enter_def get_locked_def Let_def)

theorem abort_keeps_early_released_witness:
  "\<exists>st req. rm_state wit_prepared = Loaded st \<and>
     abort_enter wit_wo (wit_tx 10) req wit_prepared = Inl (wit_prepared, Ok ()) \<and>
     get_locked wit_so [97] wit_prepared = Ok \<lparr>gr_val = Some [1],
       gr_leader_sequence_number = leader_sequence_number (range_info st), gr_dependencies = [10]\<rparr>"
proof -
  obtain st where st: "rm_state wit_prepared = Loaded st"
    "pending_state st = \<lparr>pending_prepare_records = [10 \<mapsto> wit_rec], pending_commit_table = [[97] \<mapsto> 10]\<rparr>"
    "current_holder (ls_lock_table st) = None"
    using wit_pending by blast
  then show ?thesis
    using abort_keeps_early_released [OF st(1), of "wit_tx 10" "[97]" wit_rec "Some [1]" wit_wo req wit_so]
      wit_prepared_simps(1)
    by (auto simp: is_currently_holding_def wit_tx_def wit_rec_def)
qed

text \<open>
  The keys of one prepare can get different decisions, because the lock contention is sampled
  again for every key. If the first key is to be released early and another one is not, the
  whole range lock is released, yet the other key has no entry in the pending commit table: the
  next transaction reads its old committed value, without a dependency, while the new value is
  pending.
\<close>

theorem mixed_decisions_expose_old_value:
  assumes "rm_state rm = Loaded st" and "cfg_commit_strategy (rm_config rm) = Adaptive"
    and "lock_inv (ls_lock_table st)" and "k1 \<noteq> k2"
    and "order (hm_keys (changes rec)) = [k1, k2]"
    and "do_early_lock_release (rm_config rm) (lts k1) (resolver_average_load req) (num_open_clients req)"
    and "\<not> do_early_lock_release (rm_config rm) (lts k2) (resolver_average_load req) (num_open_clients req)"
    and "append_prepare wo req (rm_wal rm) = (w, Ok ())" and "get_committed so k2 rm = Ok old"
    and "prepare_locked wo order lts (\<lambda>_. True) now tx req rec rm = (rm', sent, r)"
  shows "(\<exists>res. r = Ok res \<and> released_lock_early res) \<and>
    get_locked so k2 rm' =
      Ok \<lparr>gr_val = old, gr_leader_sequence_number = leader_sequence_number (range_info st),
          gr_dependencies = []\<rparr>"
proof -
  have kes: "decisions (rm_config rm) order lts req rec = [(k1, True), (k2, False)]"
    using assms(5-7) by (simp add: decisions_def)
  obtain ps deps where ps: "prepared (cfg_commit_strategy (rm_config rm)) (ti_id tx) rec
      [(k1, True), (k2, False)] (pending_state st) = (ps, deps)" by fastforce
  then have "pending_commit_table ps k2 = None"
    using assms(2) by (auto simp: prepared_def prepare_key_apply)
  moreover have "get_committed so k2 (rm\<lparr>rm_wal := w, rm_state := x\<rparr>) = Ok old" for x
    using assms(9) by (auto simp: get_committed_def split: option.splits)
  moreover have "snd (snd (soft_release (\<lambda>_. True) now (ls_lock_table st))) = Ok ()"
    by (simp add: soft_release_def release_alive_Ok)
  ultimately show ?thesis
    using assms(2,10) unfolding prepare_locked_eq [OF assms(1) kes ps assms(8)] Let_def
    by (auto simp: get_locked_def Let_def)
qed

text \<open>A range manager with the adaptive strategy, and lock tables with 21 and with 20 waiters.\<close>

definition wit_adaptive :: "(bytes \<rightharpoonup> bytes, nat) range_manager" where
  "wit_adaptive = wit_rm\<lparr>rm_config := \<lparr>cfg_commit_strategy = Adaptive,
     cfg_heuristic = LockContention, epoch_duration = 10000000\<rparr>, rm_storage := [[98] \<mapsto> [0]]\<rparr>"

definition wit_crowd :: "nat \<Rightarrow> lock_table" where
  "wit_crowd n = lock_table_new\<lparr>waiting_to_acquire :=
     replicate n \<lparr>req_transaction = wit_tx 12, req_sender = 9, req_when_requested = 0\<rparr>\<rparr>"

theorem mixed_decisions_expose_old_value_witness:
  "get_locked wit_so [98] (fst (prepare_locked wit_wo (\<lambda>ks. ks)
     (\<lambda>k. if k = [97] then wit_crowd 21 else wit_crowd 20) (\<lambda>_. True) 2 (wit_tx 10)
     (wit_req\<lparr>resolver_average_load := Fin 100\<rparr>)
     \<lparr>changes = [([97], Some [1]), ([98], Some [1])]\<rparr> wit_adaptive)) =
   Ok \<lparr>gr_val = Some [0], gr_leader_sequence_number = 3, gr_dependencies = []\<rparr>"
proof -
  let ?lts = "\<lambda>k. if k = [97] then wit_crowd 21 else wit_crowd 20"
  let ?req = "wit_req\<lparr>resolver_average_load := Fin 100\<rparr>"
  let ?rec = "\<lparr>changes = [([97], Some [1]), ([98], Some [1])]\<rparr>"
  let ?p = "prepare_locked wit_wo (\<lambda>ks. ks) ?lts (\<lambda>_. True) 2 (wit_tx 10) ?req ?rec wit_adaptive"
  have p: "?p = (fst ?p, fst (snd ?p), snd (snd ?p))" by simp
  have inv: "lock_inv (ls_lock_table wit_loaded)" by (simp add: wit_rm_defs lock_inv_def)
  have old: "get_committed wit_so [98] wit_adaptive = Ok (Some [0])"
    by (simp add: wit_adaptive_def wit_rm_defs get_committed_def get_from_buffer_def pf_new_def)
  have log: "append_prepare wit_wo ?req (rm_wal wit_adaptive) = (1, Ok ())"
    by (simp add: wit_wo_def wit_adaptive_def wit_rm_def)
  have dec: "do_early_lock_release (rm_config wit_adaptive) (wit_crowd n) (Fin 100) c \<longleftrightarrow> 20 < n" for n c
    by (auto simp: do_early_lock_release_def wit_adaptive_def get_num_waiters_and_pending_def
        f64_of_nat_def wit_crowd_def lock_table_new_def)
  show ?thesis
    using mixed_decisions_expose_old_value [OF _ _ inv _ _ _ _ log old p, of "[97]"] dec
    by (simp add: wit_adaptive_def wit_rm_def wit_loaded_def)
qed

end
