(* ===== verification/Mem_Table.thy ===== *)
theory Mem_Table
  imports Errors
begin

text \<open>
  \<open>rangeserver/src/cache.rs\<close> and \<open>rangeserver/src/cache/memtabledb.rs\<close>: a versioned cache in a ring
  of memtables, of which one is mutable. The ordered skip list of a memtable is code of another
  package and a parameter.
\<close>

section \<open>Entries and memtables\<close>

datatype mem_table_status = FLUSHED | MUTABLE | IMMUTABLE

record mem_table_entry =
  me_key :: bytes
  me_val :: bytes
  me_epoch :: u64
  me_deleted :: bool

text \<open>\<open>Ordering\<close> of the standard library and \<open>cmp\<close> of its ordered types.\<close>

datatype ordering = Less | Equal | Greater

definition cmp :: "'a :: linorder \<Rightarrow> 'a \<Rightarrow> ordering" where
  "cmp x y = (if x < y then Less else if x = y then Equal else Greater)"

definition entry_cmp :: "mem_table_entry \<Rightarrow> mem_table_entry \<Rightarrow> ordering" where
  "entry_cmp self other =
     (let key_comp = cmp (me_key self) (me_key other)
      in case key_comp of
           Less \<Rightarrow> key_comp
         | Greater \<Rightarrow> key_comp
         | Equal \<Rightarrow> cmp (me_epoch other) (me_epoch self))"

definition entry_eq :: "mem_table_entry \<Rightarrow> mem_table_entry \<Rightarrow> bool" where
  "entry_eq self other \<longleftrightarrow> me_key self = me_key other \<and> me_epoch self = me_epoch other"

text \<open>The operations of \<open>OrderedSkipList\<close> that the code uses; \<open>'l\<close> is a list of entries.\<close>

record 'l skip_list =
  sl_new :: 'l
  sl_insert :: "mem_table_entry \<Rightarrow> 'l \<Rightarrow> 'l"
  sl_lower_bound :: "mem_table_entry \<Rightarrow> 'l \<Rightarrow> mem_table_entry option"
  sl_clear :: "'l \<Rightarrow> 'l"

record 'l mem_table =
  mt_id :: nat
  size_in_bytes :: u64
  mt_status :: mem_table_status
  mt_latest_epoch :: u64
  mt_oldest_epoch :: u64
  entries :: 'l

record cache_options =
  cache_path :: string
  num_write_buffers :: nat
  write_buffer_size :: u64

definition cache_options_default :: cache_options where
  "cache_options_default = \<lparr>cache_path = [], num_write_buffers = 2, write_buffer_size = push_bit 29 2\<rparr>"

text \<open>A callback is a function pointer, known by a number.\<close>

record 'l mem_table_db =
  db_options :: cache_options
  memtables :: "'l mem_table list"
  mut_memtable_idx :: nat
  db_latest_epoch :: u64
  gc_callback :: "nat option"

section \<open>Operations\<close>

definition db_new :: "'l skip_list \<Rightarrow> cache_options \<Rightarrow> (cache_error, 'l mem_table_db) outcome" where
  "db_new sl options =
     (let ms = map (\<lambda>i. \<lparr>mt_id = i, size_in_bytes = 0, mt_status = FLUSHED, mt_latest_epoch = 0,
                  mt_oldest_epoch = 0, entries = sl_new sl\<rparr>) [0..<num_write_buffers options]
      in if length ms \<le> 0 then Panic
         else Ok \<lparr>db_options = options, memtables = ms[0 := (ms ! 0)\<lparr>mt_status := MUTABLE\<rparr>],
                  mut_memtable_idx = 0, db_latest_epoch = 0, gc_callback = None\<rparr>)"

text \<open>The size of an entry: key, value, an epoch (8 bytes) and a flag (1 byte).\<close>

definition entry_size :: "bytes \<Rightarrow> nat \<Rightarrow> u64" where
  "entry_size key val_len = of_nat (length key) + of_nat val_len + 8 + 1"

text \<open>
  The part of \<open>upsert_or_delete\<close> that makes the next memtable the mutable one; the result carries
  the callbacks made.
\<close>

definition switch_memtable ::
    "u64 \<Rightarrow> 'l mem_table_db \<Rightarrow> 'l mem_table_db \<times> (nat \<times> u64) list \<times> (cache_error, unit) outcome" where
  "switch_memtable epoch db =
     (let old_id = mut_memtable_idx db;
          new_id = (mut_memtable_idx db + 1) mod num_write_buffers (db_options db);
          ms = memtables db
      in if mt_status (ms ! new_id) \<noteq> FLUSHED then (db, [], Err CacheErrorIsFull)
         else
           let ms = ms[new_id := (ms ! new_id)\<lparr>mt_status := MUTABLE\<rparr>];
               ms = ms[old_id := (ms ! old_id)\<lparr>mt_status := IMMUTABLE\<rparr>];
               ms = ms[new_id := (ms ! new_id)\<lparr>mt_oldest_epoch := epoch\<rparr>]
           in (db\<lparr>mut_memtable_idx := new_id, memtables := ms\<rparr>,
               (case gc_callback db of
                  Some cb \<Rightarrow> [(cb, mt_latest_epoch (ms ! new_id))]
                | None \<Rightarrow> []), Ok ()))"

text \<open>The insertion into the mutable memtable.\<close>

definition insert_entry :: "'l skip_list \<Rightarrow> mem_table_entry \<Rightarrow> u64 \<Rightarrow> 'l mem_table_db \<Rightarrow> 'l mem_table_db" where
  "insert_entry sl entry entry_sz db =
     (let i = mut_memtable_idx db;
          t = memtables db ! i
      in db\<lparr>memtables := (memtables db)[i := t\<lparr>entries := sl_insert sl entry (entries t),
              size_in_bytes := size_in_bytes t + entry_sz,
              mt_latest_epoch := max (mt_latest_epoch t) (me_epoch entry)\<rparr>],
            db_latest_epoch := me_epoch entry\<rparr>)"

definition upsert_or_delete ::
    "'l skip_list \<Rightarrow> bytes \<Rightarrow> u64 \<Rightarrow> bool \<Rightarrow> bytes option \<Rightarrow> 'l mem_table_db \<Rightarrow>
     'l mem_table_db \<times> (nat \<times> u64) list \<times> (cache_error, unit) outcome" where
  "upsert_or_delete sl key epoch deleted val db =
     (if \<not> mut_memtable_idx db < num_write_buffers (db_options db) then (db, [], Panic)
      else if val = None \<and> \<not> deleted then (db, [], Panic)
      else
        let (val_match, val_len) = (case val of Some v \<Rightarrow> (v, length v) | None \<Rightarrow> ([], 0));
            entry_sz = entry_size key val_len;
            entry = \<lparr>me_key = key, me_val = val_match, me_epoch = epoch, me_deleted = deleted\<rparr>;
            t = memtables db ! mut_memtable_idx db
        in if mt_status t \<noteq> MUTABLE then (db, [], Panic)
           else if write_buffer_size (db_options db) < size_in_bytes t + entry_sz
           then
             (case switch_memtable epoch db of
                (db, calls, Ok _) \<Rightarrow> (insert_entry sl entry entry_sz db, calls, Ok ())
              | r \<Rightarrow> r)
           else (insert_entry sl entry entry_sz db, [], Ok ()))"

definition mt_upsert where
  "mt_upsert sl key val epoch db = upsert_or_delete sl key epoch False (Some val) db"

definition mt_delete where
  "mt_delete sl key epoch db = upsert_or_delete sl key epoch True None db"

text \<open>The indices of the ring from the mutable memtable backwards.\<close>

definition ring :: "nat \<Rightarrow> nat \<Rightarrow> nat list" where
  "ring n idx = map (\<lambda>i. (idx + n - i) mod n) [0..<n]"

definition unwrap_or :: "'a option \<Rightarrow> 'a \<Rightarrow> 'a" where
  "unwrap_or x d = (case x of Some v \<Rightarrow> v | None \<Rightarrow> d)"

fun get_scan ::
    "'l skip_list \<Rightarrow> 'l mem_table list \<Rightarrow> bytes \<Rightarrow> u64 \<Rightarrow> u64 option \<Rightarrow> nat list \<Rightarrow> bytes option \<times> u64" where
  "get_scan sl ms key epoch_internal epoch [] = (None, unwrap_or epoch 0)"
| "get_scan sl ms key epoch_internal epoch (idx # idxs) =
     (if mt_status (ms ! idx) = FLUSHED then (None, unwrap_or epoch 0)
      else if mt_oldest_epoch (ms ! idx) \<le> epoch_internal
      then
        (let start = \<lparr>me_key = key, me_val = [], me_epoch = epoch_internal, me_deleted = False\<rparr>
         in case sl_lower_bound sl start (entries (ms ! idx)) of
              Some entry \<Rightarrow>
                if me_key entry = key
                then if me_deleted entry then (None, unwrap_or epoch 0)
                     else (Some (me_val entry), me_epoch entry)
                else get_scan sl ms key epoch_internal epoch idxs
            | None \<Rightarrow> get_scan sl ms key epoch_internal epoch idxs)
      else get_scan sl ms key epoch_internal epoch idxs)"

definition mt_get ::
    "'l skip_list \<Rightarrow> bytes \<Rightarrow> u64 option \<Rightarrow> 'l mem_table_db \<Rightarrow> (cache_error, bytes option \<times> u64) outcome" where
  "mt_get sl key epoch db =
     (if \<not> mut_memtable_idx db < num_write_buffers (db_options db) then Panic
      else
        let epoch_internal = (case epoch of
              Some e \<Rightarrow> min e (db_latest_epoch db)
            | None \<Rightarrow> db_latest_epoch db)
        in Ok (get_scan sl (memtables db) key epoch_internal epoch
             (ring (num_write_buffers (db_options db)) (mut_memtable_idx db))))"

definition clear_memtable :: "'l skip_list \<Rightarrow> u64 \<Rightarrow> 'l mem_table \<Rightarrow> 'l mem_table" where
  "clear_memtable sl epoch t =
     (if mt_status t = IMMUTABLE \<and> mt_latest_epoch t \<le> epoch
      then t\<lparr>mt_status := FLUSHED, size_in_bytes := 0, entries := sl_clear sl (entries t)\<rparr>
      else t)"

definition mt_clear ::
    "'l skip_list \<Rightarrow> u64 \<Rightarrow> 'l mem_table_db \<Rightarrow> 'l mem_table_db \<times> (cache_error, unit) outcome" where
  "mt_clear sl epoch db =
     (if \<not> mut_memtable_idx db < num_write_buffers (db_options db) then (db, Panic)
      else
        (db\<lparr>memtables := fold (\<lambda>i ms. ms[i := clear_memtable sl epoch (ms ! i)])
              (tl (ring (num_write_buffers (db_options db)) (mut_memtable_idx db))) (memtables db)\<rparr>,
         Ok ()))"

definition register_gc_callback :: "nat \<Rightarrow> 'l mem_table_db \<Rightarrow> 'l mem_table_db \<times> (cache_error, unit) outcome" where
  "register_gc_callback cb db = (db\<lparr>gc_callback := Some cb\<rparr>, Ok ())"

section \<open>What the skip list promises\<close>

text \<open>
  The documented behaviour of an ordered skip list that holds the entries \<open>elems l\<close>: insertion
  adds, clearing removes everything, and the lower bound is a least entry not below the given one.
\<close>

definition skip_list_laws :: "'l skip_list \<Rightarrow> ('l \<Rightarrow> mem_table_entry set) \<Rightarrow> bool" where
  "skip_list_laws sl elems \<longleftrightarrow>
     elems (sl_new sl) = {} \<and>
     (\<forall>e l. elems (sl_insert sl e l) = insert e (elems l)) \<and>
     (\<forall>l. elems (sl_clear sl l) = {}) \<and>
     (\<forall>x l. case sl_lower_bound sl x l of
        None \<Rightarrow> \<forall>e\<in>elems l. entry_cmp x e = Greater
      | Some e \<Rightarrow> e \<in> elems l \<and> entry_cmp x e \<noteq> Greater \<and>
          (\<forall>e'\<in>elems l. entry_cmp x e' \<noteq> Greater \<longrightarrow> entry_cmp e e' \<noteq> Greater))"

text \<open>A sorted list keeps these promises.\<close>

fun sorted_insert :: "mem_table_entry \<Rightarrow> mem_table_entry list \<Rightarrow> mem_table_entry list" where
  "sorted_insert e [] = [e]"
| "sorted_insert e (x # xs) = (if entry_cmp e x = Greater then x # sorted_insert e xs else e # x # xs)"

fun best_bound :: "mem_table_entry \<Rightarrow> mem_table_entry list \<Rightarrow> mem_table_entry option" where
  "best_bound x [] = None"
| "best_bound x (e # es) =
     (if entry_cmp x e = Greater then best_bound x es
      else case best_bound x es of
             None \<Rightarrow> Some e
           | Some e' \<Rightarrow> Some (if entry_cmp e e' = Greater then e' else e))"

definition list_skip_list :: "mem_table_entry list skip_list" where
  "list_skip_list = \<lparr>sl_new = [], sl_insert = sorted_insert, sl_lower_bound = best_bound,
     sl_clear = (\<lambda>_. [])\<rparr>"

section \<open>Contents\<close>

definition versions :: "('l \<Rightarrow> mem_table_entry set) \<Rightarrow> 'l mem_table_db \<Rightarrow> mem_table_entry set" where
  "versions elems db = (\<Union>t\<in>set (memtables db). elems (entries t))"

text \<open>
  What a read must return: the newest version of the key that is not newer than the bound, nothing
  if that version is a deletion or does not exist.
\<close>

definition in_bound :: "u64 option \<Rightarrow> mem_table_entry \<Rightarrow> bool" where
  "in_bound epoch r \<longleftrightarrow> (case epoch of None \<Rightarrow> True | Some e \<Rightarrow> me_epoch r \<le> e)"

definition newest :: "mem_table_entry set \<Rightarrow> bytes \<Rightarrow> u64 option \<Rightarrow> mem_table_entry \<Rightarrow> bool" where
  "newest V key bound r \<longleftrightarrow> r \<in> V \<and> me_key r = key \<and> in_bound bound r \<and>
     (\<forall>r'\<in>V. me_key r' = key \<longrightarrow> in_bound bound r' \<longrightarrow> me_epoch r' \<le> me_epoch r)"

definition entry_answer :: "u64 option \<Rightarrow> mem_table_entry \<Rightarrow> bytes option \<times> u64" where
  "entry_answer epoch r =
     (if me_deleted r then (None, unwrap_or epoch 0) else (Some (me_val r), me_epoch r))"

definition read_answers ::
    "mem_table_entry set \<Rightarrow> bytes \<Rightarrow> u64 option \<Rightarrow> u64 option \<Rightarrow> bytes option \<times> u64 \<Rightarrow> bool" where
  "read_answers V key bound epoch res \<longleftrightarrow>
     (\<exists>r. newest V key bound r \<and> res = entry_answer epoch r) \<or>
     (\<forall>r\<in>V. me_key r = key \<longrightarrow> \<not> in_bound bound r) \<and> res = (None, unwrap_or epoch 0)"

section \<open>The ring\<close>

definition tabs :: "'l mem_table_db \<Rightarrow> 'l mem_table list" where
  "tabs db = map ((!) (memtables db)) (ring (num_write_buffers (db_options db)) (mut_memtable_idx db))"

lemma length_ring [simp]: "length (ring n idx) = n"
  by (simp add: ring_def)

lemma ring_nth: "i < n \<Longrightarrow> ring n idx ! i = (idx + n - i) mod n"
  by (simp add: ring_def)

lemma ring_nth_if:
  "i < n \<Longrightarrow> idx < n \<Longrightarrow> ring n idx ! i = (if i \<le> idx then idx - i else idx + n - i)"
  by (auto simp: ring_nth mod_if)

lemma distinct_ring: "idx < n \<Longrightarrow> distinct (ring n idx)"
  by (auto simp: distinct_conv_nth ring_nth_if)

lemma set_ring [simp]: "idx < n \<Longrightarrow> set (ring n idx) = {..<n}"
proof -
  assume a: "idx < n"
  have "set (ring n idx) \<subseteq> {..<n}" using a by (auto simp: ring_def)
  moreover have "card (set (ring n idx)) = card {..<n}"
    using distinct_ring [OF a] by (simp add: distinct_card)
  ultimately show ?thesis by (metis card_subset_eq finite_lessThan)
qed

lemma ring_Cons: "idx < n \<Longrightarrow> ring n idx = idx # tl (ring n idx)"
  using ring_nth_if [of 0 n idx] by (cases "ring n idx") (auto dest: arg_cong [where f = length])

lemma ring_next:
  assumes "idx < n"
  shows "ring n ((idx + 1) mod n) = ((idx + 1) mod n) # butlast (ring n idx)"
    and "ring n idx = butlast (ring n idx) @ [(idx + 1) mod n]"
proof -
  have n: "ring n idx \<noteq> []" using assms by (metis length_ring list.size(3) not_less_zero)
  have l: "last (ring n idx) = (idx + 1) mod n"
    using assms n by (auto simp: last_conv_nth ring_nth mod_if)
  then show "ring n idx = butlast (ring n idx) @ [(idx + 1) mod n]"
    using append_butlast_last_id [OF n] by simp
  show "ring n ((idx + 1) mod n) = ((idx + 1) mod n) # butlast (ring n idx)"
    using assms by (intro nth_equalityI) (auto simp: ring_nth_if nth_Cons nth_butlast mod_if split: nat.splits)
qed

lemma set_tabs:
  assumes "mut_memtable_idx db < num_write_buffers (db_options db)"
    and "length (memtables db) = num_write_buffers (db_options db)"
  shows "set (tabs db) = set (memtables db)"
  using assms by (auto simp: tabs_def in_set_conv_nth)

lemma fold_update_nth:
  assumes "distinct is" and "\<forall>i\<in>set is. i < length ms"
  shows "j < length ms \<Longrightarrow>
    fold (\<lambda>i ms. ms[i := f (ms ! i)]) is ms ! j = (if j \<in> set is then f (ms ! j) else ms ! j)"
  using assms by (induction "is" arbitrary: ms) (auto simp: nth_list_update)

lemma length_fold_update [simp]: "length (fold (\<lambda>i ms. ms[i := f (ms ! i)]) is ms) = length ms"
  by (induction "is" arbitrary: ms) auto

section \<open>The invariant\<close>

text \<open>
  From the mutable memtable backwards: first the memtables in use, then the flushed ones, which are
  empty; the epochs of a memtable lie between its oldest and latest epoch, and everything in an
  older memtable is at most the oldest epoch of a newer one.
\<close>

definition scan_ok :: "('l \<Rightarrow> mem_table_entry set) \<Rightarrow> 'l mem_table list \<Rightarrow> bool" where
  "scan_ok elems ts \<longleftrightarrow>
     sorted_wrt (\<lambda>new old. mt_latest_epoch old \<le> mt_oldest_epoch new \<and>
       (mt_status old \<noteq> FLUSHED \<longrightarrow> mt_status new \<noteq> FLUSHED)) ts \<and>
     (\<forall>t\<in>set ts. (mt_status t = FLUSHED \<longrightarrow> elems (entries t) = {}) \<and>
        (\<forall>e\<in>elems (entries t). mt_oldest_epoch t \<le> me_epoch e \<and> me_epoch e \<le> mt_latest_epoch t))"

definition tabs_ok :: "('l \<Rightarrow> mem_table_entry set) \<Rightarrow> u64 \<Rightarrow> 'l mem_table list \<Rightarrow> bool" where
  "tabs_ok elems latest ts \<longleftrightarrow>
     ts \<noteq> [] \<and> mt_status (hd ts) = MUTABLE \<and> (\<forall>t\<in>set (tl ts). mt_status t \<noteq> MUTABLE) \<and>
     mt_oldest_epoch (hd ts) \<le> latest \<and> (\<forall>t\<in>set ts. mt_latest_epoch t \<le> latest) \<and> scan_ok elems ts"

definition spans :: "'l mem_table list \<Rightarrow> bool" where
  "spans ts \<longleftrightarrow> (\<forall>t\<in>set ts. mt_status t \<noteq> FLUSHED \<longrightarrow> mt_oldest_epoch t \<le> mt_latest_epoch t)"

definition entry_key :: "mem_table_entry \<Rightarrow> bytes \<times> u64" where
  "entry_key e = (me_key e, me_epoch e)"

definition sized :: "'l mem_table_db \<Rightarrow> bool" where
  "sized db \<longleftrightarrow> mut_memtable_idx db < num_write_buffers (db_options db) \<and>
     length (memtables db) = num_write_buffers (db_options db)"

definition db_ok :: "('l \<Rightarrow> mem_table_entry set) \<Rightarrow> 'l mem_table_db \<Rightarrow> bool" where
  "db_ok elems db \<longleftrightarrow>
     sized db \<and> tabs_ok elems (db_latest_epoch db) (tabs db) \<and> spans (tabs db) \<and> inj_on entry_key (versions elems db)"

text \<open>
  The memtables that a sequence of calls can produce: writes come with epochs that do not
  decrease, and no key is written twice in an epoch.
\<close>

inductive mt_reach :: "'l skip_list \<Rightarrow> ('l \<Rightarrow> mem_table_entry set) \<Rightarrow> 'l mem_table_db \<Rightarrow> bool"
  for sl elems where
  new: "db_new sl options = Ok db \<Longrightarrow> mt_reach sl elems db"
| upsert: "mt_reach sl elems db \<Longrightarrow> db_latest_epoch db \<le> epoch \<Longrightarrow>
    (key, epoch) \<notin> entry_key ` versions elems db \<Longrightarrow> mt_reach sl elems (fst (mt_upsert sl key val epoch db))"
| delete: "mt_reach sl elems db \<Longrightarrow> db_latest_epoch db \<le> epoch \<Longrightarrow>
    (key, epoch) \<notin> entry_key ` versions elems db \<Longrightarrow> mt_reach sl elems (fst (mt_delete sl key epoch db))"
| clear: "mt_reach sl elems db \<Longrightarrow> mt_reach sl elems (fst (mt_clear sl epoch db))"
| callback: "mt_reach sl elems db \<Longrightarrow> mt_reach sl elems (fst (register_gc_callback cb db))"

lemma scan_ok_tl: "scan_ok elems (t # ts) \<Longrightarrow> scan_ok elems ts"
  by (simp add: scan_ok_def)

text \<open>The order of entries, spelled out.\<close>

lemma entry_cmp_Greater:
  "entry_cmp x e = Greater \<longleftrightarrow> me_key e < me_key x \<or> me_key e = me_key x \<and> me_epoch x < me_epoch e"
  by (auto simp: entry_cmp_def cmp_def Let_def)

lemma entry_cmp_Equal: "entry_cmp x e = Equal \<longleftrightarrow> entry_eq x e"
  by (auto simp: entry_cmp_def entry_eq_def cmp_def Let_def)

section \<open>Reading\<close>

text \<open>What the lower bound finds in one memtable.\<close>

lemma lower_bound_cases:
  assumes laws: "skip_list_laws sl elems" and start: "me_key start = key" "me_epoch start = bound"
  obtains (found) e where "sl_lower_bound sl start l = Some e" "me_key e = key"
      "newest (elems l) key (Some bound) e"
    | (absent) "\<And>e. sl_lower_bound sl start l = Some e \<Longrightarrow> me_key e \<noteq> key"
      "\<forall>r\<in>elems l. me_key r = key \<longrightarrow> bound < me_epoch r"
proof -
  have lb: "case sl_lower_bound sl start l of
        None \<Rightarrow> \<forall>e\<in>elems l. entry_cmp start e = Greater
      | Some e \<Rightarrow> e \<in> elems l \<and> entry_cmp start e \<noteq> Greater \<and>
          (\<forall>e'\<in>elems l. entry_cmp start e' \<noteq> Greater \<longrightarrow> entry_cmp e e' \<noteq> Greater)"
    using laws unfolding skip_list_laws_def by blast
  show ?thesis
  proof (cases "sl_lower_bound sl start l")
    case None
    with lb have "\<forall>e\<in>elems l. entry_cmp start e = Greater" by simp
    with None start show ?thesis by (intro absent) (auto simp: entry_cmp_Greater)
  next
    case (Some e)
    with lb have e: "e \<in> elems l" "entry_cmp start e \<noteq> Greater"
      "\<And>e'. e' \<in> elems l \<Longrightarrow> entry_cmp start e' \<noteq> Greater \<Longrightarrow> entry_cmp e e' \<noteq> Greater"
      by simp_all
    show ?thesis
    proof (cases "me_key e = key")
      case True
      with e start Some found show ?thesis
        by (fastforce simp: newest_def in_bound_def entry_cmp_Greater not_less)
    next
      case False
      have "bound < me_epoch r" if "r \<in> elems l" "me_key r = key" for r
        using e(2) e(3) [OF that(1)] False that start by (auto simp: entry_cmp_Greater)
      with False Some absent show ?thesis by auto
    qed
  qed
qed

lemma read_answers_skip:
  assumes "\<forall>r\<in>U. me_key r = key \<longrightarrow> \<not> in_bound b r"
  shows "read_answers (U \<union> V) key b epoch res \<longleftrightarrow> read_answers V key b epoch res"
proof -
  have "newest (U \<union> V) key b r \<longleftrightarrow> newest V key b r" for r using assms by (auto simp: newest_def)
  with assms show ?thesis by (auto simp: read_answers_def)
qed

lemma get_scan_read:
  assumes laws: "skip_list_laws sl elems"
  shows "scan_ok elems (map ((!) ms) idxs) \<Longrightarrow>
    read_answers (\<Union>t\<in>set (map ((!) ms) idxs). elems (entries t)) key (Some bound) epoch
      (get_scan sl ms key bound epoch idxs)"
proof (induction idxs)
  case Nil
  show ?case by (simp add: read_answers_def)
next
  case (Cons i idxs)
  let ?t = "ms ! i" and ?start = "\<lparr>me_key = key, me_val = [], me_epoch = bound, me_deleted = False\<rparr>"
  let ?V = "\<Union>t\<in>set (map ((!) ms) idxs). elems (entries t)"
  have IH: "read_answers ?V key (Some bound) epoch (get_scan sl ms key bound epoch idxs)"
    using Cons.IH scan_ok_tl [of elems ?t] Cons.prems by simp
  have skip: "read_answers (elems (entries ?t) \<union> ?V) key (Some bound) epoch res"
    if "\<forall>r\<in>elems (entries ?t). me_key r = key \<longrightarrow> bound < me_epoch r"
      and "read_answers ?V key (Some bound) epoch res" for res
    using that by (subst read_answers_skip) (auto simp: in_bound_def)
  have older: "me_epoch r \<le> mt_oldest_epoch ?t" if "r \<in> ?V" "mt_status ?t \<noteq> FLUSHED" for r
    using Cons.prems that by (fastforce simp: scan_ok_def)
  have own: "mt_oldest_epoch ?t \<le> me_epoch r" if "r \<in> elems (entries ?t)" for r
    using Cons.prems that by (auto simp: scan_ok_def)
  show ?case
  proof (cases "mt_status ?t = FLUSHED")
    case True
    then have "elems (entries ?t) = {}" "?V = {}" using Cons.prems by (auto simp: scan_ok_def)
    with True show ?thesis by (simp add: read_answers_def)
  next
    case live: False
    show ?thesis
    proof (cases "mt_oldest_epoch ?t \<le> bound")
      case False
      with live skip [OF _ IH] own show ?thesis by fastforce
    next
      case True
      show ?thesis
      proof (cases rule: lower_bound_cases [OF laws, of ?start key bound "entries ?t", simplified])
        case (1 e)
        then have "newest (elems (entries ?t) \<union> ?V) key (Some bound) e"
          using older [OF _ live] own by (fastforce simp: newest_def)
        with 1 live True show ?thesis by (auto simp: read_answers_def entry_answer_def)
      next
        case 2
        with live True skip [OF _ IH] show ?thesis by (auto split: option.splits)
      qed
    qed
  qed
qed

section \<open>Writing and clearing\<close>

lemma tabs_ok_mono: "tabs_ok elems latest ts \<Longrightarrow> latest \<le> latest' \<Longrightarrow> tabs_ok elems latest' ts"
  by (auto simp: tabs_ok_def intro: order_trans)

lemma tabs_ok_insert:
  assumes "tabs_ok elems latest (t # ts)" and "latest \<le> me_epoch e"
    and "elems l = insert e (elems (entries t))"
  shows "tabs_ok elems (me_epoch e) (t\<lparr>entries := l, size_in_bytes := z,
    mt_latest_epoch := max (mt_latest_epoch t) (me_epoch e)\<rparr> # ts)"
  using assms unfolding tabs_ok_def scan_ok_def by (auto intro: order_trans simp: le_max_iff_disj)

lemma tabs_ok_switch:
  assumes "tabs_ok elems latest (t # ts @ [u])" and "latest \<le> epoch" and "mt_status u = FLUSHED"
  shows "tabs_ok elems epoch
    (u\<lparr>mt_status := MUTABLE, mt_oldest_epoch := epoch\<rparr> # t\<lparr>mt_status := IMMUTABLE\<rparr> # ts)"
  using assms unfolding tabs_ok_def scan_ok_def
  by (auto simp: sorted_wrt_append intro: order_trans)

lemma clear_memtable_simps [simp]:
  "mt_oldest_epoch (clear_memtable sl epoch t) = mt_oldest_epoch t"
  "mt_latest_epoch (clear_memtable sl epoch t) = mt_latest_epoch t"
  "mt_status (clear_memtable sl epoch t) =
     (if mt_status t = IMMUTABLE \<and> mt_latest_epoch t \<le> epoch then FLUSHED else mt_status t)"
  "entries (clear_memtable sl epoch t) =
     (if mt_status t = IMMUTABLE \<and> mt_latest_epoch t \<le> epoch then sl_clear sl (entries t) else entries t)"
  by (simp_all add: clear_memtable_def)

lemma tabs_ok_clear:
  assumes laws: "skip_list_laws sl elems" and ok: "tabs_ok elems latest (t # ts)" and sp: "spans ts"
  shows "tabs_ok elems latest (t # map (clear_memtable sl epoch) ts)"
proof -
  have cl: "elems (sl_clear sl l) = {}" for l using laws by (simp add: skip_list_laws_def)
  let ?R = "\<lambda>new old. mt_latest_epoch old \<le> mt_oldest_epoch new \<and>
    (mt_status old \<noteq> FLUSHED \<longrightarrow> mt_status new \<noteq> FLUSHED)"
  have imm: "mt_status u = IMMUTABLE" if "u \<in> set ts" "mt_status u \<noteq> FLUSHED" for u
    using that ok by (cases "mt_status u") (auto simp: tabs_ok_def)
  have "sorted_wrt ?R ts" using ok by (simp add: tabs_ok_def scan_ok_def)
  then have "sorted_wrt (\<lambda>a b. ?R (clear_memtable sl epoch a) (clear_memtable sl epoch b)) ts"
  proof (rule sorted_wrt_mono_rel [rotated])
    fix a b assume ab: "a \<in> set ts" "b \<in> set ts" and R: "?R a b"
    show "?R (clear_memtable sl epoch a) (clear_memtable sl epoch b)"
      using R imm [OF ab(1)] imm [OF ab(2)] sp ab unfolding spans_def
      by (auto simp: not_le intro: less_le_trans dest: leD)
  qed
  with ok show ?thesis
    unfolding tabs_ok_def scan_ok_def by (auto simp: sorted_wrt_map cl)
qed

lemma spans_clear: "spans ts \<Longrightarrow> spans (map (clear_memtable sl epoch) ts)"
  by (auto simp: spans_def)

text \<open>The ring before and after an operation.\<close>

lemma map_nth_update [simp]: "i \<notin> set is \<Longrightarrow> map ((!) (ms[i := x])) is = map ((!) ms) is"
  by (rule map_cong [OF refl]) (metis nth_list_update_neq)

lemma ring_obtain:
  assumes "idx < n"
  obtains rs where "ring n idx = idx # rs" "idx \<notin> set rs" "distinct rs" "set rs \<subseteq> {..<n}"
  using ring_Cons [OF assms] distinct_ring [OF assms] set_ring [OF assms]
  by (metis distinct.simps(2) set_subset_Cons)

lemma tabs_hd:
  assumes "sized db"
  obtains ts where "tabs db = memtables db ! mut_memtable_idx db # ts"
  using ring_Cons assms by (metis list.simps(9) sized_def tabs_def)

lemma tabs_insert:
  assumes "sized db" and "tabs db = t # ts"
  shows "sized (insert_entry sl e z db)"
    and "tabs (insert_entry sl e z db) = t\<lparr>entries := sl_insert sl e (entries t),
      size_in_bytes := size_in_bytes t + z, mt_latest_epoch := max (mt_latest_epoch t) (me_epoch e)\<rparr> # ts"
proof -
  show "sized (insert_entry sl e z db)" using assms by (simp add: sized_def insert_entry_def Let_def)
  obtain rs where "ring (num_write_buffers (db_options db)) (mut_memtable_idx db) = mut_memtable_idx db # rs"
    "mut_memtable_idx db \<notin> set rs"
    using ring_obtain assms(1) by (metis sized_def)
  with assms show "tabs (insert_entry sl e z db) = t\<lparr>entries := sl_insert sl e (entries t),
      size_in_bytes := size_in_bytes t + z, mt_latest_epoch := max (mt_latest_epoch t) (me_epoch e)\<rparr> # ts"
    by (auto simp: tabs_def insert_entry_def Let_def sized_def)
qed

lemma tabs_clear:
  assumes "sized db" and "tabs db = t # ts"
  shows "sized (fst (mt_clear sl epoch db))"
    and "tabs (fst (mt_clear sl epoch db)) = t # map (clear_memtable sl epoch) ts"
proof -
  show "sized (fst (mt_clear sl epoch db))" using assms by (simp add: sized_def mt_clear_def)
  obtain rs where r: "ring (num_write_buffers (db_options db)) (mut_memtable_idx db) = mut_memtable_idx db # rs"
    "mut_memtable_idx db \<notin> set rs" "distinct rs" "set rs \<subseteq> {..<num_write_buffers (db_options db)}"
    using ring_obtain assms(1) by (metis sized_def)
  with assms show "tabs (fst (mt_clear sl epoch db)) = t # map (clear_memtable sl epoch) ts"
    by (auto simp: tabs_def mt_clear_def sized_def fold_update_nth subset_eq)
qed

lemma tabs_switch:
  assumes "sized db" and "tabs db = t # ts" and "mt_status t = MUTABLE"
    and "switch_memtable epoch db = (db', calls, r)"
  obtains (full) "db' = db" "r = Err CacheErrorIsFull"
  | (switched) mid u where "r = Ok ()" "ts = mid @ [u]" "mt_status u = FLUSHED" "sized db'"
      "tabs db' = u\<lparr>mt_status := MUTABLE, mt_oldest_epoch := epoch\<rparr> # t\<lparr>mt_status := IMMUTABLE\<rparr> # mid"
      "db_latest_epoch db' = db_latest_epoch db" "db_options db' = db_options db"
      "calls = (case gc_callback db of Some cb \<Rightarrow> [(cb, mt_latest_epoch u)] | None \<Rightarrow> [])"
proof (cases "r = Ok ()")
  case False
  with assms(4) full show ?thesis by (auto simp: switch_memtable_def Let_def split: if_splits)
next
  case True
  let ?n = "num_write_buffers (db_options db)" and ?i = "mut_memtable_idx db"
  let ?new = "(?i + 1) mod ?n"
  have n: "?i < ?n" "length (memtables db) = ?n" using assms(1) by (auto simp: sized_def)
  obtain rs where rs: "ring ?n ?i = ?i # rs" "?i \<notin> set rs" "distinct rs" using ring_obtain [OF n(1)] by metis
  have t: "t = memtables db ! ?i" "ts = map ((!) (memtables db)) rs" using assms(2) rs by (auto simp: tabs_def)
  have u: "mt_status (memtables db ! ?new) = FLUSHED"
    using True assms(4) by (auto simp: switch_memtable_def Let_def split: if_splits)
  then have ne: "?new \<noteq> ?i" using assms(3) t by auto
  then obtain mid where mid: "rs = mid @ [?new]"
    using ring_next(2) [OF n(1)] rs(1)
    by (metis append_butlast_last_id last.simps last_snoc list.distinct(1) list.sel(3) tl_append2 butlast.simps(2))
  then have nr: "ring ?n ?new = ?new # ?i # mid" using ring_next(1) [OF n(1)] rs(1) by simp
  have ni: "?new < ?n" using n(1) by (metis mod_less_divisor gr_implies_not0 gr0I)
  have "?new \<notin> set mid" "?i \<notin> set mid" using rs mid by auto
  then have "tabs db' = (memtables db ! ?new)\<lparr>mt_status := MUTABLE, mt_oldest_epoch := epoch\<rparr> #
      t\<lparr>mt_status := IMMUTABLE\<rparr> # map ((!) (memtables db)) mid" "sized db'"
    using assms(4) u ne ni n nr t by (auto simp: switch_memtable_def Let_def tabs_def sized_def)
  moreover have "calls = (case gc_callback db of Some cb \<Rightarrow> [(cb, mt_latest_epoch (memtables db ! ?new))] | None \<Rightarrow> [])"
    using assms(4) u ne ni n by (auto simp: switch_memtable_def Let_def split: option.splits)
  ultimately show ?thesis
    using True t mid u assms(4) by (intro switched) (auto simp: switch_memtable_def Let_def)
qed

lemma versions_tabs: "sized db \<Longrightarrow> versions elems db = (\<Union>t\<in>set (tabs db). elems (entries t))"
  using set_tabs [of db] by (auto simp: versions_def sized_def)

lemma insert_entry_ok:
  assumes laws: "skip_list_laws sl elems" and ok: "sized db" "tabs_ok elems latest (tabs db)"
    "spans (tl (tabs db))" and epoch: "latest \<le> me_epoch e"
  shows "sized (insert_entry sl e z db) \<and> tabs_ok elems (me_epoch e) (tabs (insert_entry sl e z db)) \<and>
    spans (tabs (insert_entry sl e z db)) \<and> db_latest_epoch (insert_entry sl e z db) = me_epoch e \<and>
    versions elems (insert_entry sl e z db) = insert e (versions elems db)"
proof -
  have ins: "elems (sl_insert sl e l) = insert e (elems l)" for l using laws by (simp add: skip_list_laws_def)
  obtain t ts where t: "tabs db = t # ts" using tabs_hd [OF ok(1)] by metis
  have "mt_oldest_epoch t \<le> latest" using ok(2) t by (simp add: tabs_ok_def)
  then have "spans (tabs (insert_entry sl e z db))"
    using ok(3) epoch t by (auto simp: tabs_insert [OF ok(1) t] spans_def le_max_iff_disj)
  moreover have "versions elems (insert_entry sl e z db) = insert e (versions elems db)"
    using t by (auto simp: versions_tabs ok tabs_insert [OF ok(1) t] ins)
  ultimately show ?thesis
    using tabs_insert [OF ok(1) t] tabs_ok_insert [of elems latest t ts e "sl_insert sl e (entries t)" "size_in_bytes t + z", OF _ epoch ins] ok(2) t
    by (auto simp: insert_entry_def Let_def)
qed

lemma switch_memtable_ok:
  assumes ok: "db_ok elems db" and epoch: "db_latest_epoch db \<le> epoch"
    and sw: "switch_memtable epoch db = (db', calls, r)"
  shows "db' = db \<and> r = Err CacheErrorIsFull \<or>
    r = Ok () \<and> sized db' \<and> tabs_ok elems epoch (tabs db') \<and> spans (tl (tabs db')) \<and>
    versions elems db' = versions elems db"
proof -
  have z: "sized db" and to: "tabs_ok elems (db_latest_epoch db) (tabs db)" and sp: "spans (tabs db)"
    using ok by (auto simp: db_ok_def)
  obtain t ts where t: "tabs db = t # ts" using tabs_hd [OF z] by metis
  then have m: "mt_status t = MUTABLE" using to by (simp add: tabs_ok_def)
  show ?thesis
  proof (cases rule: tabs_switch [OF z t m sw])
    case 1
    then show ?thesis by simp
  next
    case (2 mid u)
    then have "spans (tl (tabs db'))" using sp t m by (auto simp: spans_def)
    moreover have "versions elems db' = versions elems db"
      using 2 z t by (auto simp: versions_tabs)
    ultimately show ?thesis using 2 tabs_ok_switch [OF _ epoch] to t by auto
  qed
qed

lemma upsert_or_delete_ok:
  assumes laws: "skip_list_laws sl elems" and ok: "db_ok elems db" and epoch: "db_latest_epoch db \<le> epoch"
    and val: "deleted \<or> val \<noteq> None" and fresh: "(key, epoch) \<notin> entry_key ` versions elems db"
    and call: "upsert_or_delete sl key epoch deleted val db = (db', calls, r)"
  shows "db_ok elems db' \<and>
    (r = Ok () \<and> versions elems db' = insert \<lparr>me_key = key, me_val = unwrap_or val [], me_epoch = epoch,
       me_deleted = deleted\<rparr> (versions elems db) \<or>
     r = Err CacheErrorIsFull \<and> db' = db)"
proof -
  let ?e = "\<lparr>me_key = key, me_val = unwrap_or val [], me_epoch = epoch, me_deleted = deleted\<rparr>"
  obtain z where z: "z = entry_size key (case val of Some v \<Rightarrow> length v | None \<Rightarrow> 0)" by simp
  have size: "sized db" and to: "tabs_ok elems (db_latest_epoch db) (tabs db)" and sp: "spans (tabs db)"
    and inj: "inj_on entry_key (versions elems db)" using ok by (auto simp: db_ok_def)
  have written: "db_ok elems (insert_entry sl ?e z db1) \<and>
      versions elems (insert_entry sl ?e z db1) = insert ?e (versions elems db)"
    if "sized db1" "tabs_ok elems latest (tabs db1)" "spans (tl (tabs db1))" "latest \<le> epoch"
      "versions elems db1 = versions elems db" for db1 latest
    using insert_entry_ok [OF laws that(1-3), of ?e z] that(4,5) inj fresh
    by (auto simp: db_ok_def entry_key_def)
  obtain ts where ts: "tabs db = memtables db ! mut_memtable_idx db # ts" using tabs_hd [OF size] .
  then have m: "mut_memtable_idx db < num_write_buffers (db_options db)"
    "mt_status (memtables db ! mut_memtable_idx db) = MUTABLE"
    using size to by (auto simp: sized_def tabs_ok_def)
  have "spans (tl (tabs db))" using sp ts by (simp add: spans_def)
  note now = written [OF size to this epoch refl]
  show ?thesis
  proof (cases "write_buffer_size (db_options db) < size_in_bytes (memtables db ! mut_memtable_idx db) + z")
    case False
    then show ?thesis using call m val now z
      by (auto simp: upsert_or_delete_def Let_def unwrap_or_def split: option.splits)
  next
    case True
    obtain db1 c1 r1 where sw: "switch_memtable epoch db = (db1, c1, r1)" by (metis prod_cases3)
    then have "(db', r) = (case r1 of Ok _ \<Rightarrow> (insert_entry sl ?e z db1, Ok ()) | _ \<Rightarrow> (db1, r1))"
      using call m val True z
      by (auto simp: upsert_or_delete_def Let_def unwrap_or_def split: option.splits outcome.splits)
    then show ?thesis
      using switch_memtable_ok [OF ok epoch sw] written [of db1 epoch] ok by auto
  qed
qed

lemma mt_clear_ok:
  assumes laws: "skip_list_laws sl elems" and ok: "db_ok elems db" and call: "mt_clear sl epoch db = (db', r)"
  shows "db_ok elems db' \<and> r = Ok () \<and> versions elems db' \<subseteq> versions elems db \<and>
    {v \<in> versions elems db. epoch < me_epoch v} \<subseteq> versions elems db'"
proof -
  have size: "sized db" and to: "tabs_ok elems (db_latest_epoch db) (tabs db)" and sp: "spans (tabs db)"
    and inj: "inj_on entry_key (versions elems db)" using ok by (auto simp: db_ok_def)
  obtain t ts where t: "tabs db = t # ts" using tabs_hd [OF size] by metis
  have cl: "elems (sl_clear sl l) = {}" for l using laws by (simp add: skip_list_laws_def)
  have d: "db' = fst (mt_clear sl epoch db)" "r = Ok ()" "db_latest_epoch db' = db_latest_epoch db"
    using call size by (auto simp: mt_clear_def sized_def)
  note tc = tabs_clear [OF size t, of sl epoch, folded d(1)]
  have v: "versions elems db' = elems (entries t) \<union> (\<Union>u\<in>set ts. elems (entries (clear_memtable sl epoch u)))"
    unfolding versions_tabs [OF tc(1)] tc(2) by simp
  have v0: "versions elems db = elems (entries t) \<union> (\<Union>u\<in>set ts. elems (entries u))"
    unfolding versions_tabs [OF size] t by simp
  have sub: "versions elems db' \<subseteq> versions elems db" unfolding v v0 by (auto simp: cl split: if_splits)
  have keep: "{v \<in> versions elems db. epoch < me_epoch v} \<subseteq> versions elems db'"
  proof
    fix x assume "x \<in> {v \<in> versions elems db. epoch < me_epoch v}"
    then have x: "x \<in> elems (entries t) \<or> (\<exists>u\<in>set ts. x \<in> elems (entries u))" "epoch < me_epoch x"
      unfolding v0 by auto
    have "\<not> mt_latest_epoch u \<le> epoch" if "u \<in> set ts" "x \<in> elems (entries u)" for u
    proof -
      have "me_epoch x \<le> mt_latest_epoch u" using that to t by (simp add: tabs_ok_def scan_ok_def)
      with x(2) show ?thesis by (simp add: not_le)
    qed
    with x(1) show "x \<in> versions elems db'" unfolding v by (auto split: if_splits)
  qed
  have "spans ts" using sp t by (simp add: spans_def)
  then have "tabs_ok elems (db_latest_epoch db') (tabs db') \<and> spans (tabs db')"
    using tabs_ok_clear [OF laws, of _ t ts epoch] to sp t spans_clear [of ts sl epoch] tc d(3)
    by (auto simp: spans_def)
  with tc(1) inj sub keep d show ?thesis by (auto simp: db_ok_def intro: inj_on_subset)
qed

lemma db_new_ok:
  assumes "skip_list_laws sl elems" and "db_new sl options = Ok db"
  shows "db_ok elems db \<and> versions elems db = {}"
proof -
  let ?n = "num_write_buffers options"
  have e: "elems (sl_new sl) = {}" using assms(1) by (simp add: skip_list_laws_def)
  have db: "db = \<lparr>db_options = options, memtables = (map (\<lambda>i. \<lparr>mt_id = i, size_in_bytes = 0,
      mt_status = FLUSHED, mt_latest_epoch = 0, mt_oldest_epoch = 0, entries = sl_new sl\<rparr>) [0..<?n])
      [0 := \<lparr>mt_id = 0, size_in_bytes = 0, mt_status = MUTABLE, mt_latest_epoch = 0, mt_oldest_epoch = 0,
         entries = sl_new sl\<rparr>], mut_memtable_idx = 0, db_latest_epoch = 0, gc_callback = None\<rparr>"
    and n: "0 < ?n"
    using assms(2) by (auto simp: db_new_def Let_def split: if_splits)
  have z: "sized db" using n by (simp add: db sized_def)
  obtain rs where rs: "ring ?n 0 = 0 # rs" "0 \<notin> set rs" "set rs \<subseteq> {..<?n}" using ring_obtain [OF n] by metis
  have "tabs db = \<lparr>mt_id = 0, size_in_bytes = 0, mt_status = MUTABLE, mt_latest_epoch = 0,
      mt_oldest_epoch = 0, entries = sl_new sl\<rparr> # map (\<lambda>i. \<lparr>mt_id = i, size_in_bytes = 0,
      mt_status = FLUSHED, mt_latest_epoch = 0, mt_oldest_epoch = 0, entries = sl_new sl\<rparr>) rs"
    using rs n by (auto simp: tabs_def db subset_eq)
  then have "tabs_ok elems 0 (tabs db)" "spans (tabs db)" "versions elems db = {}"
    using e by (auto simp: tabs_ok_def scan_ok_def spans_def sorted_wrt_map sorted_wrt_iff_nth_less versions_tabs [OF z])
  then show ?thesis using z by (simp add: db_ok_def db)
qed

lemma reach_db_ok:
  assumes laws: "skip_list_laws sl elems" and "mt_reach sl elems db"
  shows "db_ok elems db"
  using assms(2)
proof induction
  case (new options db)
  then show ?case using db_new_ok [OF laws] by simp
next
  case (upsert db epoch key val)
  then show ?case using upsert_or_delete_ok [OF laws, of db epoch False "Some val" key]
    by (cases "mt_upsert sl key val epoch db") (auto simp: mt_upsert_def)
next
  case (delete db epoch key)
  then show ?case using upsert_or_delete_ok [OF laws, of db epoch True None key]
    by (cases "mt_delete sl key epoch db") (auto simp: mt_delete_def)
next
  case (clear db epoch)
  then show ?case using mt_clear_ok [OF laws, of db epoch] by (cases "mt_clear sl epoch db") auto
next
  case (callback db cb)
  then show ?case by (simp add: register_gc_callback_def db_ok_def tabs_def sized_def versions_def)
qed

lemma mt_get_read:
  assumes laws: "skip_list_laws sl elems" and ok: "db_ok elems db"
  shows "\<exists>res. mt_get sl key epoch db = Ok res \<and> read_answers (versions elems db) key epoch epoch res"
proof -
  let ?b = "case epoch of Some e \<Rightarrow> min e (db_latest_epoch db) | None \<Rightarrow> db_latest_epoch db"
  have size: "sized db" and to: "tabs_ok elems (db_latest_epoch db) (tabs db)" using ok by (auto simp: db_ok_def)
  have "me_epoch r \<le> db_latest_epoch db" if "r \<in> versions elems db" for r
    using that to unfolding versions_tabs [OF size] tabs_ok_def scan_ok_def by (meson UN_E order_trans)
  then have b: "in_bound (Some ?b) r \<longleftrightarrow> in_bound epoch r" if "r \<in> versions elems db" for r
    using that by (auto simp: in_bound_def split: option.splits)
  have "read_answers (versions elems db) key (Some ?b) epoch
      (get_scan sl (memtables db) key ?b epoch (ring (num_write_buffers (db_options db)) (mut_memtable_idx db)))"
    using get_scan_read [OF laws, of "memtables db"] to
    by (simp only: versions_tabs [OF size] tabs_def tabs_ok_def)
  moreover have "newest (versions elems db) key (Some ?b) = newest (versions elems db) key epoch"
    using b by (auto simp: newest_def fun_eq_iff)
  ultimately show ?thesis using b size by (auto simp: read_answers_def mt_get_def sized_def)
qed

section \<open>Properties\<close>

lemma set_sorted_insert [simp]: "set (sorted_insert e xs) = insert e (set xs)"
  by (induction xs) auto

lemma entry_cmp_trans:
  "entry_cmp x y \<noteq> Greater \<Longrightarrow> entry_cmp y z \<noteq> Greater \<Longrightarrow> entry_cmp x z \<noteq> Greater"
  by (auto simp: entry_cmp_Greater)

lemma entry_cmp_total: "entry_cmp x y = Greater \<Longrightarrow> entry_cmp y x \<noteq> Greater"
  by (auto simp: entry_cmp_Greater)

lemma best_bound_spec:
  "case best_bound x l of
     None \<Rightarrow> \<forall>e\<in>set l. entry_cmp x e = Greater
   | Some e \<Rightarrow> e \<in> set l \<and> entry_cmp x e \<noteq> Greater \<and>
       (\<forall>e'\<in>set l. entry_cmp x e' \<noteq> Greater \<longrightarrow> entry_cmp e e' \<noteq> Greater)"
proof (induction l)
  case Nil
  show ?case by simp
next
  case (Cons e l)
  have refl: "entry_cmp y y \<noteq> Greater" for y by (simp add: entry_cmp_Greater)
  show ?case
  proof (cases "best_bound x l")
    case None
    with Cons refl show ?thesis by auto
  next
    case (Some b)
    with Cons have b: "b \<in> set l" "entry_cmp x b \<noteq> Greater"
      "\<forall>e'\<in>set l. entry_cmp x e' \<noteq> Greater \<longrightarrow> entry_cmp b e' \<noteq> Greater" by auto
    show ?thesis
    proof (cases "entry_cmp x e = Greater \<or> entry_cmp e b = Greater")
      case True
      with b Some entry_cmp_total [of e b] show ?thesis by auto
    next
      case False
      have "entry_cmp e e' \<noteq> Greater" if "e' \<in> set (e # l)" "entry_cmp x e' \<noteq> Greater" for e'
        using that b(3) refl entry_cmp_trans [of e b e'] False by auto
      with False Some show ?thesis by auto
    qed
  qed
qed

lemma list_skip_list_laws: "skip_list_laws list_skip_list set"
  using best_bound_spec by (simp add: skip_list_laws_def list_skip_list_def)

text \<open>
  C12: The ring of memtables is one versioned map. In every state that calls can produce, where
  writes come in the order of their epochs and no key is written twice in one, a read
  returns the newest version of the key that is not newer than the requested epoch (or the newest
  of all) and nothing exactly when that version is a deletion or does not exist; a write with a
  later epoch either adds exactly its version or reports a full cache and changes nothing; and
  clearing up to an epoch never fails and keeps every version newer than it. None of the assertions
  on the memtables can fail.
\<close>

theorem memtable_is_versioned_map:
  assumes "skip_list_laws sl elems" and "mt_reach sl elems db"
  shows "(\<exists>res. mt_get sl key bound db = Ok res \<and> read_answers (versions elems db) key bound bound res) \<and>
    (\<forall>epoch deleted val db' calls r.
       db_latest_epoch db \<le> epoch \<longrightarrow> (key, epoch) \<notin> entry_key ` versions elems db \<longrightarrow>
       deleted \<or> val \<noteq> None \<longrightarrow> upsert_or_delete sl key epoch deleted val db = (db', calls, r) \<longrightarrow>
       r = Ok () \<and> versions elems db' = insert \<lparr>me_key = key, me_val = unwrap_or val [], me_epoch = epoch,
         me_deleted = deleted\<rparr> (versions elems db) \<or>
       r = Err CacheErrorIsFull \<and> db' = db) \<and>
    (\<forall>epoch. snd (mt_clear sl epoch db) = Ok () \<and>
       versions elems (fst (mt_clear sl epoch db)) \<subseteq> versions elems db \<and>
       {v \<in> versions elems db. epoch < me_epoch v} \<subseteq> versions elems (fst (mt_clear sl epoch db)))"
proof -
  note ok = reach_db_ok [OF assms]
  note wr = upsert_or_delete_ok [OF assms(1) ok, THEN conjunct2]
  note clear = mt_clear_ok [OF assms(1) ok, OF surjective_pairing, THEN conjunct2]
  show ?thesis
    by (intro conjI allI impI mt_get_read [OF assms(1) ok] clear [THEN conjunct1]
        clear [THEN conjunct2, THEN conjunct1] clear [THEN conjunct2, THEN conjunct2])
      (rule wr; assumption)
qed

definition two_buffers :: cache_options where
  "two_buffers = \<lparr>cache_path = [], num_write_buffers = 2, write_buffer_size = 12\<rparr>"

definition wit_db :: "mem_table_entry list mem_table_db" where
  "wit_db = (case db_new list_skip_list two_buffers of
     Ok db \<Rightarrow> fst (mt_upsert list_skip_list [7] [1] 5 (fst (register_gc_callback 0 db))))"

lemma wit_db_reach: "mt_reach list_skip_list set wit_db"
proof -
  obtain db where new: "db_new list_skip_list two_buffers = Ok db"
    by (simp add: db_new_def two_buffers_def Let_def)
  have "versions set (fst (register_gc_callback 0 db)) = {}" "db_latest_epoch (fst (register_gc_callback 0 db)) = 0"
    using db_new_ok [OF list_skip_list_laws new] new
    by (auto simp: register_gc_callback_def versions_def db_new_def Let_def split: if_splits)
  with new show ?thesis
    unfolding wit_db_def new outcome.case
    by (intro mt_reach.upsert mt_reach.callback mt_reach.new [OF new]) auto
qed

theorem memtable_is_versioned_map_witness:
  "mt_get list_skip_list [7] (Some 9) wit_db = Ok (Some [1], 5) \<and>
   read_answers (versions set wit_db) [7] (Some 9) (Some 9) (Some [1], 5) \<and>
   versions set (fst (upsert_or_delete list_skip_list [7] 6 True None wit_db)) =
     insert \<lparr>me_key = [7], me_val = [], me_epoch = 6, me_deleted = True\<rparr> (versions set wit_db)"
proof -
  obtain db' c r where w: "upsert_or_delete list_skip_list [7] 6 True None wit_db = (db', c, r)"
    by (metis prod_cases3)
  have get: "mt_get list_skip_list [7] (Some 9) wit_db = Ok (Some [1], 5)" by code_simp
  have "snd (snd (upsert_or_delete list_skip_list [7] 6 True None wit_db)) = Ok ()" by code_simp
  then have r: "r = Ok ()" using w by simp
  have e: "db_latest_epoch wit_db \<le> 6" "([7], 6) \<notin> entry_key ` versions set wit_db" by code_simp+
  note spec = memtable_is_versioned_map [OF list_skip_list_laws wit_db_reach, of "[7]" "Some 9"]
  have "versions set db' = insert \<lparr>me_key = [7], me_val = [], me_epoch = 6, me_deleted = True\<rparr> (versions set wit_db)"
    using spec [THEN conjunct2, THEN conjunct1, rule_format, OF e _ w] r by (simp add: unwrap_or_def)
  with spec [THEN conjunct1] get w show ?thesis by simp
qed

lemma upsert_switched:
  assumes "upsert_or_delete sl key epoch deleted val db = (db', [c], Ok ())"
  obtains db1 e z where "switch_memtable epoch db = (db1, [c], Ok ())" "db' = insert_entry sl e z db1"
proof -
  obtain db1 c1 r1 where "switch_memtable epoch db = (db1, c1, r1)" by (metis prod_cases3)
  with assms that show ?thesis
    by (cases r1; cases val) (auto simp: upsert_or_delete_def Let_def split: if_splits)
qed

lemma nth_tabs_1:
  assumes "sized db" and "i < num_write_buffers (db_options db)" and "tabs db = a # b # ts"
    and "mut_memtable_idx db = (i + 1) mod num_write_buffers (db_options db)"
  shows "memtables db ! i = tabs db ! 1"
proof -
  let ?n = "num_write_buffers (db_options db)"
  have n: "1 < ?n" using arg_cong [OF assms(3), of length] by (simp add: tabs_def)
  have "ring ?n ((i + 1) mod ?n) ! 1 = i"
    using n assms(2) by (subst ring_nth_if) (auto simp: mod_if)
  with n show ?thesis unfolding tabs_def assms(4) by simp
qed

text \<open>
  The epoch that the garbage collection callback reports is that of the wrong memtable. When a
  write moves on to the next memtable, the reported epoch is not newer than any version in the
  memtable that was just retired, and clearing up to the reported epoch leaves that memtable in
  use, unless all its versions have that one epoch.
\<close>

theorem gc_callback_epoch_too_old:
  assumes "skip_list_laws sl elems" and "mt_reach sl elems db"
    and "upsert_or_delete sl key epoch deleted val db = (db', [(cb, reported)], Ok ())"
    and "db_latest_epoch db \<le> epoch"
    and "v \<in> elems (entries (memtables db ! mut_memtable_idx db))"
  shows "reported \<le> me_epoch v \<and>
    (reported < me_epoch v \<longrightarrow>
       mt_status (memtables (fst (mt_clear sl reported db')) ! mut_memtable_idx db) = IMMUTABLE)"
proof -
  note ok = reach_db_ok [OF assms(1,2)]
  have size: "sized db" and to: "tabs_ok elems (db_latest_epoch db) (tabs db)" using ok by (auto simp: db_ok_def)
  obtain ts where t: "tabs db = memtables db ! mut_memtable_idx db # ts" using tabs_hd [OF size] .
  then have m: "mt_status (memtables db ! mut_memtable_idx db) = MUTABLE" using to by (simp add: tabs_ok_def)
  obtain db1 e z where sw: "switch_memtable epoch db = (db1, [(cb, reported)], Ok ())"
    and db': "db' = insert_entry sl e z db1"
    using upsert_switched [OF assms(3)] .
  obtain mid u where u: "ts = mid @ [u]" "sized db1" "reported = mt_latest_epoch u"
    "tabs db1 = u\<lparr>mt_status := MUTABLE, mt_oldest_epoch := epoch\<rparr> #
       (memtables db ! mut_memtable_idx db)\<lparr>mt_status := IMMUTABLE\<rparr> # mid"
    by (rule tabs_switch [OF size t m sw]) (auto split: option.splits)
  have v: "mt_oldest_epoch (memtables db ! mut_memtable_idx db) \<le> me_epoch v"
    "me_epoch v \<le> mt_latest_epoch (memtables db ! mut_memtable_idx db)"
    "reported \<le> mt_oldest_epoch (memtables db ! mut_memtable_idx db)"
    using to assms(5) t u by (auto simp: tabs_ok_def scan_ok_def)
  have s': "sized db'" and t': "tl (tabs db') = (memtables db ! mut_memtable_idx db)\<lparr>mt_status := IMMUTABLE\<rparr> # mid"
    and ne: "tabs db' \<noteq> []"
    using tabs_insert [OF u(2,4), of sl e z] unfolding db' by auto
  obtain t0 where "tabs db' = t0 # (memtables db ! mut_memtable_idx db)\<lparr>mt_status := IMMUTABLE\<rparr> # mid"
    using t' ne by (cases "tabs db'") auto
  note c = tabs_clear [OF s' this, of sl reported]
  have "mut_memtable_idx (fst (mt_clear sl reported db')) =
      (mut_memtable_idx db + 1) mod num_write_buffers (db_options (fst (mt_clear sl reported db')))"
    and "db_options (fst (mt_clear sl reported db')) = db_options db"
    using sw by (auto simp: db' mt_clear_def insert_entry_def Let_def switch_memtable_def split: if_splits)
  with nth_tabs_1 [OF c(1) _ c(2) [unfolded list.map(2)]] size
  have "memtables (fst (mt_clear sl reported db')) ! mut_memtable_idx db = tabs (fst (mt_clear sl reported db')) ! 1"
    by (simp add: sized_def)
  then show ?thesis using v c(2) by (auto dest: order.strict_trans2)
qed

theorem gc_callback_epoch_too_old_witness:
  "snd (upsert_or_delete list_skip_list [8] 6 False (Some [2]) wit_db) = ([(0, 0)], Ok ()) \<and>
   mt_status (memtables (fst (mt_clear list_skip_list 0
     (fst (upsert_or_delete list_skip_list [8] 6 False (Some [2]) wit_db)))) ! mut_memtable_idx wit_db) = IMMUTABLE"
proof -
  obtain db' c r where w: "upsert_or_delete list_skip_list [8] 6 False (Some [2]) wit_db = (db', c, r)"
    by (metis prod_cases3)
  have "snd (upsert_or_delete list_skip_list [8] 6 False (Some [2]) wit_db) = ([(0, 0)], Ok ())" by code_simp
  then have w': "upsert_or_delete list_skip_list [8] 6 False (Some [2]) wit_db = (db', [(0, 0)], Ok ())"
    using w by simp
  have "\<lparr>me_key = [7], me_val = [1], me_epoch = 5, me_deleted = False\<rparr>
      \<in> set (entries (memtables wit_db ! mut_memtable_idx wit_db))" "db_latest_epoch wit_db \<le> 6"
    by code_simp+
  from gc_callback_epoch_too_old [OF list_skip_list_laws wit_db_reach w' this(2,1)] w'
  show ?thesis by simp
qed

end
