(* ===== verification/Cql.thy ===== *)
theory Cql
  imports Prelude
begin

text \<open>
  What the storage components rely on of the database driver. The driver is not part of the
  sources: a session is a parameter of the components that use it. Each component gives the meaning
  of its own statements (\<open>exec\<close> for one statement, \<open>exec_batch\<close> for a batch, which is applied as a
  whole), and \<open>serves\<close> says that the session executes statements one at a time on the rows \<open>view\<close>
  shows, where one that fails may or may not have been applied.
\<close>

text \<open>The errors of the driver, as far as the sources tell them apart.\<close>

datatype query_error = TimeoutError | DbWriteTimeout | OtherQueryError string

type_synonym ('q, 'r, 'db) cql_session = "'q \<Rightarrow> 'db \<Rightarrow> 'db \<times> (query_error, 'r) outcome"

type_synonym ('q, 'db) cql_batch_session = "'q list \<Rightarrow> 'db \<Rightarrow> 'db \<times> (query_error, unit) outcome"

definition serves ::
    "('q \<Rightarrow> 'rows \<Rightarrow> 'r \<times> 'rows) \<Rightarrow> ('q list \<Rightarrow> 'rows \<Rightarrow> 'rows) \<Rightarrow>
     ('q, 'r, 'db) cql_session \<Rightarrow> ('q, 'db) cql_batch_session \<Rightarrow> ('db \<Rightarrow> 'rows) \<Rightarrow> bool" where
  "serves exec exec_batch query batch view \<longleftrightarrow>
     (\<forall>q db. case query q db of
        (db', Ok rows) \<Rightarrow> rows = fst (exec q (view db)) \<and> view db' = snd (exec q (view db))
      | (db', Err _) \<Rightarrow> view db' \<in> {view db, snd (exec q (view db))}
      | (db', Panic) \<Rightarrow> False) \<and>
     (\<forall>qs db. case batch qs db of
        (db', Ok _) \<Rightarrow> view db' = exec_batch qs (view db)
      | (db', Err _) \<Rightarrow> view db' \<in> {view db, exec_batch qs (view db)}
      | (db', Panic) \<Rightarrow> False)"

text \<open>A session that never reports an error.\<close>

definition no_errors :: "('q, 'r, 'db) cql_session \<Rightarrow> ('q, 'db) cql_batch_session \<Rightarrow> bool" where
  "no_errors query batch \<longleftrightarrow>
     (\<forall>q db e. snd (query q db) \<noteq> Err e) \<and> (\<forall>qs db e. snd (batch qs db) \<noteq> Err e)"

text \<open>A session over the rows themselves.\<close>

definition rows_query :: "('q \<Rightarrow> 'rows \<Rightarrow> 'r \<times> 'rows) \<Rightarrow> ('q, 'r, 'rows) cql_session" where
  "rows_query exec q rows = (snd (exec q rows), Ok (fst (exec q rows)))"

definition rows_batch :: "('q list \<Rightarrow> 'rows \<Rightarrow> 'rows) \<Rightarrow> ('q, 'rows) cql_batch_session" where
  "rows_batch exec_batch qs rows = (exec_batch qs rows, Ok ())"

lemma rows_session_serves: "serves exec exec_batch (rows_query exec) (rows_batch exec_batch) (\<lambda>rows. rows)"
  by (simp add: serves_def rows_query_def rows_batch_def)

lemma rows_session_no_errors: "no_errors (rows_query exec) (rows_batch exec_batch)"
  by (simp add: no_errors_def rows_query_def rows_batch_def)

lemma serves_query:
  assumes "serves exec exec_batch query batch view" and "query q db = (db', r)"
  obtains (applied) "r = Ok (fst (exec q (view db)))" "view db' = snd (exec q (view db))"
    | (failed) e where "r = Err e" "view db' \<in> {view db, snd (exec q (view db))}"
proof -
  note assms(1) [unfolded serves_def, THEN conjunct1, THEN spec [of _ q], THEN spec [of _ db]]
  with assms(2) that show ?thesis by (cases r) auto
qed

lemma serves_batch:
  assumes "serves exec exec_batch query batch view" and "batch qs db = (db', r)"
  obtains (applied) "r = Ok ()" "view db' = exec_batch qs (view db)"
    | (failed) e where "r = Err e" "view db' \<in> {view db, exec_batch qs (view db)}"
proof -
  note assms(1) [unfolded serves_def, THEN conjunct2, THEN spec [of _ qs], THEN spec [of _ db]]
  with assms(2) that show ?thesis by (cases r) auto
qed

text \<open>Without errors every statement and batch is applied.\<close>

lemma serves_query_ok:
  assumes "serves exec exec_batch query batch view" and "no_errors query batch"
  obtains db' where "query q db = (db', Ok (fst (exec q (view db))))" "view db' = snd (exec q (view db))"
  using serves_query [OF assms(1), of q db] assms(2) unfolding no_errors_def by (metis prod.collapse)

lemma serves_batch_ok:
  assumes "serves exec exec_batch query batch view" and "no_errors query batch"
  obtains db' where "batch qs db = (db', Ok ())" "view db' = exec_batch qs (view db)"
  using serves_batch [OF assms(1), of qs db] assms(2) unfolding no_errors_def by (metis prod.collapse)

end
