(* ===== verification/Cassandra_Wal.thy ===== *)
theory Cassandra_Wal
  imports Cql Common Errors
begin

text \<open>
  \<open>rangeserver/src/wal/cassandra.rs\<close>: the write-ahead log of a range. Entries wait in a buffer, and a
  flush writes them to consecutive rows of the table \<open>atomix.wal\<close> and moves the offsets that a
  metadata row keeps. The database session and the flatbuffer encoding of a log entry are
  parameters; \<open>wal_exec\<close> and \<open>wal_batch\<close> are the meaning of the statements' text.
\<close>

section \<open>Statements\<close>

record wal_row =
  wr_content :: "bytes option"
  wr_first_offset :: "i64 option"
  wr_next_offset :: "i64 option"
  wr_write_id :: "uuid option"

type_synonym wal_rows = "uuid \<times> i64 \<rightharpoonup> wal_row"

text \<open>The bound values, in the order of the placeholders.\<close>

datatype wal_query =
  SYNC_WAL_QUERY uuid i64
| UPDATE_FIRST_OFFSET_QUERY i64 uuid i64 i64
| TRIM_LOG_QUERY uuid i64
| INIT_METADATA_QUERY uuid i64 bytes "i64 option" i64 uuid
| UPDATE_METADATA_QUERY i64 "i64 option" uuid i64 i64
| APPEND_ENTRY_QUERY uuid i64 bytes uuid
| RETRIEVE_LOG_ENTRY uuid i64 uuid

datatype wal_result = W_None | W_Offsets "(i64 option \<times> i64 option) list" | W_Rows "wal_row list"

definition no_row :: wal_row where
  "no_row = \<lparr>wr_content = None, wr_first_offset = None, wr_next_offset = None, wr_write_id = None\<rparr>"

definition wal_row_of :: "wal_rows \<Rightarrow> uuid \<times> i64 \<Rightarrow> wal_row" where
  "wal_row_of rows k = (case rows k of Some r \<Rightarrow> r | None \<Rightarrow> no_row)"

text \<open>The condition of a conditional update; every other statement has none.\<close>

fun wal_cond :: "wal_query \<Rightarrow> wal_rows \<Rightarrow> bool" where
  "wal_cond (UPDATE_FIRST_OFFSET_QUERY _ w offset old) rows =
     (wr_first_offset (wal_row_of rows (w, offset)) = Some old)"
| "wal_cond (UPDATE_METADATA_QUERY _ _ w offset old) rows =
     (wr_next_offset (wal_row_of rows (w, offset)) = Some old)"
| "wal_cond _ rows = True"

fun wal_apply :: "wal_query \<Rightarrow> wal_rows \<Rightarrow> wal_rows" where
  "wal_apply (UPDATE_FIRST_OFFSET_QUERY first w offset _) rows =
     rows((w, offset) \<mapsto> (wal_row_of rows (w, offset))\<lparr>wr_first_offset := Some first\<rparr>)"
| "wal_apply (TRIM_LOG_QUERY w offset) rows =
     (\<lambda>(w', offset'). if w' = w \<and> sint offset' < sint offset then None else rows (w', offset'))"
| "wal_apply (INIT_METADATA_QUERY w offset content first nxt write_id) rows =
     rows((w, offset) \<mapsto> \<lparr>wr_content = Some content, wr_first_offset = first,
       wr_next_offset = Some nxt, wr_write_id = Some write_id\<rparr>)"
| "wal_apply (UPDATE_METADATA_QUERY nxt first w offset _) rows =
     rows((w, offset) \<mapsto> (wal_row_of rows (w, offset))\<lparr>wr_next_offset := Some nxt, wr_first_offset := first\<rparr>)"
| "wal_apply (APPEND_ENTRY_QUERY w offset content write_id) rows =
     rows((w, offset) \<mapsto> (wal_row_of rows (w, offset))\<lparr>wr_content := Some content, wr_write_id := Some write_id\<rparr>)"
| "wal_apply _ rows = rows"

fun wal_select :: "wal_query \<Rightarrow> wal_rows \<Rightarrow> wal_result" where
  "wal_select (SYNC_WAL_QUERY w offset) rows =
     W_Offsets (case rows (w, offset) of None \<Rightarrow> [] | Some r \<Rightarrow> [(wr_first_offset r, wr_next_offset r)])"
| "wal_select (RETRIEVE_LOG_ENTRY w offset write_id) rows =
     W_Rows (case rows (w, offset) of
        None \<Rightarrow> []
      | Some r \<Rightarrow> if wr_write_id r = Some write_id then [r] else [])"
| "wal_select _ rows = W_None"

definition wal_exec :: "wal_query \<Rightarrow> wal_rows \<Rightarrow> wal_result \<times> wal_rows" where
  "wal_exec q rows = (wal_select q rows, if wal_cond q rows then wal_apply q rows else rows)"

text \<open>A batch is applied when all its conditions hold, and not at all otherwise.\<close>

definition wal_batch :: "wal_query list \<Rightarrow> wal_rows \<Rightarrow> wal_rows" where
  "wal_batch qs rows = (if \<forall>q\<in>set qs. wal_cond q rows then fold wal_apply qs rows else rows)"

type_synonym 'db wal_session = "(wal_query, wal_result, 'db) cql_session"
type_synonym 'db wal_batch_session = "(wal_query, 'db) cql_batch_session"

section \<open>The log\<close>

text \<open>The flatbuffer enum \<open>Entry\<close>.\<close>

datatype log_entry_type = Entry_Prepare | Entry_Commit | Entry_Abort

text \<open>A completion channel is a number.\<close>

record buffered_entry =
  entry_type :: log_entry_type
  entry_data :: bytes
  completion_sender :: nat

record buffer_state =
  buf_entries :: "buffered_entry list"
  last_flush :: time

record log_state =
  first_offset :: "i64 option"
  next_offset :: i64

datatype wal_state = NotSynced | Synced log_state

record cassandra_wal =
  wal_id :: uuid
  wal_state :: wal_state
  wal_buffer :: buffer_state
  buffer_capacity :: nat
  flush_interval :: time

fun scylla_query_error_to_wal_error :: "query_error \<Rightarrow> wal_error" where
  "scylla_query_error_to_wal_error TimeoutError = WalTimeout"
| "scylla_query_error_to_wal_error DbWriteTimeout = WalTimeout"
| "scylla_query_error_to_wal_error (OtherQueryError e) = WalInternal e"

definition METADATA_OFFSET :: i64 where
  "METADATA_OFFSET = 0x7FFFFFFFFFFFFFFF"

definition wal_new :: "nat \<Rightarrow> time \<Rightarrow> uuid \<Rightarrow> time \<Rightarrow> cassandra_wal" where
  "wal_new capacity interval w now =
     \<lparr>wal_id = w, wal_state = NotSynced, wal_buffer = \<lparr>buf_entries = [], last_flush = now\<rparr>,
      buffer_capacity = capacity, flush_interval = interval\<rparr>"

text \<open>The decision of one round of the background flush task.\<close>

definition flush_task_should_flush :: "cassandra_wal \<Rightarrow> time \<Rightarrow> bool" where
  "flush_task_should_flush wal now \<longleftrightarrow>
     buffer_capacity wal \<le> length (buf_entries (wal_buffer wal)) \<or>
     flush_interval wal \<le> now - last_flush (wal_buffer wal)"

text \<open>
  The loop over the entries: their statements and offsets, with \<open>new_uuid i\<close> the \<open>i\<close>-th fresh
  write identifier.
\<close>

fun prepare_entries ::
    "(log_entry_type \<Rightarrow> bytes \<Rightarrow> bytes) \<Rightarrow> (nat \<Rightarrow> uuid) \<Rightarrow> uuid \<Rightarrow> nat \<Rightarrow> buffered_entry list \<Rightarrow> log_state \<Rightarrow>
     log_state \<times> wal_query list \<times> i64 list" where
  "prepare_entries encode new_uuid w i [] ls = (ls, [], [])"
| "prepare_entries encode new_uuid w i (e # es) ls =
     (let content = encode (entry_type e) (entry_data e);
          offset = next_offset ls;
          ls = ls\<lparr>next_offset := next_offset ls + 1,
                  first_offset := Some (case first_offset ls of Some f \<Rightarrow> f | None \<Rightarrow> offset)\<rparr>;
          (ls, stmts, offsets) = prepare_entries encode new_uuid w (i + 1) es ls
      in (ls, APPEND_ENTRY_QUERY w offset content (new_uuid i) # stmts, offset # offsets))"

definition flush_entries_to_database ::
    "'db wal_session \<Rightarrow> 'db wal_batch_session \<Rightarrow> (log_entry_type \<Rightarrow> bytes \<Rightarrow> bytes) \<Rightarrow> (nat \<Rightarrow> uuid) \<Rightarrow>
     uuid \<Rightarrow> buffered_entry list \<Rightarrow> wal_state \<Rightarrow> 'db \<Rightarrow> wal_state \<times> 'db \<times> (wal_error, unit) outcome" where
  "flush_entries_to_database query batch encode new_uuid w es state db =
     (case state of
        NotSynced \<Rightarrow> (NotSynced, db, Err WalNotSynced)
      | Synced ls \<Rightarrow>
          (case prepare_entries encode new_uuid w 0 es ls of
             (ls, stmts, []) \<Rightarrow> (Synced ls, db, Panic)
           | (ls, stmts, offset # _) \<Rightarrow>
               (case batch stmts db of
                  (db, Err e) \<Rightarrow> (Synced ls, db, Err (scylla_query_error_to_wal_error e))
                | (db, Panic) \<Rightarrow> (Synced ls, db, Panic)
                | (db, Ok _) \<Rightarrow>
               (case batch [UPDATE_METADATA_QUERY (next_offset ls) (first_offset ls) w METADATA_OFFSET offset] db of
                  (db, Err e) \<Rightarrow> (Synced ls, db, Err (scylla_query_error_to_wal_error e))
                | (db, Panic) \<Rightarrow> (Synced ls, db, Panic)
                | (db, Ok _) \<Rightarrow>
               (case query (RETRIEVE_LOG_ENTRY w offset (new_uuid 0)) db of
                  (db, Err e) \<Rightarrow> (Synced ls, db, Err (scylla_query_error_to_wal_error e))
                | (db, Panic) \<Rightarrow> (Synced ls, db, Panic)
                | (db, Ok result) \<Rightarrow>
                    if (case result of W_Rows rows \<Rightarrow> length rows \<noteq> 1 | _ \<Rightarrow> True)
                    then (NotSynced, db, Err WalNotSynced)
                    else (Synced ls, db, Ok ()))))))"

text \<open>The result carries what is sent to the completion channels.\<close>

definition flush_buffer_inner ::
    "'db wal_session \<Rightarrow> 'db wal_batch_session \<Rightarrow> (log_entry_type \<Rightarrow> bytes \<Rightarrow> bytes) \<Rightarrow> (nat \<Rightarrow> uuid) \<Rightarrow>
     time \<Rightarrow> cassandra_wal \<Rightarrow> 'db \<Rightarrow> cassandra_wal \<times> 'db \<times> (nat \<times> (wal_error, unit) outcome) list" where
  "flush_buffer_inner query batch encode new_uuid now wal db =
     (if buf_entries (wal_buffer wal) = [] then (wal, db, [])
      else
        let entries_to_flush = buf_entries (wal_buffer wal);
            wal = wal\<lparr>wal_buffer := \<lparr>buf_entries = [], last_flush = now\<rparr>\<rparr>;
            (state, db, flush_result) =
              flush_entries_to_database query batch encode new_uuid (wal_id wal) entries_to_flush (wal_state wal) db
        in (wal\<lparr>wal_state := state\<rparr>, db,
            if flush_result = Panic then [] else map (\<lambda>e. (completion_sender e, Ok ())) entries_to_flush))"

definition flush_buffer ::
    "'db wal_session \<Rightarrow> 'db wal_batch_session \<Rightarrow> (log_entry_type \<Rightarrow> bytes \<Rightarrow> bytes) \<Rightarrow> (nat \<Rightarrow> uuid) \<Rightarrow>
     time \<Rightarrow> cassandra_wal \<Rightarrow> 'db \<Rightarrow>
     cassandra_wal \<times> 'db \<times> (nat \<times> (wal_error, unit) outcome) list \<times> (wal_error, unit) outcome" where
  "flush_buffer query batch encode new_uuid now wal db =
     (case flush_buffer_inner query batch encode new_uuid now wal db of (wal, db, sent) \<Rightarrow> (wal, db, sent, Ok ()))"

text \<open>The flag says whether a flush is started at once.\<close>

definition append_entry ::
    "log_entry_type \<Rightarrow> bytes \<Rightarrow> nat \<Rightarrow> cassandra_wal \<Rightarrow> cassandra_wal \<times> bool \<times> (wal_error, nat) outcome" where
  "append_entry t entry sender wal =
     (let es = buf_entries (wal_buffer wal) @ [\<lparr>entry_type = t, entry_data = entry, completion_sender = sender\<rparr>]
      in (wal\<lparr>wal_buffer := (wal_buffer wal)\<lparr>buf_entries := es\<rparr>\<rparr>,
          buffer_capacity wal \<le> length es, Ok sender))"

definition cw_append_prepare where
  "cw_append_prepare entry sender wal = append_entry Entry_Prepare entry sender wal"

definition cw_append_abort where
  "cw_append_abort entry sender wal = append_entry Entry_Abort entry sender wal"

definition cw_append_commit where
  "cw_append_commit entry sender wal = append_entry Entry_Commit entry sender wal"

definition cw_sync ::
    "'db wal_session \<Rightarrow> uuid \<Rightarrow> cassandra_wal \<Rightarrow> 'db \<Rightarrow> cassandra_wal \<times> 'db \<times> (wal_error, unit) outcome" where
  "cw_sync query write_id wal db =
     (let wal = wal\<lparr>wal_state := NotSynced\<rparr>
      in case query (SYNC_WAL_QUERY (wal_id wal) METADATA_OFFSET) db of
           (db, Err e) \<Rightarrow> (wal, db, Err (scylla_query_error_to_wal_error e))
         | (db, Panic) \<Rightarrow> (wal, db, Panic)
         | (db, Ok (W_Offsets [])) \<Rightarrow>
             (case query (INIT_METADATA_QUERY (wal_id wal) METADATA_OFFSET [] None 0 write_id) db of
                (db, Err e) \<Rightarrow> (wal, db, Err (scylla_query_error_to_wal_error e))
              | (db, Panic) \<Rightarrow> (wal, db, Panic)
              | (db, Ok _) \<Rightarrow> (wal\<lparr>wal_state := Synced \<lparr>first_offset = None, next_offset = 0\<rparr>\<rparr>, db, Ok ()))
         | (db, Ok (W_Offsets [(first, Some nxt)])) \<Rightarrow>
             (wal\<lparr>wal_state := Synced \<lparr>first_offset = first, next_offset = nxt\<rparr>\<rparr>, db, Ok ())
         | (db, Ok (W_Offsets _)) \<Rightarrow> (wal, db, Panic)
         | (db, Ok _) \<Rightarrow> (wal, db, Err WalNotSynced))"

definition cw_first_offset :: "cassandra_wal \<Rightarrow> (wal_error, u64 option) outcome" where
  "cw_first_offset wal = (case wal_state wal of NotSynced \<Rightarrow> Err WalNotSynced | Synced ls \<Rightarrow> Ok (first_offset ls))"

definition cw_next_offset :: "cassandra_wal \<Rightarrow> (wal_error, u64) outcome" where
  "cw_next_offset wal = (case wal_state wal of NotSynced \<Rightarrow> Err WalNotSynced | Synced ls \<Rightarrow> Ok (next_offset ls))"

definition trim_before_offset ::
    "'db wal_session \<Rightarrow> 'db wal_batch_session \<Rightarrow> uuid \<Rightarrow> u64 \<Rightarrow> cassandra_wal \<Rightarrow> 'db \<Rightarrow>
     cassandra_wal \<times> 'db \<times> (wal_error, unit) outcome" where
  "trim_before_offset query batch write_id offset wal db =
     (case cw_first_offset wal of
        Err e \<Rightarrow> (wal, db, Err e)
      | Panic \<Rightarrow> (wal, db, Panic)
      | Ok None \<Rightarrow> (wal, db, Ok ())
      | Ok (Some first) \<Rightarrow>
          if offset < first then (wal, db, Ok ())
          else
            (case batch [UPDATE_FIRST_OFFSET_QUERY offset (wal_id wal) METADATA_OFFSET first,
                         TRIM_LOG_QUERY (wal_id wal) offset] db of
               (db, Err e) \<Rightarrow> (wal, db, Err (scylla_query_error_to_wal_error e))
             | (db, Panic) \<Rightarrow> (wal, db, Panic)
             | (db, Ok _) \<Rightarrow> cw_sync query write_id wal db))"

section \<open>What the log holds\<close>

text \<open>
  The log \<open>hist\<close> (all entries ever appended, of which those before \<open>trimmed\<close> have been removed) is in
  the table, and the state and the metadata row agree with it.
\<close>

definition log_state_of :: "nat \<Rightarrow> 'a list \<Rightarrow> log_state" where
  "log_state_of trimmed hist =
     \<lparr>first_offset = (if hist = [] then None else Some (of_nat trimmed)), next_offset = of_nat (length hist)\<rparr>"

definition log_in_table :: "wal_rows \<Rightarrow> uuid \<Rightarrow> nat \<Rightarrow> bytes list \<Rightarrow> bool" where
  "log_in_table rows w trimmed hist \<longleftrightarrow>
     trimmed \<le> length hist \<and> length hist < 2 ^ 63 - 1 \<and>
     (\<exists>r. rows (w, METADATA_OFFSET) = Some r \<and>
        wr_first_offset r = first_offset (log_state_of trimmed hist) \<and>
        wr_next_offset r = Some (next_offset (log_state_of trimmed hist))) \<and>
     (\<forall>i. trimmed \<le> i \<longrightarrow> i < length hist \<longrightarrow> wr_content (wal_row_of rows (w, of_nat i)) = Some (hist ! i))"

definition payloads :: "(log_entry_type \<Rightarrow> bytes \<Rightarrow> bytes) \<Rightarrow> buffered_entry list \<Rightarrow> bytes list" where
  "payloads encode es = map (\<lambda>e. encode (entry_type e) (entry_data e)) es"

lemma offset_unat: "n < 2 ^ 63 \<Longrightarrow> unat (of_nat n :: i64) = n"
  by (rule of_nat_inverse [OF refl]) simp

lemma offset_eq: "n < 2 ^ 63 \<Longrightarrow> m < 2 ^ 63 \<Longrightarrow> (of_nat n :: i64) = of_nat m \<longleftrightarrow> n = m"
  by (metis offset_unat)

lemma offset_sint: "n < 2 ^ 63 \<Longrightarrow> sint (of_nat n :: i64) = int n"
proof -
  assume n: "n < 2 ^ 63"
  then have "uint (of_nat n :: i64) = int n" using offset_unat [OF n] by (metis of_nat_unat)
  with n show ?thesis by (simp only: sint_uint) (simp add: signed_take_bit_int_eq_self)
qed

lemma METADATA_OFFSET_nat: "METADATA_OFFSET = of_nat (2 ^ 63 - 1)"
  by (simp add: METADATA_OFFSET_def)

lemma METADATA_OFFSET_neq: "n < 2 ^ 63 - 1 \<Longrightarrow> of_nat n \<noteq> METADATA_OFFSET"
proof
  assume n: "n < 2 ^ 63 - 1" and "of_nat n = METADATA_OFFSET"
  then have "(of_nat n :: i64) = of_nat (2 ^ 63 - 1)" using METADATA_OFFSET_nat by simp
  then have "n = 2 ^ 63 - 1" using n by (subst (asm) offset_eq) auto
  with n show False by simp
qed

text \<open>The statements of a flush write the entries to consecutive rows and touch nothing else.\<close>

lemma prepare_entries_spec:
  assumes "prepare_entries encode new_uuid w i es ls = (ls', stmts, offsets)"
    and "next_offset ls = of_nat n" and "n + length es < 2 ^ 63"
  shows "next_offset ls' = of_nat (n + length es) \<and>
    first_offset ls' = (if es = [] then first_offset ls
      else Some (case first_offset ls of Some f \<Rightarrow> f | None \<Rightarrow> of_nat n)) \<and>
    offsets = map of_nat [n..<n + length es] \<and> (\<forall>q\<in>set stmts. wal_cond q rows') \<and>
    (\<forall>j<length es. fold wal_apply stmts rows (w, of_nat (n + j)) =
       Some ((wal_row_of rows (w, of_nat (n + j)))\<lparr>wr_content := Some (payloads encode es ! j),
         wr_write_id := Some (new_uuid (i + j))\<rparr>)) \<and>
    (\<forall>k. (\<forall>j<length es. k \<noteq> (w, of_nat (n + j))) \<longrightarrow> fold wal_apply stmts rows k = rows k)"
  using assms
proof (induction es arbitrary: i ls n stmts offsets rows)
  case Nil
  then show ?case by simp
next
  case (Cons e es)
  let ?ls = "ls\<lparr>next_offset := next_offset ls + 1,
    first_offset := Some (case first_offset ls of Some f \<Rightarrow> f | None \<Rightarrow> of_nat n)\<rparr>"
  let ?q = "APPEND_ENTRY_QUERY w (of_nat n) (encode (entry_type e) (entry_data e)) (new_uuid i)"
  let ?rows = "wal_apply ?q rows"
  obtain stmts' offsets' where p: "prepare_entries encode new_uuid w (i + 1) es ?ls = (ls', stmts', offsets')"
    "stmts = ?q # stmts'" "offsets = of_nat n # offsets'"
    using Cons.prems by (auto simp: Let_def split: prod.splits)
  have n: "next_offset ?ls = of_nat (n + 1)" "n + 1 + length es < 2 ^ 63" using Cons.prems by auto
  note IH = Cons.IH [OF p(1) n, of ?rows]
  note IHrow = IH [THEN conjunct2, THEN conjunct2, THEN conjunct2, THEN conjunct2, THEN conjunct1, rule_format]
  note IHkeep = IH [THEN conjunct2, THEN conjunct2, THEN conjunct2, THEN conjunct2, THEN conjunct2, rule_format]
  have ne: "of_nat n \<noteq> (of_nat (n + 1 + j) :: i64)" if "j < length es" for j
    using offset_eq [of n "n + 1 + j"] that n(2) by simp
  have row: "fold wal_apply stmts rows (w, of_nat (n + j)) =
      Some ((wal_row_of rows (w, of_nat (n + j)))\<lparr>wr_content := Some (payloads encode (e # es) ! j),
         wr_write_id := Some (new_uuid (i + j))\<rparr>)" if "j < length (e # es)" for j
  proof (cases j)
    case 0
    have "fold wal_apply stmts' ?rows (w, of_nat n) = ?rows (w, of_nat n)" using ne by (intro IHkeep) auto
    with 0 p(2) show ?thesis by (simp add: payloads_def)
  next
    case (Suc j')
    with that have "j' < length es" by simp
    with IHrow [OF this] ne [OF this] show ?thesis by (simp add: Suc p(2) payloads_def wal_row_of_def)
  qed
  have keep: "fold wal_apply stmts rows k = rows k" if k: "\<forall>j<length (e # es). k \<noteq> (w, of_nat (n + j))" for k
  proof -
    have "k \<noteq> (w, of_nat n)" using k [rule_format, of 0] by simp
    moreover have "k \<noteq> (w, of_nat (n + 1 + j))" if "j < length es" for j
      using k [rule_format, of "Suc j"] that by simp
    ultimately show ?thesis using IHkeep [of k] by (simp add: p(2))
  qed
  have offs: "offsets = map of_nat [n..<n + length (e # es)]"
    unfolding p(3) IH [THEN conjunct2, THEN conjunct2, THEN conjunct1] by (simp add: upt_conv_Cons del: upt_Suc)
  have heads: "next_offset ls' = of_nat (n + length (e # es))"
    "first_offset ls' = Some (case first_offset ls of Some f \<Rightarrow> f | None \<Rightarrow> of_nat n)"
    "\<forall>q\<in>set stmts. wal_cond q rows'" using IH p(2) by auto
  show ?case by (intro conjI allI impI offs row keep heads) (simp_all add: heads)
qed

lemma log_state_of_append:
  assumes "next_offset ls' = of_nat (length hist + length es)" and "es \<noteq> []"
    and "trimmed \<le> length hist"
    and "first_offset ls' = Some (case first_offset (log_state_of trimmed hist) of Some f \<Rightarrow> f | None \<Rightarrow> of_nat (length hist))"
  shows "ls' = log_state_of trimmed (hist @ payloads encode es)"
proof (rule log_state.equality)
  show "first_offset ls' = first_offset (log_state_of trimmed (hist @ payloads encode es))"
    using assms(2-4) by (cases "hist = []") (simp_all add: log_state_of_def payloads_def)
  show "next_offset ls' = next_offset (log_state_of trimmed (hist @ payloads encode es))"
    using assms(1) by (simp add: log_state_of_def payloads_def)
qed simp

text \<open>The rows after the two batches of a flush.\<close>

lemma log_in_table_append:
  assumes log: "log_in_table rows w trimmed hist" and es: "es \<noteq> []"
    and len: "length hist + length es < 2 ^ 63 - 1"
    and prep: "prepare_entries encode new_uuid w 0 es (log_state_of trimmed hist) = (ls', stmts, offsets)"
    and rows1: "rows1 = wal_batch stmts rows"
    and rows2: "rows2 = wal_batch [UPDATE_METADATA_QUERY (next_offset ls') (first_offset ls') w METADATA_OFFSET
      (of_nat (length hist))] rows1"
  shows "log_in_table rows2 w trimmed (hist @ payloads encode es)"
    and "ls' = log_state_of trimmed (hist @ payloads encode es)"
    and "hd offsets = of_nat (length hist)" and "offsets \<noteq> []"
    and "\<exists>r. rows2 (w, of_nat (length hist)) = Some r \<and> wr_write_id r = Some (new_uuid 0)"
    and "\<And>w' offset. w' \<noteq> w \<Longrightarrow> rows2 (w', offset) = rows (w', offset)"
proof -
  have n: "next_offset (log_state_of trimmed hist) = of_nat (length hist)" by (simp add: log_state_of_def)
  have l: "length hist + length es < 2 ^ 63" using len by linarith
  note p = prepare_entries_spec [OF prep n l]
  have r1: "rows1 = fold wal_apply stmts rows" using p [of rows] unfolding rows1 wal_batch_def by simp
  note pr = p [of _ rows, folded r1]
  have t: "trimmed \<le> length hist" using log by (simp add: log_in_table_def)
  show ls': "ls' = log_state_of trimmed (hist @ payloads encode es)"
    using pr es t by (intro log_state_of_append) auto
  have off: "offsets = map of_nat [length hist..<length hist + length es]" using pr by blast
  with es show "hd offsets = of_nat (length hist)" "offsets \<noteq> []" by (auto simp: upt_conv_Cons)
  have new: "rows1 (w, of_nat (length hist + j)) = Some ((wal_row_of rows (w, of_nat (length hist + j)))
      \<lparr>wr_content := Some (payloads encode es ! j), wr_write_id := Some (new_uuid j)\<rparr>)"
    if "j < length es" for j using pr that by simp
  have keep: "rows1 k = rows k" if "\<And>j. j < length es \<Longrightarrow> k \<noteq> (w, of_nat (length hist + j))" for k
    using pr that by blast
  have ne: "of_nat i \<noteq> METADATA_OFFSET" if "i < length hist + length es" for i
    using METADATA_OFFSET_neq [of i] that len by simp
  have meta: "rows1 (w, METADATA_OFFSET) = rows (w, METADATA_OFFSET)"
    by (rule keep) (metis add_less_cancel_left ne prod.inject)
  then obtain r where r: "rows1 (w, METADATA_OFFSET) = Some r" "wr_next_offset r = Some (of_nat (length hist))"
    using log by (auto simp: log_in_table_def log_state_of_def)
  then have r2: "rows2 = rows1((w, METADATA_OFFSET) \<mapsto>
      r\<lparr>wr_next_offset := Some (next_offset ls'), wr_first_offset := first_offset ls'\<rparr>)"
    unfolding rows2 wal_batch_def by (simp add: wal_row_of_def)
  show "\<exists>r. rows2 (w, of_nat (length hist)) = Some r \<and> wr_write_id r = Some (new_uuid 0)"
    using new [of 0] ne [of "length hist"] es by (simp add: r2)
  show "rows2 (w', offset) = rows (w', offset)" if "w' \<noteq> w" for w' offset
    using keep [of "(w', offset)"] that by (simp add: r2)
  have old: "rows1 (w, of_nat i) = rows (w, of_nat i)" if "i < length hist" for i
  proof (rule keep)
    fix j assume "j < length es"
    then show "(w, of_nat i :: i64) \<noteq> (w, of_nat (length hist + j))"
      using offset_eq [of i "length hist + j"] that l by simp
  qed
  have "wr_content (wal_row_of rows2 (w, of_nat i)) = Some ((hist @ payloads encode es) ! i)"
    if i: "trimmed \<le> i" "i < length hist + length es" for i
  proof (cases "i < length hist")
    case True
    then show ?thesis
      using old [OF True] ne [OF i(2)] log i by (simp add: r2 wal_row_of_def log_in_table_def nth_append)
  next
    case False
    with i new [of "i - length hist"] ne [OF i(2)] show ?thesis
      by (simp add: r2 wal_row_of_def nth_append)
  qed
  then show "log_in_table rows2 w trimmed (hist @ payloads encode es)"
    using t len by (auto simp: log_in_table_def r2 ls' payloads_def)
qed

lemma flush_entries_appends:
  assumes serves: "serves wal_exec wal_batch query batch view" "no_errors query batch"
    and log: "log_in_table (view db) w trimmed hist" and es: "es \<noteq> []"
    and len: "length hist + length es < 2 ^ 63 - 1"
  obtains db' where
    "flush_entries_to_database query batch encode new_uuid w es (Synced (log_state_of trimmed hist)) db =
       (Synced (log_state_of trimmed (hist @ payloads encode es)), db', Ok ())"
    "log_in_table (view db') w trimmed (hist @ payloads encode es)"
    "\<And>w' offset. w' \<noteq> w \<Longrightarrow> view db' (w', offset) = view db (w', offset)"
proof -
  obtain ls' stmts offsets where
    prep: "prepare_entries encode new_uuid w 0 es (log_state_of trimmed hist) = (ls', stmts, offsets)"
    by (metis prod_cases3)
  let ?meta = "UPDATE_METADATA_QUERY (next_offset ls') (first_offset ls') w METADATA_OFFSET (of_nat (length hist))"
  obtain db1 where d1: "batch stmts db = (db1, Ok ())" "view db1 = wal_batch stmts (view db)"
    using serves_batch_ok [OF serves] .
  obtain db2 where d2: "batch [?meta] db1 = (db2, Ok ())" "view db2 = wal_batch [?meta] (view db1)"
    using serves_batch_ok [OF serves] .
  note a = log_in_table_append [OF log es len prep d1(2) d2(2)]
  let ?check = "RETRIEVE_LOG_ENTRY w (of_nat (length hist)) (new_uuid 0)"
  obtain db3 where d3: "query ?check db2 = (db3, Ok (fst (wal_exec ?check (view db2))))"
    "view db3 = snd (wal_exec ?check (view db2))"
    using serves_query_ok [OF serves] .
  have v: "view db3 = view db2" using d3(2) by (simp add: wal_exec_def)
  obtain r where "fst (wal_exec ?check (view db2)) = W_Rows [r]" using a(5) by (auto simp: wal_exec_def)
  then have "flush_entries_to_database query batch encode new_uuid w es (Synced (log_state_of trimmed hist)) db =
       (Synced (log_state_of trimmed (hist @ payloads encode es)), db3, Ok ())"
    using a(2-4) prep d1(1) d2(1) d3(1)
    by (cases offsets) (simp_all add: flush_entries_to_database_def)
  with a(1,6) v that show ?thesis by simp
qed

lemma cw_sync_reads:
  assumes serves: "serves wal_exec wal_batch query batch view" "no_errors query batch"
    and log: "log_in_table (view db) (wal_id wal) trimmed hist"
  obtains db' where "cw_sync query u wal db = (wal\<lparr>wal_state := Synced (log_state_of trimmed hist)\<rparr>, db', Ok ())"
    "view db' = view db"
proof -
  obtain r where r: "view db (wal_id wal, METADATA_OFFSET) = Some r"
    "wr_first_offset r = first_offset (log_state_of trimmed hist)"
    "wr_next_offset r = Some (next_offset (log_state_of trimmed hist))"
    using log by (auto simp: log_in_table_def)
  let ?q = "SYNC_WAL_QUERY (wal_id wal) METADATA_OFFSET"
  obtain db' where d: "query ?q db = (db', Ok (fst (wal_exec ?q (view db))))" "view db' = snd (wal_exec ?q (view db))"
    using serves_query_ok [OF serves] .
  with r that show ?thesis by (simp add: cw_sync_def wal_exec_def)
qed

lemma cw_sync_creates:
  assumes serves: "serves wal_exec wal_batch query batch view" "no_errors query batch"
    and fresh: "view db (wal_id wal, METADATA_OFFSET) = None"
  obtains db' where "cw_sync query u wal db = (wal\<lparr>wal_state := Synced (log_state_of 0 [])\<rparr>, db', Ok ())"
    "log_in_table (view db') (wal_id wal) 0 []"
proof -
  let ?q = "SYNC_WAL_QUERY (wal_id wal) METADATA_OFFSET"
  let ?i = "INIT_METADATA_QUERY (wal_id wal) METADATA_OFFSET [] None 0 u"
  obtain db1 where d1: "query ?q db = (db1, Ok (fst (wal_exec ?q (view db))))" "view db1 = snd (wal_exec ?q (view db))"
    using serves_query_ok [OF serves] .
  obtain db2 where d2: "query ?i db1 = (db2, Ok (fst (wal_exec ?i (view db1))))" "view db2 = snd (wal_exec ?i (view db1))"
    using serves_query_ok [OF serves] .
  with d1 fresh that show ?thesis
    by (simp add: cw_sync_def wal_exec_def log_state_of_def log_in_table_def)
qed

lemma log_in_table_trim:
  assumes log: "log_in_table rows w trimmed hist" and hist: "hist \<noteq> []" and k: "trimmed \<le> k" "k \<le> length hist"
    and rows': "rows' = wal_batch [UPDATE_FIRST_OFFSET_QUERY (of_nat k) w METADATA_OFFSET (of_nat trimmed),
      TRIM_LOG_QUERY w (of_nat k)] rows"
  shows "log_in_table rows' w k hist" and "\<And>i. i < k \<Longrightarrow> rows' (w, of_nat i) = None"
proof -
  obtain r where r: "rows (w, METADATA_OFFSET) = Some r" "wr_first_offset r = Some (of_nat trimmed)"
    "wr_next_offset r = Some (of_nat (length hist))"
    using log hist by (auto simp: log_in_table_def log_state_of_def)
  have len: "length hist < 2 ^ 63 - 1" using log by (simp add: log_in_table_def)
  have k63: "k < 2 ^ 63" using k len by simp
  let ?rows = "rows((w, METADATA_OFFSET) \<mapsto> r\<lparr>wr_first_offset := Some (of_nat k)\<rparr>)"
  have rows1: "rows' (w', o') = (if w' = w \<and> sint o' < int k then None else ?rows (w', o'))" for w' o'
    using r unfolding rows' wal_batch_def by (simp add: wal_row_of_def offset_sint [OF k63])
  have "sint METADATA_OFFSET = int (2 ^ 63 - 1)" unfolding METADATA_OFFSET_nat by (rule offset_sint) simp
  then have m: "\<not> sint METADATA_OFFSET < int k" using k len by simp
  show "rows' (w, of_nat i) = None" if "i < k" for i
    using that k63 offset_sint [of i] by (simp add: rows1)
  have "wr_content (wal_row_of rows' (w, of_nat i)) = Some (hist ! i)" if "k \<le> i" "i < length hist" for i
  proof -
    have "sint (of_nat i :: i64) = int i" using that len by (intro offset_sint) simp
    moreover have "of_nat i \<noteq> METADATA_OFFSET" using that len by (intro METADATA_OFFSET_neq) simp
    ultimately have "rows' (w, of_nat i) = rows (w, of_nat i)" using that by (simp add: rows1)
    with log that k show ?thesis by (simp add: log_in_table_def wal_row_of_def)
  qed
  with k len r m hist show "log_in_table rows' w k hist" by (simp add: log_in_table_def rows1 log_state_of_def)
qed

lemma trim_before_offset_trims:
  assumes serves: "serves wal_exec wal_batch query batch view" "no_errors query batch"
    and log: "log_in_table (view db) (wal_id wal) trimmed hist"
    and state: "wal_state wal = Synced (log_state_of trimmed hist)" and hist: "hist \<noteq> []"
    and k: "trimmed \<le> k" "k \<le> length hist"
  obtains db' where
    "trim_before_offset query batch u (of_nat k) wal db = (wal\<lparr>wal_state := Synced (log_state_of k hist)\<rparr>, db', Ok ())"
    "log_in_table (view db') (wal_id wal) k hist" "\<And>i. i < k \<Longrightarrow> view db' (wal_id wal, of_nat i) = None"
proof -
  let ?b = "[UPDATE_FIRST_OFFSET_QUERY (of_nat k) (wal_id wal) METADATA_OFFSET (of_nat trimmed),
      TRIM_LOG_QUERY (wal_id wal) (of_nat k)]"
  obtain db1 where d1: "batch ?b db = (db1, Ok ())" "view db1 = wal_batch ?b (view db)"
    using serves_batch_ok [OF serves] .
  note t = log_in_table_trim [OF log hist k d1(2)]
  obtain db2 where d2: "cw_sync query u wal db1 = (wal\<lparr>wal_state := Synced (log_state_of k hist)\<rparr>, db2, Ok ())"
    "view db2 = view db1" using cw_sync_reads [OF serves t(1)] .
  have "length hist < 2 ^ 63 - 1" using log by (simp add: log_in_table_def)
  then have "\<not> (of_nat k :: u64) < of_nat trimmed"
    using k offset_unat [of k] offset_unat [of trimmed] by (simp add: word_less_nat_alt)
  with d1(1) d2 t state hist that show ?thesis
    by (simp add: trim_before_offset_def cw_first_offset_def log_state_of_def)
qed

lemma flush_buffer_appends:
  assumes serves: "serves wal_exec wal_batch query batch view" "no_errors query batch"
    and log: "log_in_table (view db) (wal_id wal) trimmed hist"
    and state: "wal_state wal = Synced (log_state_of trimmed hist)"
    and len: "length hist + length (buf_entries (wal_buffer wal)) < 2 ^ 63 - 1"
  obtains wal' db' where
    "flush_buffer query batch encode new_uuid now wal db =
       (wal', db', map (\<lambda>e. (completion_sender e, Ok ())) (buf_entries (wal_buffer wal)), Ok ())"
    "wal_id wal' = wal_id wal" "buf_entries (wal_buffer wal') = []"
    "wal_state wal' = Synced (log_state_of trimmed (hist @ payloads encode (buf_entries (wal_buffer wal))))"
    "log_in_table (view db') (wal_id wal) trimmed (hist @ payloads encode (buf_entries (wal_buffer wal)))"
    "\<And>w offset. w \<noteq> wal_id wal \<Longrightarrow> view db' (w, offset) = view db (w, offset)"
proof (cases "buf_entries (wal_buffer wal) = []")
  case True
  then show ?thesis
    using that [of wal db] log state by (simp add: flush_buffer_def flush_buffer_inner_def payloads_def)
next
  case False
  show ?thesis
  proof (rule flush_entries_appends [OF serves log False len, of encode new_uuid])
    fix db'
    assume "flush_entries_to_database query batch encode new_uuid (wal_id wal) (buf_entries (wal_buffer wal))
        (Synced (log_state_of trimmed hist)) db =
      (Synced (log_state_of trimmed (hist @ payloads encode (buf_entries (wal_buffer wal)))), db', Ok ())"
      and "log_in_table (view db') (wal_id wal) trimmed (hist @ payloads encode (buf_entries (wal_buffer wal)))"
      and "\<And>w' offset. w' \<noteq> wal_id wal \<Longrightarrow> view db' (w', offset) = view db (w', offset)"
    then show ?thesis
      using False state
      by (intro that [of "wal\<lparr>wal_buffer := \<lparr>buf_entries = [], last_flush = now\<rparr>,
          wal_state := Synced (log_state_of trimmed (hist @ payloads encode (buf_entries (wal_buffer wal))))\<rparr>" db'])
        (simp_all add: flush_buffer_def flush_buffer_inner_def Let_def)
  qed
qed

section \<open>Properties\<close>

text \<open>
  C13: With a database that reports no errors and one writer, the table holds the log. A flush
  appends exactly the buffered entries, in their order, and confirms each of them; other logs are
  not touched. Synchronising, also by a new process, finds the offsets of the log in the table.
  Trimming removes exactly the entries before the offset, which must not lie beyond the end.
\<close>

theorem wal_holds_appended_entries:
  assumes "serves wal_exec wal_batch query batch view" and "no_errors query batch"
    and "log_in_table (view db) (wal_id wal) trimmed hist"
    and "wal_state wal = Synced (log_state_of trimmed hist)"
    and "length hist + length (buf_entries (wal_buffer wal)) < 2 ^ 63 - 1"
  shows "(\<exists>wal' db'. flush_buffer query batch encode new_uuid now wal db =
        (wal', db', map (\<lambda>e. (completion_sender e, Ok ())) (buf_entries (wal_buffer wal)), Ok ()) \<and>
      buf_entries (wal_buffer wal') = [] \<and>
      wal_state wal' = Synced (log_state_of trimmed (hist @ payloads encode (buf_entries (wal_buffer wal)))) \<and>
      log_in_table (view db') (wal_id wal) trimmed (hist @ payloads encode (buf_entries (wal_buffer wal))) \<and>
      (\<forall>w offset. w \<noteq> wal_id wal \<longrightarrow> view db' (w, offset) = view db (w, offset))) \<and>
    (\<forall>wal2 u. wal_id wal2 = wal_id wal \<longrightarrow>
      (\<exists>db'. cw_sync query u wal2 db = (wal2\<lparr>wal_state := wal_state wal\<rparr>, db', Ok ()) \<and> view db' = view db)) \<and>
    (\<forall>k u. hist \<noteq> [] \<longrightarrow> trimmed \<le> k \<longrightarrow> k \<le> length hist \<longrightarrow>
      (\<exists>db'. trim_before_offset query batch u (of_nat k) wal db =
          (wal\<lparr>wal_state := Synced (log_state_of k hist)\<rparr>, db', Ok ()) \<and>
        log_in_table (view db') (wal_id wal) k hist \<and> (\<forall>i<k. view db' (wal_id wal, of_nat i) = None)))"
proof (intro conjI allI impI)
  show "\<exists>wal' db'. flush_buffer query batch encode new_uuid now wal db =
        (wal', db', map (\<lambda>e. (completion_sender e, Ok ())) (buf_entries (wal_buffer wal)), Ok ()) \<and>
      buf_entries (wal_buffer wal') = [] \<and>
      wal_state wal' = Synced (log_state_of trimmed (hist @ payloads encode (buf_entries (wal_buffer wal)))) \<and>
      log_in_table (view db') (wal_id wal) trimmed (hist @ payloads encode (buf_entries (wal_buffer wal))) \<and>
      (\<forall>w offset. w \<noteq> wal_id wal \<longrightarrow> view db' (w, offset) = view db (w, offset))"
    by (rule flush_buffer_appends [OF assms, of encode new_uuid now]) blast
next
  fix wal2 :: cassandra_wal and u assume "wal_id wal2 = wal_id wal"
  with assms(3) have "log_in_table (view db) (wal_id wal2) trimmed hist" by simp
  then show "\<exists>db'. cw_sync query u wal2 db = (wal2\<lparr>wal_state := wal_state wal\<rparr>, db', Ok ()) \<and> view db' = view db"
    unfolding assms(4) by (rule cw_sync_reads [OF assms(1,2), of db wal2 trimmed hist u]) blast
next
  fix k u assume k: "hist \<noteq> []" "trimmed \<le> k" "k \<le> length hist"
  show "\<exists>db'. trim_before_offset query batch u (of_nat k) wal db =
          (wal\<lparr>wal_state := Synced (log_state_of k hist)\<rparr>, db', Ok ()) \<and>
        log_in_table (view db') (wal_id wal) k hist \<and> (\<forall>i<k. view db' (wal_id wal, of_nat i) = None)"
    by (rule trim_before_offset_trims [OF assms(1-4) k, of u]) blast
qed

text \<open>A log with one entry and another one in the buffer.\<close>

definition wit_rows :: wal_rows where
  "wit_rows = [(1, METADATA_OFFSET) \<mapsto> no_row\<lparr>wr_first_offset := Some 0, wr_next_offset := Some 1\<rparr>,
     (1, 0) \<mapsto> no_row\<lparr>wr_content := Some [9], wr_write_id := Some 5\<rparr>]"

definition wit_wal :: "bytes \<Rightarrow> cassandra_wal" where
  "wit_wal data = \<lparr>wal_id = 1, wal_state = Synced \<lparr>first_offset = Some 0, next_offset = 1\<rparr>,
     wal_buffer = \<lparr>buf_entries = [\<lparr>entry_type = Entry_Prepare, entry_data = data, completion_sender = 4\<rparr>],
       last_flush = 0\<rparr>, buffer_capacity = 32, flush_interval = 200\<rparr>"

lemma wit_log: "log_in_table wit_rows 1 0 [[9]]"
  by (auto simp: log_in_table_def wit_rows_def log_state_of_def no_row_def wal_row_of_def METADATA_OFFSET_def)

abbreviation rows_wal_query :: "wal_rows wal_session" where
  "rows_wal_query \<equiv> rows_query wal_exec"

abbreviation rows_wal_batch :: "wal_rows wal_batch_session" where
  "rows_wal_batch \<equiv> rows_batch wal_batch"

theorem wal_holds_appended_entries_witness:
  "\<exists>wal' rows'. flush_buffer rows_wal_query rows_wal_batch (\<lambda>t d. d) (\<lambda>i. 7) 7 (wit_wal [3]) wit_rows =
      (wal', rows', [(4, Ok ())], Ok ()) \<and> log_in_table rows' 1 0 [[9], [3]]"
proof -
  have state: "wal_state (wit_wal [3]) = Synced (log_state_of 0 [[9 :: u8]])"
    by (simp add: wit_wal_def log_state_of_def)
  have log: "log_in_table wit_rows (wal_id (wit_wal [3])) 0 [[9]]" using wit_log by (simp add: wit_wal_def)
  have len: "length [[9 :: u8]] + length (buf_entries (wal_buffer (wit_wal [3]))) < 2 ^ 63 - 1"
    by (simp add: wit_wal_def)
  note spec = wal_holds_appended_entries [where view = "\<lambda>rows. rows" and db = wit_rows,
      OF rows_session_serves rows_session_no_errors log state len,
      THEN conjunct1, of "\<lambda>t d. d" "\<lambda>i. 7" 7]
  from spec show ?thesis by (auto simp: wit_wal_def payloads_def)
qed

text \<open>
  C32: A flush confirms every entry, whatever became of it. The waiting appends are told \<open>Ok\<close> and the
  buffer is emptied even if the database reported an error or the log was not synchronised; in the
  latter case nothing at all has been written.
\<close>

theorem flush_confirms_unwritten_entries:
  assumes "\<And>q db. snd (query q db) \<noteq> Panic" and "\<And>qs db. snd (batch qs db) \<noteq> Panic"
    and "flush_buffer query batch encode new_uuid now wal db = (wal', db', sent, r)"
  shows "sent = map (\<lambda>e. (completion_sender e, Ok ())) (buf_entries (wal_buffer wal)) \<and>
    r = Ok () \<and> buf_entries (wal_buffer wal') = [] \<and> (wal_state wal = NotSynced \<longrightarrow> db' = db)"
proof -
  have nonempty: "offsets \<noteq> []" if "prepare_entries encode new_uuid w i es ls = (ls', stmts, offsets)" "es \<noteq> []"
    for w i es ls ls' stmts offsets
    using that by (cases es) (auto simp: Let_def split: prod.splits)
  have np: "snd (snd (flush_entries_to_database query batch encode new_uuid w es state db)) \<noteq> Panic" if ne: "es \<noteq> []"
    for w es state
  proof (cases state)
    case (Synced ls)
    obtain ls' stmts offs where p0: "prepare_entries encode new_uuid w 0 es ls = (ls', stmts, offs)"
      by (metis prod_cases3)
    then obtain offset offsets where p: "prepare_entries encode new_uuid w 0 es ls = (ls', stmts, offset # offsets)"
      using nonempty [OF p0 ne] by (cases offs) auto
    obtain db1 r1 where b1: "batch stmts db = (db1, r1)" by force
    obtain db2 r2 where b2: "batch [UPDATE_METADATA_QUERY (next_offset ls') (first_offset ls') w METADATA_OFFSET offset] db1 =
      (db2, r2)" by force
    obtain db3 r3 where q3: "query (RETRIEVE_LOG_ENTRY w offset (new_uuid 0)) db2 = (db3, r3)" by force
    have "r1 \<noteq> Panic" "r2 \<noteq> Panic" "r3 \<noteq> Panic" using assms(1,2) b1 b2 q3 by (metis snd_conv)+
    with Synced p b1 b2 q3 show ?thesis
      by (auto simp: flush_entries_to_database_def split: outcome.splits)
  qed (simp add: flush_entries_to_database_def)
  obtain state db1 res where f: "flush_entries_to_database query batch encode new_uuid (wal_id wal)
      (buf_entries (wal_buffer wal)) (wal_state wal) db = (state, db1, res)" by (metis prod_cases3)
  show ?thesis
  proof (cases "buf_entries (wal_buffer wal) = []")
    case True
    with assms(3) show ?thesis by (auto simp: flush_buffer_def flush_buffer_inner_def)
  next
    case False
    have "res \<noteq> Panic" using np [OF False, of "wal_id wal" "wal_state wal"] f by simp
    moreover have "db1 = db" if "wal_state wal = NotSynced" using f that by (simp add: flush_entries_to_database_def)
    ultimately show ?thesis using assms(3) f False by (auto simp: flush_buffer_def flush_buffer_inner_def)
  qed
qed

theorem flush_confirms_unwritten_entries_witness:
  "\<exists>wal'. flush_buffer rows_wal_query rows_wal_batch (\<lambda>t d. d) (\<lambda>i. of_nat i) 7
      ((wit_wal [3])\<lparr>wal_state := NotSynced\<rparr>) wit_rows = (wal', wit_rows, [(4, Ok ())], Ok ())"
proof -
  obtain wal' db' sent r where f: "flush_buffer rows_wal_query rows_wal_batch (\<lambda>t d. d) (\<lambda>i. of_nat i) 7
      ((wit_wal [3])\<lparr>wal_state := NotSynced\<rparr>) wit_rows = (wal', db', sent, r)" by (metis prod_cases4)
  show ?thesis
    using flush_confirms_unwritten_entries [OF _ _ f] f
    by (simp add: rows_query_def rows_batch_def wit_wal_def)
qed

text \<open>
  C33: A writer that has lost the log is not noticed. When two processes have synchronised with the
  same log and the second one flushes first, the flush of the first one overwrites the entry that
  the second one was told is in the log, is itself confirmed, leaves the first process synchronised,
  and the metadata row keeps the offsets of the second one.
\<close>

theorem stale_writer_overwrites_entries:
  assumes "serves wal_exec wal_batch query batch view" and "no_errors query batch"
    and "log_in_table (view db) w trimmed hist"
    and "wal_id owner = w" and "wal_state owner = Synced (log_state_of trimmed hist)"
    and "wal_id stale = w" and "wal_state stale = Synced (log_state_of trimmed hist)"
    and "buf_entries (wal_buffer owner) \<noteq> []" and "buf_entries (wal_buffer stale) = e # es"
    and "length hist + length (buf_entries (wal_buffer owner)) < 2 ^ 63 - 1"
    and "length hist + length (e # es) < 2 ^ 63 - 1"
    and "flush_buffer query batch encode u1 now owner db = (owner', db1, sent1, r1)"
    and "flush_buffer query batch encode u2 now' stale db1 = (stale', db2, sent2, r2)"
  shows "sent1 = map (\<lambda>e. (completion_sender e, Ok ())) (buf_entries (wal_buffer owner)) \<and>
    sent2 = map (\<lambda>e. (completion_sender e, Ok ())) (e # es) \<and> wal_state stale' \<noteq> NotSynced \<and>
    wr_content (wal_row_of (view db2) (w, of_nat (length hist))) = Some (encode (entry_type e) (entry_data e)) \<and>
    wr_next_offset (wal_row_of (view db2) (w, METADATA_OFFSET)) =
      Some (of_nat (length hist + length (buf_entries (wal_buffer owner))))"
proof -
  note serves = assms(1,2)
  let ?p = "payloads encode (buf_entries (wal_buffer owner))"
  have log1: "log_in_table (view db1) w trimmed (hist @ ?p)"
    and s1: "sent1 = map (\<lambda>e. (completion_sender e, Ok ())) (buf_entries (wal_buffer owner))"
    using flush_buffer_appends [OF serves assms(3) [folded assms(4)] assms(5,10), of encode u1 now] assms(4,12)
    by auto
  obtain ls stmts offsets where prep: "prepare_entries encode u2 w 0 (e # es) (log_state_of trimmed hist) = (ls, stmts, offsets)"
    by (metis prod_cases3)
  have n: "next_offset (log_state_of trimmed hist) = of_nat (length hist)" by (simp add: log_state_of_def)
  have l: "length hist + length (e # es) < 2 ^ 63" using assms(11) by linarith
  note p = prepare_entries_spec [OF prep n l, of _ "view db1"]
  then have off: "offsets = of_nat (length hist) # map of_nat [length hist + 1..<length hist + length (e # es)]"
    by (simp add: upt_conv_Cons del: upt_Suc)
  obtain db3 where d3: "batch stmts db1 = (db3, Ok ())" "view db3 = wal_batch stmts (view db1)"
    using serves_batch_ok [OF serves] .
  have v3: "view db3 = fold wal_apply stmts (view db1)" using d3(2) p by (simp add: wal_batch_def)
  have new: "view db3 (w, of_nat (length hist)) = Some ((wal_row_of (view db1) (w, of_nat (length hist)))
      \<lparr>wr_content := Some (encode (entry_type e) (entry_data e)), wr_write_id := Some (u2 0)\<rparr>)"
    using p [THEN conjunct2, THEN conjunct2, THEN conjunct2, THEN conjunct2, THEN conjunct1, rule_format, of 0]
    by (simp add: v3 payloads_def)
  have "METADATA_OFFSET \<noteq> of_nat (length hist + j)" if "j < length (e # es)" for j
    using METADATA_OFFSET_neq [of "length hist + j", symmetric] that assms(11) by simp
  then have "view db3 (w, METADATA_OFFSET) = view db1 (w, METADATA_OFFSET)"
    using p [THEN conjunct2, THEN conjunct2, THEN conjunct2, THEN conjunct2, THEN conjunct2, rule_format,
        of "(w, METADATA_OFFSET)"] by (auto simp: v3)
  then have meta: "wr_next_offset (wal_row_of (view db3) (w, METADATA_OFFSET)) = Some (of_nat (length (hist @ ?p)))"
    using log1 by (auto simp: log_in_table_def log_state_of_def wal_row_of_def)
  let ?m = "UPDATE_METADATA_QUERY (next_offset ls) (first_offset ls) w METADATA_OFFSET (of_nat (length hist))"
  obtain db4 where d4: "batch [?m] db3 = (db4, Ok ())" "view db4 = wal_batch [?m] (view db3)"
    using serves_batch_ok [OF serves] .
  have "(of_nat (length (hist @ ?p)) :: i64) \<noteq> of_nat (length hist)"
    using offset_eq [of "length (hist @ ?p)" "length hist"] assms(8,10) by (simp add: payloads_def)
  then have v4: "view db4 = view db3" using d4(2) meta by (simp add: wal_batch_def)
  let ?c = "RETRIEVE_LOG_ENTRY w (of_nat (length hist)) (u2 0)"
  obtain db5 where d5: "query ?c db4 = (db5, Ok (fst (wal_exec ?c (view db4))))"
    "view db5 = snd (wal_exec ?c (view db4))" using serves_query_ok [OF serves] .
  have "flush_entries_to_database query batch encode u2 w (e # es) (Synced (log_state_of trimmed hist)) db1 =
      (Synced ls, db5, Ok ())"
    using prep off d3(1) d4(1) d5(1) new v4 by (simp add: flush_entries_to_database_def wal_exec_def)
  then have "wal_state stale' = Synced ls" "db2 = db5" "sent2 = map (\<lambda>e. (completion_sender e, Ok ())) (e # es)"
    using assms(13) by (auto simp: flush_buffer_def flush_buffer_inner_def Let_def assms(6,7,9))
  moreover have "view db5 = view db3" using d5(2) v4 by (simp add: wal_exec_def)
  ultimately show ?thesis using s1 new meta by (simp add: wal_row_of_def payloads_def)
qed

theorem stale_writer_overwrites_entries_witness:
  "wr_content (wal_row_of (fst (snd (flush_buffer rows_wal_query rows_wal_batch (\<lambda>t d. d) (\<lambda>i. 7) 8 (wit_wal [2])
     (fst (snd (flush_buffer rows_wal_query rows_wal_batch (\<lambda>t d. d) (\<lambda>i. 6) 7 (wit_wal [3]) wit_rows)))))) (1, 1)) =
   Some [2]"
proof -
  obtain owner' db1 sent1 r1 where f1:
    "flush_buffer rows_wal_query rows_wal_batch (\<lambda>t d. d) (\<lambda>i. 6) 7 (wit_wal [3]) wit_rows = (owner', db1, sent1, r1)"
    by (metis prod_cases4)
  obtain stale' db2 sent2 r2 where f2:
    "flush_buffer rows_wal_query rows_wal_batch (\<lambda>t d. d) (\<lambda>i. 7) 8 (wit_wal [2]) db1 = (stale', db2, sent2, r2)"
    by (metis prod_cases4)
  note spec = stale_writer_overwrites_entries [where view = "\<lambda>rows. rows" and db = wit_rows and hist = "[[9]]"
      and trimmed = 0 and w = 1, OF rows_session_serves rows_session_no_errors wit_log _ _ _ _ _ _ _ _ f1 f2]
  from spec show ?thesis unfolding f1 f2 fst_conv snd_conv
    by (simp add: wit_wal_def log_state_of_def)
qed

end
