(* ===== verification/Cassandra_Storage.thy ===== *)
theory Cassandra_Storage
  imports Cql Range_Interfaces
begin

text \<open>
  \<open>rangeserver/src/storage/cassandra.rs\<close>: the storage of a range server, in the tables
  \<open>range_leases\<close> and \<open>records\<close>. The database session is a parameter; \<open>sto_exec\<close> and \<open>sto_batch\<close> are the
  meaning of the statements' text.
\<close>

section \<open>Statements\<close>

record cql_epoch_range =
  er_lower_bound_inclusive :: i64
  er_upper_bound_inclusive :: i64

record cql_range_lease =
  cl_range_id :: uuid
  cl_epoch_lease :: cql_epoch_range
  cl_key_lower_bound_inclusive :: "bytes option"
  cl_key_upper_bound_exclusive :: "bytes option"
  cl_leader_sequence_number :: i64
  cl_safe_snapshot_epochs :: cql_epoch_range

record cql_val =
  cv_value :: "bytes option"
  is_tombstone :: bool

text \<open>
  The table of records keeps the versions of a key in descending order of their (signed) epochs.
\<close>

record sto_rows =
  range_leases :: "uuid \<rightharpoonup> cql_range_lease"
  records :: "uuid \<times> bytes \<Rightarrow> (i64 \<times> cql_val) list"

text \<open>
  The bound values in the order of the placeholders. \<open>UPSERT_QUERY\<close> has five placeholders; \<open>None\<close> is
  an unset value, and the last argument is a sixth value where the code passes one.
\<close>

datatype sto_query =
  GET_RANGE_LEASE_QUERY uuid
| ACQUIRE_RANGE_LEASE_QUERY i64 uuid i64
| RENEW_EPOCH_LEASE_QUERY cql_epoch_range uuid i64
| UPSERT_QUERY uuid bytes "bytes option" i64 bool "i64 option"
| GET_QUERY uuid bytes

datatype sto_result = S_None | S_Leases "cql_range_lease list" | S_Vals "cql_val list"

fun arity_ok :: "sto_query \<Rightarrow> bool" where
  "arity_ok (UPSERT_QUERY _ _ _ _ _ extra) = (extra = None)"
| "arity_ok _ = True"

fun upsert_version :: "i64 \<Rightarrow> bytes option \<Rightarrow> bool \<Rightarrow> (i64 \<times> cql_val) list \<Rightarrow> (i64 \<times> cql_val) list" where
  "upsert_version e v d [] = [(e, \<lparr>cv_value = v, is_tombstone = d\<rparr>)]"
| "upsert_version e v d ((e', r) # vs) =
     (if sint e' < sint e then (e, \<lparr>cv_value = v, is_tombstone = d\<rparr>) # (e', r) # vs
      else if e' = e then (e, \<lparr>cv_value = (if v = None then cv_value r else v), is_tombstone = d\<rparr>) # vs
      else (e', r) # upsert_version e v d vs)"

fun sto_apply :: "sto_query \<Rightarrow> sto_rows \<Rightarrow> sto_rows" where
  "sto_apply (ACQUIRE_RANGE_LEASE_QUERY new r old) rows =
     (case range_leases rows r of
        Some l \<Rightarrow> if cl_leader_sequence_number l = old
          then rows\<lparr>range_leases := (range_leases rows)(r \<mapsto> l\<lparr>cl_leader_sequence_number := new\<rparr>)\<rparr> else rows
      | None \<Rightarrow> rows)"
| "sto_apply (RENEW_EPOCH_LEASE_QUERY lease r leader) rows =
     (case range_leases rows r of
        Some l \<Rightarrow> if cl_leader_sequence_number l = leader
          then rows\<lparr>range_leases := (range_leases rows)(r \<mapsto> l\<lparr>cl_epoch_lease := lease\<rparr>)\<rparr> else rows
      | None \<Rightarrow> rows)"
| "sto_apply (UPSERT_QUERY r k v e d extra) rows =
     rows\<lparr>records := (records rows)((r, k) := upsert_version e v d (records rows (r, k)))\<rparr>"
| "sto_apply _ rows = rows"

fun sto_select :: "sto_query \<Rightarrow> sto_rows \<Rightarrow> sto_result" where
  "sto_select (GET_RANGE_LEASE_QUERY r) rows =
     S_Leases (case range_leases rows r of Some l \<Rightarrow> [l] | None \<Rightarrow> [])"
| "sto_select (GET_QUERY r k) rows =
     S_Vals (case records rows (r, k) of [] \<Rightarrow> [] | (e, v) # _ \<Rightarrow> [v])"
| "sto_select _ rows = S_None"

text \<open>
  The effect of a statement that the session has taken. No column stands for the sixth value of a
  delete; whether the session takes such a statement is left open (\<open>sto_no_errors\<close> below).
\<close>

definition sto_exec :: "sto_query \<Rightarrow> sto_rows \<Rightarrow> sto_result \<times> sto_rows" where
  "sto_exec q rows = (sto_select q rows, sto_apply q rows)"

definition sto_batch :: "sto_query list \<Rightarrow> sto_rows \<Rightarrow> sto_rows" where
  "sto_batch qs rows = fold sto_apply qs rows"

type_synonym 'db sto_session = "(sto_query, sto_result, 'db) cql_session"
type_synonym 'db sto_batch_session = "(sto_query, 'db) cql_batch_session"

text \<open>
  The session reports no error for statements with a value for each placeholder. It may do so for
  the others, the deletes.
\<close>

definition sto_no_errors :: "'db sto_session \<Rightarrow> 'db sto_batch_session \<Rightarrow> bool" where
  "sto_no_errors query batch \<longleftrightarrow>
     (\<forall>q db e. arity_ok q \<longrightarrow> snd (query q db) \<noteq> Err e) \<and>
     (\<forall>qs db e. (\<forall>q\<in>set qs. arity_ok q) \<longrightarrow> snd (batch qs db) \<noteq> Err e)"

section \<open>Operations\<close>

fun scylla_query_error_to_persistence_error :: "query_error \<Rightarrow> storage_error" where
  "scylla_query_error_to_persistence_error TimeoutError = StorageTimeout"
| "scylla_query_error_to_persistence_error DbWriteTimeout = StorageTimeout"
| "scylla_query_error_to_persistence_error (OtherQueryError e) = StorageInternalError e"

definition cl_key_range :: "cql_range_lease \<Rightarrow> key_range" where
  "cl_key_range l = \<lparr>lower_bound_inclusive = cl_key_lower_bound_inclusive l,
     upper_bound_exclusive = cl_key_upper_bound_exclusive l\<rparr>"

definition get_range_lease ::
    "'db sto_session \<Rightarrow> full_range_id \<Rightarrow> 'db \<Rightarrow> 'db \<times> (storage_error, cql_range_lease) outcome" where
  "get_range_lease query rid db =
     (case query (GET_RANGE_LEASE_QUERY (range_id rid)) db of
        (db, r) \<Rightarrow>
          (db, try_ok (map_err scylla_query_error_to_persistence_error r) (\<lambda>rows.
             case rows of
               S_Leases [l] \<Rightarrow> Ok l
             | S_Leases _ \<Rightarrow> Panic
             | S_Vals _ \<Rightarrow> Panic
             | S_None \<Rightarrow> Err StorageRangeDoesNotExist)))"

text \<open>The second and the third part of \<open>take_ownership_and_load_range\<close>, after the first read.\<close>

definition acquire_lease ::
    "'db sto_session \<Rightarrow> cql_range_lease \<Rightarrow> 'db \<Rightarrow> 'db \<times> (storage_error, i64) outcome" where
  "acquire_lease query cql_lease db =
     (let prev_leader_sequence_number = cl_leader_sequence_number cql_lease;
          new_leader_sequence_number = prev_leader_sequence_number + 1
      in case query (ACQUIRE_RANGE_LEASE_QUERY new_leader_sequence_number (cl_range_id cql_lease)
                       prev_leader_sequence_number) db of
           (db, r) \<Rightarrow> (db, try_ok (map_err scylla_query_error_to_persistence_error r)
             (\<lambda>_. Ok new_leader_sequence_number)))"

definition confirm_lease ::
    "'db sto_session \<Rightarrow> full_range_id \<Rightarrow> i64 \<Rightarrow> 'db \<Rightarrow> 'db \<times> (storage_error, range_info) outcome" where
  "confirm_lease query rid new_leader_sequence_number db =
     (case get_range_lease query rid db of
        (db, r) \<Rightarrow>
          (db, try_ok r (\<lambda>cql_lease.
             if cl_leader_sequence_number cql_lease \<noteq> new_leader_sequence_number
             then Err StorageRangeOwnershipLost
             else Ok \<lparr>ri_id = range_id rid, ri_key_range = cl_key_range cql_lease,
                      leader_sequence_number = new_leader_sequence_number,
                      epoch_lease = (er_lower_bound_inclusive (cl_epoch_lease cql_lease),
                                     er_upper_bound_inclusive (cl_epoch_lease cql_lease))\<rparr>)))"

definition sto_take_ownership ::
    "'db sto_session \<Rightarrow> full_range_id \<Rightarrow> 'db \<Rightarrow> 'db \<times> (storage_error, range_info) outcome" where
  "sto_take_ownership query rid db =
     (case get_range_lease query rid db of
        (db, Err e) \<Rightarrow> (db, Err e)
      | (db, Panic) \<Rightarrow> (db, Panic)
      | (db, Ok cql_lease) \<Rightarrow>
          (case acquire_lease query cql_lease db of
             (db, Err e) \<Rightarrow> (db, Err e)
           | (db, Panic) \<Rightarrow> (db, Panic)
           | (db, Ok n) \<Rightarrow> confirm_lease query rid n db))"

definition sto_renew_epoch_lease ::
    "'db sto_session \<Rightarrow> full_range_id \<Rightarrow> lease \<Rightarrow> u64 \<Rightarrow> 'db \<Rightarrow> 'db \<times> (storage_error, unit) outcome" where
  "sto_renew_epoch_lease query rid l leader db =
     (case query (RENEW_EPOCH_LEASE_QUERY \<lparr>er_lower_bound_inclusive = fst l, er_upper_bound_inclusive = snd l\<rparr>
                    (range_id rid) leader) db of
        (db, Err e) \<Rightarrow> (db, Err (scylla_query_error_to_persistence_error e))
      | (db, Panic) \<Rightarrow> (db, Panic)
      | (db, Ok _) \<Rightarrow>
          (case get_range_lease query rid db of
             (db, r) \<Rightarrow> (db, try_ok r (\<lambda>cql_lease.
                if cl_leader_sequence_number cql_lease \<noteq> leader then Err StorageRangeOwnershipLost else Ok ()))))"

definition sto_upsert ::
    "'db sto_session \<Rightarrow> full_range_id \<Rightarrow> bytes \<Rightarrow> bytes \<Rightarrow> key_version \<Rightarrow> 'db \<Rightarrow> 'db \<times> (storage_error, unit) outcome" where
  "sto_upsert query rid key val version db =
     (case query (UPSERT_QUERY (range_id rid) key (Some val) (kv_epoch version) False None) db of
        (db, r) \<Rightarrow> (db, try_ok (map_err scylla_query_error_to_persistence_error r) (\<lambda>_. Ok ())))"

definition sto_delete ::
    "'db sto_session \<Rightarrow> full_range_id \<Rightarrow> bytes \<Rightarrow> key_version \<Rightarrow> 'db \<Rightarrow> 'db \<times> (storage_error, unit) outcome" where
  "sto_delete query rid key version db =
     (case query (UPSERT_QUERY (range_id rid) key None (kv_epoch version) True (Some (version_counter version))) db of
        (db, r) \<Rightarrow> (db, try_ok (map_err scylla_query_error_to_persistence_error r) (\<lambda>_. Ok ())))"

text \<open>The two statement lists that \<open>batch_upsert\<close> collects.\<close>

fun batch_args :: "full_range_id \<Rightarrow> key_version \<Rightarrow> changes \<Rightarrow> sto_query list \<times> sto_query list" where
  "batch_args rid version [] = ([], [])"
| "batch_args rid version ((key, val) # cs) =
     (let (inserts, deletes) = batch_args rid version cs
      in case val of
           Some v \<Rightarrow> (UPSERT_QUERY (range_id rid) key (Some v) (kv_epoch version) False None # inserts, deletes)
         | None \<Rightarrow> (inserts, UPSERT_QUERY (range_id rid) key None (kv_epoch version) True
                       (Some (version_counter version)) # deletes))"

text \<open>A single insert is sent as a query, several ones as a batch, and deletes always as a batch.\<close>

definition sto_batch_upsert ::
    "'db sto_session \<Rightarrow> 'db sto_batch_session \<Rightarrow> full_range_id \<Rightarrow> changes \<Rightarrow> key_version \<Rightarrow> 'db \<Rightarrow>
     'db \<times> (storage_error, unit) outcome" where
  "sto_batch_upsert query batch rid cs version db =
     (let (inserts, deletes) = batch_args rid version cs;
          (db, r) = (case inserts of
              [] \<Rightarrow> (db, Ok ())
            | [q] \<Rightarrow> (case query q db of (db, r) \<Rightarrow> (db, try_ok r (\<lambda>_. Ok ())))
            | qs \<Rightarrow> batch qs db)
      in case r of
           Err e \<Rightarrow> (db, Err (scylla_query_error_to_persistence_error e))
         | Panic \<Rightarrow> (db, Panic)
         | Ok _ \<Rightarrow>
             if deletes = [] then (db, Ok ())
             else (case batch deletes db of (db, r) \<Rightarrow> (db, map_err scylla_query_error_to_persistence_error r)))"

definition sto_get ::
    "'db sto_session \<Rightarrow> full_range_id \<Rightarrow> bytes \<Rightarrow> 'db \<Rightarrow> 'db \<times> (storage_error, bytes option) outcome" where
  "sto_get query rid key db =
     (case query (GET_QUERY (range_id rid) key) db of
        (db, r) \<Rightarrow>
          (db, try_ok (map_err scylla_query_error_to_persistence_error r) (\<lambda>rows.
             case rows of
               S_None \<Rightarrow> Ok None
             | S_Vals [] \<Rightarrow> Ok None
             | S_Vals [row] \<Rightarrow> if is_tombstone row then Ok None else Ok (cv_value row)
             | _ \<Rightarrow> Panic)))"

text \<open>The implementation of the \<open>Storage\<close> trait that the range manager is given.\<close>

definition cassandra_storage :: "'db sto_session \<Rightarrow> 'db sto_batch_session \<Rightarrow> 'db storage" where
  "cassandra_storage query batch =
     \<lparr>take_ownership_and_load_range = sto_take_ownership query,
      renew_epoch_lease = sto_renew_epoch_lease query,
      batch_upsert = sto_batch_upsert query batch,
      storage_get = (\<lambda>rid key db. snd (sto_get query rid key db))\<rparr>"

section \<open>Statements that are executed\<close>

lemma sto_query_ok:
  assumes "serves sto_exec sto_batch query batch view" and "sto_no_errors query batch" and "arity_ok q"
  obtains db' where "query q db = (db', Ok (sto_select q (view db)))" "view db' = sto_apply q (view db)"
proof -
  obtain db' r where q: "query q db = (db', r)" by force
  have ne: "\<forall>e. r \<noteq> Err e" using assms(2,3) q unfolding sto_no_errors_def by (metis snd_conv)
  show ?thesis
  proof (rule serves_query [OF assms(1) q], goal_cases)
    case 1
    with q assms(3) show ?thesis by (intro that [of db']) (simp_all add: sto_exec_def)
  next
    case (2 e)
    with ne show ?thesis by simp
  qed
qed

lemma sto_batch_ok:
  assumes "serves sto_exec sto_batch query batch view" and "sto_no_errors query batch" and "\<forall>q\<in>set qs. arity_ok q"
  obtains db' where "batch qs db = (db', Ok ())" "view db' = fold sto_apply qs (view db)"
proof -
  obtain db' r where q: "batch qs db = (db', r)" by force
  have ne: "\<forall>e. r \<noteq> Err e" using assms(2,3) q unfolding sto_no_errors_def by (metis snd_conv)
  show ?thesis
  proof (rule serves_batch [OF assms(1) q], goal_cases)
    case 1
    with q assms(3) show ?thesis by (intro that [of db']) (simp_all add: sto_batch_def)
  next
    case (2 e)
    with ne show ?thesis by simp
  qed
qed

section \<open>Leases\<close>

text \<open>The lease of a range in the table.\<close>

definition lease_of :: "sto_rows \<Rightarrow> full_range_id \<Rightarrow> cql_range_lease \<Rightarrow> bool" where
  "lease_of rows rid l \<longleftrightarrow> range_leases rows (range_id rid) = Some l \<and> cl_range_id l = range_id rid"

lemma get_range_lease_ok:
  assumes "serves sto_exec sto_batch query batch view" and "sto_no_errors query batch" and "lease_of (view db) rid l"
  obtains db' where "get_range_lease query rid db = (db', Ok l)" "view db' = view db"
proof -
  let ?q = "GET_RANGE_LEASE_QUERY (range_id rid)"
  obtain db' where "query ?q db = (db', Ok (sto_select ?q (view db)))" "view db' = sto_apply ?q (view db)"
    by (rule sto_query_ok [OF assms(1,2), of ?q db]) auto
  with assms(3) that show ?thesis by (simp add: get_range_lease_def lease_of_def)
qed

lemma acquire_lease_ok:
  assumes "serves sto_exec sto_batch query batch view" and "sto_no_errors query batch"
    and "lease_of (view db) rid l" and "cl_range_id seen = range_id rid"
  obtains db' where "acquire_lease query seen db = (db', Ok (cl_leader_sequence_number seen + 1))"
    "lease_of (view db') rid (if cl_leader_sequence_number l = cl_leader_sequence_number seen
       then l\<lparr>cl_leader_sequence_number := cl_leader_sequence_number seen + 1\<rparr> else l)"
proof -
  let ?q = "ACQUIRE_RANGE_LEASE_QUERY (cl_leader_sequence_number seen + 1) (range_id rid) (cl_leader_sequence_number seen)"
  obtain db' where d: "query ?q db = (db', Ok (sto_select ?q (view db)))" "view db' = sto_apply ?q (view db)"
    by (rule sto_query_ok [OF assms(1,2), of ?q db]) auto
  show ?thesis
    by (rule that [of db']) (use d assms(3,4) in \<open>auto simp: acquire_lease_def lease_of_def Let_def\<close>)
qed

definition info_of :: "full_range_id \<Rightarrow> cql_range_lease \<Rightarrow> range_info" where
  "info_of rid l = \<lparr>ri_id = range_id rid, ri_key_range = cl_key_range l,
     leader_sequence_number = cl_leader_sequence_number l,
     epoch_lease = (er_lower_bound_inclusive (cl_epoch_lease l), er_upper_bound_inclusive (cl_epoch_lease l))\<rparr>"

lemma confirm_lease_ok:
  assumes "serves sto_exec sto_batch query batch view" and "sto_no_errors query batch" and "lease_of (view db) rid l"
  obtains db' where "confirm_lease query rid n db =
      (db', if cl_leader_sequence_number l = n then Ok (info_of rid l) else Err StorageRangeOwnershipLost)"
    "view db' = view db"
  by (rule get_range_lease_ok [OF assms]) (use that in \<open>auto simp: confirm_lease_def info_of_def\<close>)

lemma sto_take_ownership_ok:
  assumes s: "serves sto_exec sto_batch query batch view" "sto_no_errors query batch" and l: "lease_of (view db) rid l"
  obtains db' where "sto_take_ownership query rid db =
      (db', Ok (info_of rid (l\<lparr>cl_leader_sequence_number := cl_leader_sequence_number l + 1\<rparr>)))"
    "lease_of (view db') rid (l\<lparr>cl_leader_sequence_number := cl_leader_sequence_number l + 1\<rparr>)"
proof -
  let ?l = "l\<lparr>cl_leader_sequence_number := cl_leader_sequence_number l + 1\<rparr>"
  obtain db1 where d1: "get_range_lease query rid db = (db1, Ok l)" "view db1 = view db"
    using get_range_lease_ok [OF s l] .
  have l1: "lease_of (view db1) rid l" and r: "cl_range_id l = range_id rid" using l d1 by (auto simp: lease_of_def)
  obtain db2 where d2: "acquire_lease query l db1 = (db2, Ok (cl_leader_sequence_number l + 1))"
    "lease_of (view db2) rid ?l" by (rule acquire_lease_ok [OF s l1 r]) simp
  obtain db3 where d3: "confirm_lease query rid (cl_leader_sequence_number l + 1) db2 = (db3, Ok (info_of rid ?l))"
    "view db3 = view db2" by (rule confirm_lease_ok [OF s d2(2), of "cl_leader_sequence_number l + 1"]) simp
  from d1 d2 d3 that show ?thesis by (simp add: sto_take_ownership_def)
qed

lemma sto_renew_ok:
  assumes s: "serves sto_exec sto_batch query batch view" "sto_no_errors query batch" and l: "lease_of (view db) rid l"
  obtains db' where "sto_renew_epoch_lease query rid new leader db =
      (db', if cl_leader_sequence_number l = leader then Ok () else Err StorageRangeOwnershipLost)"
    "lease_of (view db') rid (if cl_leader_sequence_number l = leader
       then l\<lparr>cl_epoch_lease := \<lparr>er_lower_bound_inclusive = fst new, er_upper_bound_inclusive = snd new\<rparr>\<rparr> else l)"
proof -
  let ?e = "\<lparr>er_lower_bound_inclusive = fst new, er_upper_bound_inclusive = snd new\<rparr>"
  let ?q = "RENEW_EPOCH_LEASE_QUERY ?e (range_id rid) leader"
  let ?l = "if cl_leader_sequence_number l = leader then l\<lparr>cl_epoch_lease := ?e\<rparr> else l"
  obtain db1 where d1: "query ?q db = (db1, Ok (sto_select ?q (view db)))" "view db1 = sto_apply ?q (view db)"
    by (rule sto_query_ok [OF s, of ?q db]) auto
  then have l1: "lease_of (view db1) rid ?l" using l by (auto simp: lease_of_def)
  obtain db2 where d2: "get_range_lease query rid db1 = (db2, Ok ?l)" "view db2 = view db1"
    using get_range_lease_ok [OF s l1] .
  with d1 l1 that show ?thesis by (simp add: sto_renew_epoch_lease_def split: if_splits)
qed

section \<open>Records\<close>

definition newest_first :: "(i64 \<times> cql_val) list \<Rightarrow> bool" where
  "newest_first vs \<longleftrightarrow> sorted_wrt (\<lambda>a b. sint (fst b) < sint (fst a)) vs"

definition records_ok :: "sto_rows \<Rightarrow> bool" where
  "records_ok rows \<longleftrightarrow> (\<forall>k. newest_first (records rows k))"

lemma set_upsert_version: "fst ` set (upsert_version e v d vs) = insert e (fst ` set vs)"
  by (induction e v d vs rule: upsert_version.induct) (simp_all add: insert_commute)

lemma newest_first_upsert: "newest_first vs \<Longrightarrow> newest_first (upsert_version e v d vs)"
proof (induction vs)
  case (Cons a vs)
  obtain e' r where a: "a = (e', r)" by force
  have "sint x < sint e'" if "x \<in> fst ` set (upsert_version e v d vs)" "\<not> sint e' < sint e" "e' \<noteq> e" for x
  proof -
    have "sint e < sint e'" using that(2,3) by (metis linorder_neqE_linordered_idom signed_word_eqI)
    with that(1) Cons.prems a show ?thesis unfolding set_upsert_version by (auto simp: newest_first_def)
  qed
  with Cons a show ?case by (auto simp: newest_first_def)
qed (simp add: newest_first_def)

text \<open>What a read returns of the versions of a key.\<close>

definition read_version :: "(i64 \<times> cql_val) list \<Rightarrow> bytes option" where
  "read_version vs = (case vs of [] \<Rightarrow> None | (e, r) # _ \<Rightarrow> if is_tombstone r then None else cv_value r)"

lemma read_upsert_version:
  assumes "newest_first vs"
  shows "read_version (upsert_version e (Some v) False vs) =
      (if \<forall>e'\<in>fst ` set vs. sint e' \<le> sint e then Some v else read_version vs)" (is "?put")
    and "read_version (upsert_version e None True vs) =
      (if \<forall>e'\<in>fst ` set vs. sint e' \<le> sint e then None else read_version vs)" (is "?delete")
proof -
  have "?put \<and> ?delete"
  proof (cases vs)
    case (Cons a vs')
    obtain e' r where a: "a = (e', r)" by force
    have old: "sint x < sint e'" if "x \<in> fst ` set vs'" for x
      using assms that a Cons by (auto simp: newest_first_def)
    show ?thesis
    proof (cases "sint e' \<le> sint e")
      case True
      then have "sint e' < sint e \<or> e' = e" by (metis order_le_less signed_word_eqI)
      moreover have "\<forall>x\<in>fst ` set vs. sint x \<le> sint e" using True old a Cons by fastforce
      ultimately show ?thesis using a Cons by (auto simp: read_version_def)
    next
      case False
      then show ?thesis using a Cons by (auto simp: read_version_def)
    qed
  qed (simp add: read_version_def)
  then show "?put" "?delete" by simp_all
qed

lemma sto_get_ok:
  assumes "serves sto_exec sto_batch query batch view" and "sto_no_errors query batch"
  shows "snd (sto_get query rid key db) = Ok (read_version (records (view db) (range_id rid, key)))"
proof -
  let ?q = "GET_QUERY (range_id rid) key"
  obtain db' where "query ?q db = (db', Ok (sto_select ?q (view db)))" "view db' = sto_apply ?q (view db)"
    by (rule sto_query_ok [OF assms, of ?q db]) auto
  then show ?thesis by (simp add: sto_get_def read_version_def split: list.splits prod.splits)
qed

text \<open>The effect of the inserts of a batch.\<close>

definition put_query :: "full_range_id \<Rightarrow> key_version \<Rightarrow> bytes \<times> bytes \<Rightarrow> sto_query" where
  "put_query rid version kv = UPSERT_QUERY (range_id rid) (fst kv) (Some (snd kv)) (kv_epoch version) False None"

definition puts_of :: "changes \<Rightarrow> (bytes \<times> bytes) list" where
  "puts_of cs = [(k, v). (k, Some v) \<leftarrow> cs]"

definition delete_queries :: "full_range_id \<Rightarrow> key_version \<Rightarrow> changes \<Rightarrow> sto_query list" where
  "delete_queries rid version cs =
     [UPSERT_QUERY (range_id rid) k None (kv_epoch version) True (Some (version_counter version)). (k, None) \<leftarrow> cs]"

lemma batch_args_eq:
  "batch_args rid version cs = (map (put_query rid version) (puts_of cs), delete_queries rid version cs)"
  by (induction rid version cs rule: batch_args.induct)
    (auto simp: puts_of_def put_query_def delete_queries_def Let_def split: option.splits)

lemma fold_puts:
  "distinct (map fst kvs) \<Longrightarrow> records (fold sto_apply (map (put_query rid version) kvs) rows) (r, k) =
     (case map_of kvs k of
        Some v \<Rightarrow> if r = range_id rid then upsert_version (kv_epoch version) (Some v) False (records rows (r, k))
                  else records rows (r, k)
      | None \<Rightarrow> records rows (r, k))"
  by (induction kvs arbitrary: rows)
    (auto simp: put_query_def map_of_eq_None_iff image_iff split: option.splits dest: map_of_SomeD)

lemma send_puts:
  assumes s: "serves sto_exec sto_batch query batch view" "sto_no_errors query batch"
    and sent: "(case map (put_query rid version) kvs of
          [] \<Rightarrow> (db, Ok ())
        | [q] \<Rightarrow> (case query q db of (db, r) \<Rightarrow> (db, try_ok r (\<lambda>_. Ok ())))
        | qs \<Rightarrow> batch qs db) = (db', r)"
  shows "r = Ok () \<and> view db' = fold sto_apply (map (put_query rid version) kvs) (view db)"
proof -
  have ar: "arity_ok (put_query rid version kv)" for kv by (simp add: put_query_def)
  consider "kvs = []" | kv where "kvs = [kv]" | kv kv' kvs' where "kvs = kv # kv' # kvs'"
    by (metis neq_Nil_conv)
  then show ?thesis
  proof cases
    case 1
    with sent show ?thesis by simp
  next
    case (2 kv)
    obtain db1 where "query (put_query rid version kv) db = (db1, Ok (sto_select (put_query rid version kv) (view db)))"
      "view db1 = sto_apply (put_query rid version kv) (view db)"
      using sto_query_ok [OF s ar] .
    with 2 sent show ?thesis by simp
  next
    case (3 kv kv' kvs')
    have "\<forall>q\<in>set (map (put_query rid version) kvs). arity_ok q" using ar by auto
    from sto_batch_ok [OF s this, of db] obtain db1 where
      "batch (map (put_query rid version) kvs) db = (db1, Ok ())"
      "view db1 = fold sto_apply (map (put_query rid version) kvs) (view db)" by blast
    with 3 sent show ?thesis by simp
  qed
qed

section \<open>Properties\<close>

text \<open>A session over the rows that refuses wrong numbers of values.\<close>

definition rows_sto_query :: "sto_rows sto_session" where
  "rows_sto_query q rows = (if arity_ok q then rows_query sto_exec q rows else (rows, Err (OtherQueryError ''values'')))"

definition rows_sto_batch :: "sto_rows sto_batch_session" where
  "rows_sto_batch qs rows = (if \<forall>q\<in>set qs. arity_ok q then rows_batch sto_batch qs rows
     else (rows, Err (OtherQueryError ''values'')))"

lemma rows_sto_session:
  "serves sto_exec sto_batch rows_sto_query rows_sto_batch (\<lambda>rows. rows)"
  "sto_no_errors rows_sto_query rows_sto_batch"
  by (simp_all add: serves_def rows_sto_query_def rows_sto_batch_def rows_query_def rows_batch_def
      sto_no_errors_def sto_exec_def sto_batch_def)

definition wit_lease :: cql_range_lease where
  "wit_lease = \<lparr>cl_range_id = 5, cl_epoch_lease = \<lparr>er_lower_bound_inclusive = 1, er_upper_bound_inclusive = 9\<rparr>,
     cl_key_lower_bound_inclusive = None, cl_key_upper_bound_exclusive = None, cl_leader_sequence_number = 3,
     cl_safe_snapshot_epochs = \<lparr>er_lower_bound_inclusive = 1, er_upper_bound_inclusive = 0\<rparr>\<rparr>"

definition wit_sto :: sto_rows where
  "wit_sto = \<lparr>range_leases = [5 \<mapsto> wit_lease],
     records = (\<lambda>_. [])((5, [7]) := [(4, \<lparr>cv_value = Some [1], is_tombstone = False\<rparr>)])\<rparr>"

abbreviation wit_rid :: full_range_id where
  "wit_rid \<equiv> \<lparr>keyspace_id = 1, range_id = 5\<rparr>"

lemma wit_lease_of: "lease_of wit_sto wit_rid wit_lease"
  by (simp add: lease_of_def wit_sto_def wit_lease_def)

lemma wit_records_ok: "records_ok wit_sto"
  by (auto simp: records_ok_def wit_sto_def newest_first_def)

text \<open>
  C15: When two servers take a range over one after the other, on a database that reports no errors,
  only the second one keeps it. Taking
  ownership raises the leader sequence number by one and returns the stored lease; after a second
  takeover the first owner can no longer renew its lease, which stays as it is, while the new owner
  can, and its lease is the one stored.
\<close>

theorem takeover_fences_old_owner:
  assumes "serves sto_exec sto_batch query batch view" and "sto_no_errors query batch"
    and "lease_of (view db) rid l"
    and "sto_take_ownership query rid db = (db1, r1)" and "sto_take_ownership query rid db1 = (db2, r2)"
    and "sto_renew_epoch_lease query rid old_lease (cl_leader_sequence_number l + 1) db2 = (db3, r3)"
    and "sto_renew_epoch_lease query rid new_lease (cl_leader_sequence_number l + 2) db3 = (db4, r4)"
  shows "r1 = Ok (info_of rid (l\<lparr>cl_leader_sequence_number := cl_leader_sequence_number l + 1\<rparr>)) \<and>
    r2 = Ok (info_of rid (l\<lparr>cl_leader_sequence_number := cl_leader_sequence_number l + 2\<rparr>)) \<and>
    r3 = Err StorageRangeOwnershipLost \<and> r4 = Ok () \<and>
    lease_of (view db3) rid (l\<lparr>cl_leader_sequence_number := cl_leader_sequence_number l + 2\<rparr>) \<and>
    lease_of (view db4) rid (l\<lparr>cl_leader_sequence_number := cl_leader_sequence_number l + 2,
      cl_epoch_lease := \<lparr>er_lower_bound_inclusive = fst new_lease, er_upper_bound_inclusive = snd new_lease\<rparr>\<rparr>)"
proof -
  note s = assms(1,2)
  let ?l1 = "l\<lparr>cl_leader_sequence_number := cl_leader_sequence_number l + 1\<rparr>"
  let ?l2 = "l\<lparr>cl_leader_sequence_number := cl_leader_sequence_number l + 2\<rparr>"
  have a: "r1 = Ok (info_of rid ?l1)" "lease_of (view db1) rid ?l1"
    using sto_take_ownership_ok [OF s assms(3)] assms(4) by (metis prod.inject)+
  have b: "r2 = Ok (info_of rid ?l2)" "lease_of (view db2) rid ?l2"
    by (rule sto_take_ownership_ok [OF s a(2)], simp add: assms(5) add.assoc)+
  have c: "r3 = Err StorageRangeOwnershipLost" "lease_of (view db3) rid ?l2"
    by (rule sto_renew_ok [OF s b(2), of old_lease "cl_leader_sequence_number l + 1"], simp add: assms(6))+
  have d: "r4 = Ok ()" "lease_of (view db4) rid (?l2\<lparr>cl_epoch_lease :=
      \<lparr>er_lower_bound_inclusive = fst new_lease, er_upper_bound_inclusive = snd new_lease\<rparr>\<rparr>)"
    by (rule sto_renew_ok [OF s c(2), of new_lease "cl_leader_sequence_number l + 2"], simp add: assms(7))+
  from a b c d show ?thesis by simp
qed

theorem takeover_fences_old_owner_witness:
  "snd (sto_renew_epoch_lease rows_sto_query wit_rid (2, 8) 4 (fst (sto_take_ownership rows_sto_query wit_rid
     (fst (sto_take_ownership rows_sto_query wit_rid wit_sto))))) = Err StorageRangeOwnershipLost"
  using takeover_fences_old_owner [where view = "\<lambda>rows. rows" and old_lease = "(2, 8)", OF rows_sto_session(1,2)
      wit_lease_of surjective_pairing surjective_pairing surjective_pairing surjective_pairing]
  by (simp add: wit_lease_def)

text \<open>
  C34: When two servers take a range over at the same time, both can succeed. If both have read the
  lease before either of them updates it, the update of the second one is not applied, but the
  number it then reads back is the one it wanted to write: both are told that they own the range,
  with the same leader sequence number, and both can renew the lease.
\<close>

theorem concurrent_takeovers_both_succeed:
  assumes "serves sto_exec sto_batch query batch view" and "sto_no_errors query batch"
    and "lease_of (view db) rid l"
    and "get_range_lease query rid db = (db1, Ok la)" and "get_range_lease query rid db1 = (db2, Ok lb)"
    and "acquire_lease query la db2 = (db3, Ok na)" and "acquire_lease query lb db3 = (db4, Ok nb)"
    and "confirm_lease query rid na db4 = (db5, ra)" and "confirm_lease query rid nb db5 = (db6, rb)"
    and "sto_renew_epoch_lease query rid lease_a na db6 = (db7, r7)"
    and "sto_renew_epoch_lease query rid lease_b nb db7 = (db8, r8)"
  shows "ra = Ok (info_of rid (l\<lparr>cl_leader_sequence_number := cl_leader_sequence_number l + 1\<rparr>)) \<and> rb = ra \<and>
    r7 = Ok () \<and> r8 = Ok ()"
proof -
  note s = assms(1,2)
  let ?l1 = "l\<lparr>cl_leader_sequence_number := cl_leader_sequence_number l + 1\<rparr>"
  have 1: "la = l" "lease_of (view db1) rid l"
    by (rule get_range_lease_ok [OF s assms(3)], simp add: assms(3,4))+
  have 2: "lb = l" "lease_of (view db2) rid l"
    by (rule get_range_lease_ok [OF s 1(2)], simp add: 1(2) assms(5))+
  have r: "cl_range_id l = range_id rid" using assms(3) by (simp add: lease_of_def)
  have 3: "na = cl_leader_sequence_number l + 1" "lease_of (view db3) rid ?l1"
    by (rule acquire_lease_ok [OF s 2(2) r], simp add: assms(6) [unfolded 1(1)])+
  have 4: "nb = cl_leader_sequence_number l + 1" "lease_of (view db4) rid ?l1"
    by (rule acquire_lease_ok [OF s 3(2) r], simp add: assms(7) [unfolded 2(1)])+
  have 5: "ra = Ok (info_of rid ?l1)" "lease_of (view db5) rid ?l1"
    by (rule confirm_lease_ok [OF s 4(2), of "cl_leader_sequence_number l + 1"], simp add: assms(8) [unfolded 3(1)] 4(2))+
  have 6: "rb = Ok (info_of rid ?l1)" "lease_of (view db6) rid ?l1"
    by (rule confirm_lease_ok [OF s 5(2), of "cl_leader_sequence_number l + 1"], simp add: assms(9) [unfolded 4(1)] 5(2))+
  have 7: "r7 = Ok ()" "lease_of (view db7) rid (?l1\<lparr>cl_epoch_lease :=
      \<lparr>er_lower_bound_inclusive = fst lease_a, er_upper_bound_inclusive = snd lease_a\<rparr>\<rparr>)"
    by (rule sto_renew_ok [OF s 6(2), of lease_a "cl_leader_sequence_number l + 1"], simp add: assms(10) [unfolded 3(1)])+
  have 8: "r8 = Ok ()"
    by (rule sto_renew_ok [OF s 7(2), of lease_b "cl_leader_sequence_number l + 1"]) (simp add: assms(11) [unfolded 4(1)])
  from 5 6 7 8 show ?thesis by simp
qed

lemma rows_acquire: "acquire_lease rows_sto_query l rows = (fst (acquire_lease rows_sto_query l rows),
    Ok (cl_leader_sequence_number l + 1))"
  by (simp add: acquire_lease_def Let_def rows_sto_query_def rows_query_def)

theorem concurrent_takeovers_both_succeed_witness:
  "\<exists>db3 db4. acquire_lease rows_sto_query wit_lease wit_sto = (db3, Ok 4) \<and>
     acquire_lease rows_sto_query wit_lease db3 = (db4, Ok 4) \<and>
     snd (confirm_lease rows_sto_query wit_rid 4 db4) =
       Ok (info_of wit_rid (wit_lease\<lparr>cl_leader_sequence_number := 4\<rparr>))"
proof -
  have g: "get_range_lease rows_sto_query wit_rid wit_sto = (wit_sto, Ok wit_lease)"
    by (simp add: get_range_lease_def rows_sto_query_def rows_query_def sto_exec_def wit_sto_def)
  have n: "cl_leader_sequence_number wit_lease + 1 = 4" by (simp add: wit_lease_def)
  note spec = concurrent_takeovers_both_succeed [where view = "\<lambda>rows. rows", OF rows_sto_session(1,2) wit_lease_of g g
      rows_acquire rows_acquire surjective_pairing surjective_pairing surjective_pairing surjective_pairing]
  have a: "acquire_lease rows_sto_query wit_lease rows = (fst (acquire_lease rows_sto_query wit_lease rows), Ok 4)" for rows
    using rows_acquire [of wit_lease] unfolding n .
  note c = spec [THEN conjunct1, unfolded n]
  show ?thesis by (intro exI conjI, rule a, rule a, rule c)
qed

lemma map_of_puts:
  "distinct (hm_keys cs) \<Longrightarrow> map_of (puts_of cs) k = (case map_of cs k of Some (Some v) \<Rightarrow> Some v | _ \<Rightarrow> None)"
proof (induction cs)
  case (Cons c cs)
  obtain k' v where c: "c = (k', v)" by force
  with Cons.prems have "map_of cs k' = None" "distinct (hm_keys cs)" by (auto simp: map_of_eq_None_iff)
  with Cons.IH c show ?case by (cases "k = k'"; cases v) (simp_all add: puts_of_def)
qed (simp add: puts_of_def)

lemma distinct_puts: "distinct (hm_keys cs) \<Longrightarrow> distinct (map fst (puts_of cs))"
  by (induction cs) (force simp: puts_of_def split: option.splits)+

text \<open>What the table holds after the puts of a batch.\<close>

lemma read_after_puts:
  assumes "records_ok rows" and "distinct (hm_keys cs)"
    and "rows' = fold sto_apply (map (put_query rid version) (puts_of cs)) rows"
  shows "records_ok rows'"
    and "read_version (records rows' (range_id rid, key)) =
      (case map_of cs key of
         Some (Some v) \<Rightarrow>
           if \<forall>e\<in>fst ` set (records rows (range_id rid, key)). sint e \<le> sint (kv_epoch version) then Some v
           else read_version (records rows (range_id rid, key))
       | _ \<Rightarrow> read_version (records rows (range_id rid, key)))"
proof -
  note f = fold_puts [OF distinct_puts [OF assms(2)], of rid version rows, folded assms(3)]
  have ok: "newest_first (records rows k)" for k using assms(1) unfolding records_ok_def by blast
  show "records_ok rows'"
    unfolding records_ok_def split_paired_All f using ok newest_first_upsert by (auto split: option.splits)
  show "read_version (records rows' (range_id rid, key)) =
      (case map_of cs key of
         Some (Some v) \<Rightarrow>
           if \<forall>e\<in>fst ` set (records rows (range_id rid, key)). sint e \<le> sint (kv_epoch version) then Some v
           else read_version (records rows (range_id rid, key))
       | _ \<Rightarrow> read_version (records rows (range_id rid, key)))"
    unfolding f map_of_puts [OF assms(2)] by (auto simp: read_upsert_version [OF ok] split: option.splits)
qed



lemma fold_deletes:
  "distinct (hm_keys cs) \<Longrightarrow> records (fold sto_apply (delete_queries rid version cs) rows) (r, k) =
     (if map_of cs k = Some None \<and> r = range_id rid then upsert_version (kv_epoch version) None True (records rows (r, k))
      else records rows (r, k))"
proof (induction cs arbitrary: rows)
  case (Cons c cs)
  obtain k' v where c: "c = (k', v)" by force
  have "map_of cs k' = None" using Cons.prems c by (auto simp: map_of_eq_None_iff)
  with Cons c show ?case by (cases v) (auto simp: delete_queries_def)
qed (simp add: delete_queries_def)

text \<open>What the table holds after the deletes of a batch.\<close>

lemma read_after_deletes:
  assumes "records_ok rows" and "distinct (hm_keys cs)"
    and "rows' = fold sto_apply (delete_queries rid version cs) rows"
  shows "records_ok rows'"
    and "map_of cs key \<noteq> Some None \<Longrightarrow> records rows' (range_id rid, key) = records rows (range_id rid, key)"
    and "map_of cs key = Some None \<Longrightarrow> read_version (records rows' (range_id rid, key)) =
      (if \<forall>e\<in>fst ` set (records rows (range_id rid, key)). sint e \<le> sint (kv_epoch version) then None
       else read_version (records rows (range_id rid, key)))"
proof -
  note f = fold_deletes [OF assms(2), of rid version rows, folded assms(3)]
  have ok: "newest_first (records rows k)" for k using assms(1) unfolding records_ok_def by blast
  show "records_ok rows'"
    unfolding records_ok_def split_paired_All f using ok newest_first_upsert by auto
qed (simp_all add: fold_deletes assms read_upsert_version assms(1) [unfolded records_ok_def])

text \<open>
  The two halves of a batch: the puts, of which a session without errors takes all, and then the
  deletes, which it takes or refuses as a whole.
\<close>

lemma batch_upsert_halves:
  assumes "serves sto_exec sto_batch query batch view" and "sto_no_errors query batch"
    and "sto_batch_upsert query batch rid cs version db = (db', r)"
  obtains deleted mid where "mid = fold sto_apply (map (put_query rid version) (puts_of cs)) (view db)"
    and "view db' = (if deleted then fold sto_apply (delete_queries rid version cs) mid else mid)"
    and "r = Ok () \<longrightarrow> deleted" and "r = Ok () \<or> (\<exists>e. r = Err e) \<and> delete_queries rid version cs \<noteq> []"
proof -
  let ?ds = "delete_queries rid version cs"
  obtain db1 r1 where sent: "(case map (put_query rid version) (puts_of cs) of
          [] \<Rightarrow> (db, Ok ())
        | [q] \<Rightarrow> (case query q db of (db, r) \<Rightarrow> (db, try_ok r (\<lambda>_. Ok ())))
        | qs \<Rightarrow> batch qs db) = (db1, r1)" by force
  note p = send_puts [OF assms(1,2) sent]
  obtain db2 r2 where b: "batch ?ds db1 = (db2, r2)" by force
  show ?thesis
  proof (cases "?ds = []")
    case True
    with assms(3) p have "r = Ok ()" "view db' = view db1"
      unfolding sto_batch_upsert_def batch_args_eq Let_def split sent by auto
    with True p show ?thesis by (intro that [of "view db1" True]) auto
  next
    case False
    with assms(3) p b have r: "r = map_err scylla_query_error_to_persistence_error r2" "db' = db2"
      unfolding sto_batch_upsert_def batch_args_eq Let_def split sent by auto
    show ?thesis
    proof (rule serves_batch [OF assms(1) b], goal_cases)
      case 1
      with r p show ?thesis by (intro that [of "view db1" True]) (auto simp: sto_batch_def)
    next
      case (2 e)
      then consider "view db2 = view db1" | "view db2 = fold sto_apply ?ds (view db1)"
        by (auto simp: sto_batch_def)
      then show ?thesis
        using that [of "view db1" False] that [of "view db1" True] 2 r p False by cases auto
    qed
  qed
qed

lemma read_after_delete:
  assumes "serves sto_exec sto_batch query batch view" and "sto_no_errors query batch"
    and "records_ok (view db)" and "sto_delete query rid gone version db = (db', Ok ())"
  shows "snd (sto_get query rid key db') =
    (if key = gone \<and> (\<forall>e\<in>fst ` set (records (view db) (range_id rid, key)). sint e \<le> sint (kv_epoch version))
     then Ok None else snd (sto_get query rid key db))"
proof -
  let ?q = "UPSERT_QUERY (range_id rid) gone None (kv_epoch version) True (Some (version_counter version))"
  obtain db1 r1 where q: "query ?q db = (db1, r1)" by force
  with assms(4) have "db1 = db'" "\<forall>e. r1 \<noteq> Err e" by (cases r1; simp add: sto_delete_def)+
  then have "view db' = sto_apply ?q (view db)"
    by (rule_tac serves_query [OF assms(1) q]) (simp_all add: sto_exec_def)
  then show ?thesis
    using assms(3) by (auto simp: sto_get_ok [OF assms(1,2)] read_upsert_version records_ok_def)
qed

text \<open>
  C35: A batch of changes is stored in two halves. The puts are sent first: whatever the call returns,
  a put value is read back if no version of its key with a later epoch is stored. The deletes follow
  as a whole. If the call succeeds, a deleted key reads as absent unless a version with a later epoch
  is stored; if it fails, which it does only because of the deletes, either all of them have been
  stored or none, so that the puts of a failed batch can be seen without its deletes. The same holds
  of a single delete that succeeds, and in each case every other key of the range reads as before. A
  session without errors for statements with the right number of values is assumed; whether it takes
  the deletes, which pass one value too many, is left open.
\<close>

theorem batch_is_stored_in_halves:
  assumes "serves sto_exec sto_batch query batch view" and "sto_no_errors query batch"
    and "records_ok (view db)" and "distinct (hm_keys cs)"
    and "sto_batch_upsert query batch rid cs version db = (db', r)"
  shows "(\<exists>deleted. (r = Ok () \<longrightarrow> deleted) \<and> (r = Ok () \<or> (\<exists>e. r = Err e) \<and> None \<in> snd ` set cs) \<and>
      (\<forall>key. snd (sto_get query rid key db') =
        (if (\<exists>e\<in>fst ` set (records (view db) (range_id rid, key)). sint e > sint (kv_epoch version))
         then snd (sto_get query rid key db)
         else case map_of cs key of
                Some (Some v) \<Rightarrow> Ok (Some v)
              | Some None \<Rightarrow> if deleted then Ok None else snd (sto_get query rid key db)
              | None \<Rightarrow> snd (sto_get query rid key db)))) \<and>
    (\<forall>gone db2. sto_delete query rid gone version db = (db2, Ok ()) \<longrightarrow>
      (\<forall>key. snd (sto_get query rid key db2) =
        (if key = gone \<and> (\<forall>e\<in>fst ` set (records (view db) (range_id rid, key)). sint e \<le> sint (kv_epoch version))
         then Ok None else snd (sto_get query rid key db))))"
proof (intro conjI allI impI)
  note get = sto_get_ok [OF assms(1,2)]
  obtain deleted mid where h: "mid = fold sto_apply (map (put_query rid version) (puts_of cs)) (view db)"
    "view db' = (if deleted then fold sto_apply (delete_queries rid version cs) mid else mid)"
    "r = Ok () \<longrightarrow> deleted" "r = Ok () \<or> (\<exists>e. r = Err e) \<and> delete_queries rid version cs \<noteq> []"
    using batch_upsert_halves [OF assms(1,2,5)] .
  note p = read_after_puts [OF assms(3,4) h(1)]
  note d = read_after_deletes [OF p(1) assms(4), of "fold sto_apply (delete_queries rid version cs) mid" rid version]
  have same: "records mid (range_id rid, key) = records (view db) (range_id rid, key)" if "map_of cs key = Some None" for key
    unfolding h(1) fold_puts [OF distinct_puts [OF assms(4)]] map_of_puts [OF assms(4)] using that by simp
  have "None \<in> snd ` set cs" if "delete_queries rid version cs \<noteq> []"
    using that by (force simp: delete_queries_def split: option.splits)
  moreover have "read_version (records (view db') (range_id rid, key)) =
      (if (\<exists>e\<in>fst ` set (records (view db) (range_id rid, key)). sint e > sint (kv_epoch version))
       then read_version (records (view db) (range_id rid, key))
       else case map_of cs key of
              Some (Some v) \<Rightarrow> Some v
            | Some None \<Rightarrow> if deleted then None else read_version (records (view db) (range_id rid, key))
            | None \<Rightarrow> read_version (records (view db) (range_id rid, key)))" for key
    using p(2) [of key] d(2,3) [of key] same [of key] h(2)
    by (cases "map_of cs key = Some None") (auto simp: linorder_not_le split: option.splits if_splits)
  ultimately show "\<exists>deleted. (r = Ok () \<longrightarrow> deleted) \<and> (r = Ok () \<or> (\<exists>e. r = Err e) \<and> None \<in> snd ` set cs) \<and>
      (\<forall>key. snd (sto_get query rid key db') =
        (if (\<exists>e\<in>fst ` set (records (view db) (range_id rid, key)). sint e > sint (kv_epoch version))
         then snd (sto_get query rid key db)
         else case map_of cs key of
                Some (Some v) \<Rightarrow> Ok (Some v)
              | Some None \<Rightarrow> if deleted then Ok None else snd (sto_get query rid key db)
              | None \<Rightarrow> snd (sto_get query rid key db)))"
    using h(3,4) by (intro exI [of _ deleted]) (auto simp: get split: option.splits)
qed (simp add: read_after_delete [OF assms(1-3)])

text \<open>
  The theorem on two sessions: one that takes six values, where the key \<open>[7]\<close> is deleted, and one that
  refuses them, where the call fails and the put of \<open>[8]\<close> is there.
\<close>

definition wit_changes :: changes where
  "wit_changes = [([7], None), ([8], Some [3])]"

definition wit_version :: key_version where
  "wit_version = \<lparr>kv_epoch = 6, version_counter = 0\<rparr>"

lemma taking_session:
  "serves sto_exec sto_batch (rows_query sto_exec) (rows_batch sto_batch) (\<lambda>rows. rows)"
  "sto_no_errors (rows_query sto_exec) (rows_batch sto_batch)"
  by (simp_all add: serves_def rows_query_def rows_batch_def sto_no_errors_def)

theorem batch_is_stored_in_halves_witness:
  "snd (sto_batch_upsert (rows_query sto_exec) (rows_batch sto_batch) wit_rid wit_changes wit_version wit_sto) = Ok () \<and>
   snd (sto_get (rows_query sto_exec) wit_rid [7]
     (fst (sto_batch_upsert (rows_query sto_exec) (rows_batch sto_batch) wit_rid wit_changes wit_version wit_sto))) = Ok None \<and>
   (\<exists>e. snd (sto_batch_upsert rows_sto_query rows_sto_batch wit_rid wit_changes wit_version wit_sto) = Err e) \<and>
   snd (sto_get rows_sto_query wit_rid [8]
     (fst (sto_batch_upsert rows_sto_query rows_sto_batch wit_rid wit_changes wit_version wit_sto))) = Ok (Some [3])"
proof -
  have cs: "distinct (hm_keys wit_changes)" by (simp add: wit_changes_def)
  have ok: "snd (sto_batch_upsert (rows_query sto_exec) (rows_batch sto_batch) wit_rid wit_changes wit_version wit_sto) = Ok ()"
    by (simp add: sto_batch_upsert_def wit_changes_def rows_query_def rows_batch_def)
  have err: "\<exists>e. snd (sto_batch_upsert rows_sto_query rows_sto_batch wit_rid wit_changes wit_version wit_sto) = Err e"
    by (simp add: sto_batch_upsert_def wit_changes_def rows_sto_query_def rows_query_def rows_sto_batch_def)
  note t = batch_is_stored_in_halves [where view = "\<lambda>rows. rows", OF taking_session wit_records_ok cs surjective_pairing,
      of wit_rid wit_version, THEN conjunct1]
  note u = batch_is_stored_in_halves [where view = "\<lambda>rows. rows", OF rows_sto_session wit_records_ok cs surjective_pairing,
      of wit_rid wit_version, THEN conjunct1]
  have "snd (sto_get (rows_query sto_exec) wit_rid [7]
      (fst (sto_batch_upsert (rows_query sto_exec) (rows_batch sto_batch) wit_rid wit_changes wit_version wit_sto))) = Ok None"
    using t ok by (auto simp: wit_changes_def wit_version_def wit_sto_def dest!: spec [of _ "[7]"])
  moreover have "snd (sto_get rows_sto_query wit_rid [8]
      (fst (sto_batch_upsert rows_sto_query rows_sto_batch wit_rid wit_changes wit_version wit_sto))) = Ok (Some [3])"
    using u by (auto simp: wit_changes_def wit_version_def wit_sto_def dest!: spec [of _ "[8]"])
  ultimately show ?thesis using ok err by blast
qed

end
