(* ===== verification/Region.thy ===== *)
theory Region
  imports Prelude
begin

text \<open>
  Clouds, regions, zones and hosts (\<open>common/src/region.rs\<close>, \<open>common/src/host_info.rs\<close>): their
  string form, which is also their serialised form in configuration files, and its parser.
\<close>

section \<open>Data\<close>

datatype cloud = Aws | Azure | Gcp | Other_Cloud string

record region =
  reg_cloud :: "cloud option"
  reg_name :: string

record zone =
  zone_region :: region
  zone_name :: string

record host_identity =
  hi_name :: string
  hi_zone :: zone

record host_info =
  hi_identity :: host_identity
  hi_address :: string
  warden_connection_epoch :: u64

text \<open>The protobuf messages; the enumeration of public clouds is a number on the wire.\<close>

datatype proto_cloud = PublicCloud nat | OtherCloud string

record proto_region =
  pr_cloud :: "proto_cloud option"
  pr_name :: string

record proto_zone =
  pz_region :: "proto_region option"
  pz_name :: string

definition region_to_proto :: "(cloud \<Rightarrow> nat) \<Rightarrow> region \<Rightarrow> proto_region" where
  "region_to_proto tag r =
     \<lparr>pr_cloud = map_option (\<lambda>c. case c of
          Aws \<Rightarrow> PublicCloud (tag Aws)
        | Azure \<Rightarrow> PublicCloud (tag Azure)
        | Gcp \<Rightarrow> PublicCloud (tag Gcp)
        | Other_Cloud s \<Rightarrow> OtherCloud s) (reg_cloud r),
      pr_name = reg_name r\<rparr>"

definition zone_to_proto :: "(cloud \<Rightarrow> nat) \<Rightarrow> zone \<Rightarrow> proto_zone" where
  "zone_to_proto tag z = \<lparr>pz_region = Some (region_to_proto tag (zone_region z)), pz_name = zone_name z\<rparr>"

section \<open>Printing\<close>

fun cloud_to_string :: "cloud \<Rightarrow> string" where
  "cloud_to_string Aws = ''aws''"
| "cloud_to_string Azure = ''azure''"
| "cloud_to_string Gcp = ''gcp''"
| "cloud_to_string (Other_Cloud s) = s"

definition region_to_string :: "region \<Rightarrow> string" where
  "region_to_string r =
     (case reg_cloud r of
        None \<Rightarrow> reg_name r
      | Some c \<Rightarrow> cloud_to_string c @ '':'' @ reg_name r)"

definition zone_to_string :: "zone \<Rightarrow> string" where
  "zone_to_string z = region_to_string (zone_region z) @ ''/'' @ zone_name z"

section \<open>Parsing\<close>

text \<open>\<open>str::split\<close> with a one-character pattern.\<close>

fun split_on :: "char \<Rightarrow> string \<Rightarrow> string list" where
  "split_on c [] = [[]]"
| "split_on c (x # xs) =
     (if x = c then [] # split_on c xs
      else (case split_on c xs of p # ps \<Rightarrow> (x # p) # ps | [] \<Rightarrow> [[x]]))"

definition cloud_from_str :: "string \<Rightarrow> (string, cloud) outcome" where
  "cloud_from_str s =
     (if s = ''aws'' then Ok Aws
      else if s = ''azure'' then Ok Azure
      else if s = ''gcp'' then Ok Gcp
      else Ok (Other_Cloud s))"

definition region_from_str :: "string \<Rightarrow> (string, region) outcome" where
  "region_from_str s =
     (case split_on (CHR '':'') s of
        [_] \<Rightarrow> Ok \<lparr>reg_cloud = None, reg_name = s\<rparr>
      | [a, b] \<Rightarrow> try_ok (cloud_from_str a) (\<lambda>c. Ok \<lparr>reg_cloud = Some c, reg_name = b\<rparr>)
      | _ \<Rightarrow> Err ''invalid region string'')"

definition zone_from_str :: "string \<Rightarrow> (string, zone) outcome" where
  "zone_from_str s =
     (case split_on (CHR ''/'') s of
        [a, b] \<Rightarrow> try_ok (region_from_str a) (\<lambda>r. Ok \<lparr>zone_region = r, zone_name = b\<rparr>)
      | _ \<Rightarrow> Err ''Invalid zone string'')"

text \<open>The serialised form; a malformed string makes the deserialiser panic.\<close>

definition region_serialize :: "region \<Rightarrow> string" where
  "region_serialize r = region_to_string r"

definition region_deserialize :: "string \<Rightarrow> (string, region) outcome" where
  "region_deserialize s = unwrap (region_from_str s)"

definition zone_serialize :: "zone \<Rightarrow> string" where
  "zone_serialize z = zone_to_string z"

definition zone_deserialize :: "string \<Rightarrow> (string, zone) outcome" where
  "zone_deserialize s = unwrap (zone_from_str s)"

section \<open>Round trips\<close>

lemma split_on_not_Nil [simp]: "split_on c s \<noteq> []"
  by (cases s) (auto split: list.splits)

lemma split_on_none: "split_on c s = [s] \<longleftrightarrow> c \<notin> set s"
  by (induction s) (auto split: list.splits)

lemma split_on_single: "split_on c s = [p] \<Longrightarrow> p = s"
  by (induction s arbitrary: p) (auto split: list.splits if_splits)

lemma split_on_append: "c \<notin> set xs \<Longrightarrow> split_on c (xs @ c # ys) = xs # split_on c ys"
  by (induction xs) (auto split: list.splits)

lemma split_on_pair: "split_on c s = [a, b] \<Longrightarrow> s = a @ c # b \<and> c \<notin> set a \<and> c \<notin> set b"
proof (induction s arbitrary: a)
  case (Cons x xs)
  show ?case
  proof (cases "x = c")
    case True
    with Cons.prems have "a = []" "split_on c xs = [b]" by auto
    with True split_on_single split_on_none show ?thesis by fastforce
  next
    case False
    with Cons.prems obtain p where "split_on c xs = [p, b]" "a = x # p"
      by (auto split: list.splits)
    with Cons.IH False show ?thesis by auto
  qed
qed auto

lemma cloud_roundtrip:
  "cloud_from_str (cloud_to_string c) = Ok c \<longleftrightarrow> c \<notin> {Other_Cloud ''aws'', Other_Cloud ''azure'', Other_Cloud ''gcp''}"
  by (cases c) (auto simp: cloud_from_str_def)

definition printable_region :: "region \<Rightarrow> bool" where
  "printable_region r \<longleftrightarrow> CHR '':'' \<notin> set (reg_name r) \<and>
     (\<forall>c. reg_cloud r = Some c \<longrightarrow> CHR '':'' \<notin> set (cloud_to_string c) \<and>
        c \<notin> {Other_Cloud ''aws'', Other_Cloud ''azure'', Other_Cloud ''gcp''})"

lemma region_from_str_cases:
  assumes "region_from_str s = Ok r"
  obtains "CHR '':'' \<notin> set s" "r = \<lparr>reg_cloud = None, reg_name = s\<rparr>"
  | a b c where "s = a @ CHR '':'' # b" "CHR '':'' \<notin> set a" "CHR '':'' \<notin> set b"
      "cloud_from_str a = Ok c" "r = \<lparr>reg_cloud = Some c, reg_name = b\<rparr>"
proof -
  consider p where "split_on (CHR '':'') s = [p]" | a b where "split_on (CHR '':'') s = [a, b]"
    using assms by (auto simp: region_from_str_def split: list.splits)
  then show ?thesis
  proof cases
    case 1
    with split_on_single split_on_none [of "CHR '':''" s] assms that(1) show ?thesis
      by (auto simp: region_from_str_def)
  next
    case 2
    with split_on_pair [OF 2] assms that(2) show ?thesis by (auto simp: region_from_str_def)
  qed
qed

lemma region_roundtrip_iff: "region_from_str (region_to_string r) = Ok r \<longleftrightarrow> printable_region r"
proof (cases "reg_cloud r")
  case None
  show ?thesis
  proof
    assume "region_from_str (region_to_string r) = Ok r"
    then show "printable_region r"
      by (rule region_from_str_cases) (use None in \<open>auto simp: printable_region_def region_to_string_def\<close>)
  next
    assume "printable_region r"
    then have "split_on (CHR '':'') (reg_name r) = [reg_name r]"
      by (simp add: printable_region_def split_on_none)
    with None show "region_from_str (region_to_string r) = Ok r"
      by (cases r) (simp add: region_from_str_def region_to_string_def)
  qed
next
  case (Some c)
  show ?thesis
  proof
    assume "region_from_str (region_to_string r) = Ok r"
    then obtain a b where "cloud_to_string c @ CHR '':'' # reg_name r = a @ CHR '':'' # b"
      "CHR '':'' \<notin> set a" "CHR '':'' \<notin> set b" "cloud_from_str a = Ok c" "reg_name r = b"
      by (rule region_from_str_cases) (use Some in \<open>auto simp: region_to_string_def\<close>)
    with cloud_roundtrip [of c] Some show "printable_region r" by (auto simp: printable_region_def)
  next
    assume "printable_region r"
    with Some have p: "CHR '':'' \<notin> set (reg_name r)" "CHR '':'' \<notin> set (cloud_to_string c)"
      "cloud_from_str (cloud_to_string c) = Ok c"
      using cloud_roundtrip [of c] by (auto simp: printable_region_def)
    have "split_on (CHR '':'') (region_to_string r) = [cloud_to_string c, reg_name r]"
      using p split_on_none [of "CHR '':''" "reg_name r"]
      by (simp add: region_to_string_def Some split_on_append)
    with p Some show "region_from_str (region_to_string r) = Ok r"
      by (cases r) (simp add: region_from_str_def)
  qed
qed

text \<open>
  A zone survives being written to a configuration file and read back exactly when its names
  contain none of the separators and its cloud is not an \<open>Other\<close> that is spelled like one of the
  three known clouds; otherwise reading panics or gives another zone.
\<close>

theorem zone_roundtrip_iff:
  "zone_deserialize (zone_serialize z) = Ok z \<longleftrightarrow>
     printable_region (zone_region z) \<and> CHR ''/'' \<notin> set (region_to_string (zone_region z)) \<and>
     CHR ''/'' \<notin> set (zone_name z)"
proof
  assume "zone_deserialize (zone_serialize z) = Ok z"
  then have ok: "zone_from_str (zone_to_string z) = Ok z"
    by (cases "zone_from_str (zone_to_string z)") (simp_all add: zone_deserialize_def zone_serialize_def)
  then obtain a b where ab: "split_on (CHR ''/'') (zone_to_string z) = [a, b]"
    "region_from_str a = Ok (zone_region z)" "zone_name z = b"
    by (auto simp: zone_from_str_def split: list.splits)
  from split_on_pair [OF ab(1)] ab(3) have "a = region_to_string (zone_region z)" "CHR ''/'' \<notin> set a" "CHR ''/'' \<notin> set b"
    by (auto simp: zone_to_string_def)
  with ab region_roundtrip_iff [of "zone_region z"]
  show "printable_region (zone_region z) \<and> CHR ''/'' \<notin> set (region_to_string (zone_region z)) \<and>
     CHR ''/'' \<notin> set (zone_name z)" by simp
next
  assume p: "printable_region (zone_region z) \<and> CHR ''/'' \<notin> set (region_to_string (zone_region z)) \<and>
     CHR ''/'' \<notin> set (zone_name z)"
  then have "split_on (CHR ''/'') (zone_to_string z) = [region_to_string (zone_region z), zone_name z]"
    using split_on_none [of "CHR ''/''" "zone_name z"] by (simp add: zone_to_string_def split_on_append)
  with p region_roundtrip_iff [of "zone_region z"] show "zone_deserialize (zone_serialize z) = Ok z"
    by (cases z) (simp add: zone_from_str_def zone_deserialize_def zone_serialize_def)
qed

end
