(* ===== verification/Range_Calls.thy ===== *)
theory Range_Calls
  imports Range_Manager
begin

text \<open>
  The operations of the \<open>RangeManager\<close> trait (\<open>rangeserver/src/range_manager.rs\<close>) as whole calls,
  put together from the parts of the handlers of theory \<open>Range_Manager\<close>, and the interface the range
  server uses. While a call waits (for the range lock, a flush of the log or a fetch by another call)
  other calls run: the environment gives the manager as they have left it and what was waited for.
\<close>

section \<open>Calls\<close>

record ('s, 'w) rm_env =
  env_now :: time
  env_granted_at :: time
  env_chan :: nat
  env_alive :: "chan \<Rightarrow> bool"
  env_order :: "bytes list \<Rightarrow> bytes list"
  env_locks :: "bytes \<Rightarrow> lock_table"
  env_subscribers :: nat
  env_lock :: "('s, 'w) range_manager \<Rightarrow> ('s, 'w) range_manager \<times> bool"
  env_flush :: "('s, 'w) range_manager \<Rightarrow> ('s, 'w) range_manager \<times> (wal_error, unit) outcome option"
  env_watch :: "('s, 'w) range_manager \<Rightarrow> ('s, 'w) range_manager \<times> key_state option"

type_synonym ('s, 'w, 'a) rm_call = "('s, 'w) range_manager \<Rightarrow> ('s, 'w) range_manager \<times> (error, 'a) outcome"

text \<open>
  A caller that finds another call loading waits for its result: the load runs meanwhile, with one
  more subscriber. A load whose task has panicked, and which its subscribers would wait for forever, is
  not covered.
\<close>

definition load_call :: "'s storage \<Rightarrow> 'w wal \<Rightarrow> ('s, 'w) rm_env \<Rightarrow> ('s, 'w, unit) rm_call" where
  "load_call so wo env rm =
     (case load_enter (env_chan env) rm of
        (rm, Load_Return r) \<Rightarrow> (rm, r)
      | (rm, Load_Run _) \<Rightarrow> (case load_inner so wo rm of (rm, r) \<Rightarrow> load_finish (env_subscribers env) r rm)
      | (rm, Load_Subscribe _) \<Rightarrow>
          (case load_inner so wo rm of (rm, r) \<Rightarrow> load_finish (Suc (env_subscribers env)) r rm))"

definition prefetch_call ::
    "'s storage \<Rightarrow> ('s, 'w) rm_env \<Rightarrow> uuid \<Rightarrow> bytes \<Rightarrow> ('s, 'w, unit) rm_call" where
  "prefetch_call so env tx key rm =
     (let answer = (\<lambda>keystate rm. case prefetch so key keystate rm of (rm, _, r) \<Rightarrow> (rm, r))
      in case prefetch_enter (env_chan env) tx key rm of
           (rm, Ok (Inl keystate)) \<Rightarrow> answer keystate rm
         | (rm, Ok (Inr n)) \<Rightarrow>
             (case prefetch_watcher key n (prefetching_buffer rm) of
                Inl keystate \<Rightarrow> answer keystate rm
              | Inr _ \<Rightarrow>
                  (case env_watch env rm of
                     (rm, w) \<Rightarrow>
                       (case prefetch_changed (env_chan env) key n w (prefetching_buffer rm) of
                          (pf, Ok keystate) \<Rightarrow> answer keystate (rm\<lparr>prefetching_buffer := pf\<rparr>)
                        | (pf, _) \<Rightarrow> (rm\<lparr>prefetching_buffer := pf\<rparr>, Panic))))
         | (rm, _) \<Rightarrow> (rm, Panic))"

text \<open>\<open>receiver.await.unwrap()\<close>: a sender that is gone is a panic.\<close>

definition get_call ::
    "'s storage \<Rightarrow> ('s, 'w) rm_env \<Rightarrow> transaction_info \<Rightarrow> bytes \<Rightarrow> ('s, 'w, get_result) rm_call" where
  "get_call so env tx key rm =
     (case get_enter (env_now env) (env_granted_at env) (env_chan env) tx key rm of
        (rm, _, Ok _) \<Rightarrow>
          (case env_lock env rm of (rm, granted) \<Rightarrow> (rm, if granted then get_locked so key rm else Panic))
      | (rm, _, Err e) \<Rightarrow> (rm, Err e)
      | (rm, _, Panic) \<Rightarrow> (rm, Panic))"

definition prepare_call ::
    "'w wal \<Rightarrow> ('s, 'w) rm_env \<Rightarrow> transaction_info \<Rightarrow> prepare_request \<Rightarrow> ('s, 'w, prepare_result) rm_call" where
  "prepare_call wo env tx req rm =
     (case prepare_enter (env_alive env) (env_now env) (env_granted_at env) (env_chan env) tx req rm of
        (rm, _, Ok (Inl reply)) \<Rightarrow> (rm, Ok reply)
      | (rm, _, Ok (Inr (_, record))) \<Rightarrow>
          (case env_lock env rm of
             (rm, granted) \<Rightarrow>
               if \<not> granted then (rm, Panic)
               else
                 (case prepare_locked wo (env_order env) (env_locks env) (env_alive env) (env_now env) tx req record rm of
                    (rm, _, Ok reply) \<Rightarrow> (case env_flush env rm of (rm, flushed) \<Rightarrow> (rm, await_flush flushed (Ok reply)))
                  | (rm, _, r) \<Rightarrow> (rm, r)))
      | (rm, _, Err e) \<Rightarrow> (rm, Err e)
      | (rm, _, Panic) \<Rightarrow> (rm, Panic))"

definition abort_call ::
    "'w wal \<Rightarrow> ('s, 'w) rm_env \<Rightarrow> transaction_info \<Rightarrow> abort_request \<Rightarrow> ('s, 'w, unit) rm_call" where
  "abort_call wo env tx req rm =
     (case abort_enter wo tx req rm of
        Inl r \<Rightarrow> r
      | Inr rm \<Rightarrow>
          (case env_flush env rm of
             (rm, flushed) \<Rightarrow>
               (case abort_flushed (env_alive env) (env_now env) flushed rm of (rm, _, r) \<Rightarrow> (rm, r))))"

definition commit_call ::
    "'s storage \<Rightarrow> 'w wal \<Rightarrow> ('s, 'w) rm_env \<Rightarrow> uuid list \<Rightarrow> commit_request \<Rightarrow> ('s, 'w, unit) rm_call" where
  "commit_call so wo env txs req rm =
     (case commit_enter wo req rm of
        (rm, Ok _) \<Rightarrow>
          (case env_flush env rm of
             (rm, flushed) \<Rightarrow>
               (case commit_flushed so (env_alive env) (env_now env) txs req flushed rm of (rm, _, r) \<Rightarrow> (rm, r)))
      | (rm, r) \<Rightarrow> (rm, r))"

section \<open>The interface of the server\<close>

text \<open>
  What the server calls: the operations on a manager of type \<open>'m\<close> and on the storage that all its
  managers share.
\<close>

record ('m, 's) rm_ops =
  rmo_new :: "full_range_id \<Rightarrow> 'm"
  rmo_load :: "'m \<Rightarrow> 's \<Rightarrow> 'm \<times> 's \<times> (error, unit) outcome"
  rmo_unload :: "'m \<Rightarrow> 'm"
  rmo_is_unloaded :: "'m \<Rightarrow> bool"
  rmo_prefetch :: "uuid \<Rightarrow> bytes \<Rightarrow> 'm \<Rightarrow> 's \<Rightarrow> 'm \<times> 's \<times> (error, unit) outcome"
  rmo_get :: "transaction_info \<Rightarrow> bytes \<Rightarrow> 'm \<Rightarrow> 's \<Rightarrow> 'm \<times> 's \<times> (error, get_result) outcome"
  rmo_prepare :: "transaction_info \<Rightarrow> prepare_request \<Rightarrow> 'm \<Rightarrow> 's \<Rightarrow> 'm \<times> 's \<times> (error, prepare_result) outcome"
  rmo_abort :: "transaction_info \<Rightarrow> abort_request \<Rightarrow> 'm \<Rightarrow> 's \<Rightarrow> 'm \<times> 's \<times> (error, unit) outcome"
  rmo_commit :: "uuid list \<Rightarrow> commit_request \<Rightarrow> 'm \<Rightarrow> 's \<Rightarrow> 'm \<times> 's \<times> (error, unit) outcome"
  rmo_stats :: "'m \<Rightarrow> 'm \<times> statistics"

definition on_storage ::
    "('s, 'w, 'a) rm_call \<Rightarrow> ('s, 'w) range_manager \<Rightarrow> 's \<Rightarrow> ('s, 'w) range_manager \<times> 's \<times> (error, 'a) outcome" where
  "on_storage call rm s = (case call (rm\<lparr>rm_storage := s\<rparr>) of (rm, r) \<Rightarrow> (rm, rm_storage rm, r))"

text \<open>The managers of the server: \<open>wal_of\<close> is the log made for a range and \<open>s0\<close> any storage.\<close>

definition range_manager_ops ::
    "rm_config \<Rightarrow> 's storage \<Rightarrow> 'w wal \<Rightarrow> (uuid \<Rightarrow> 'w) \<Rightarrow> 's \<Rightarrow> ('s, 'w) rm_env \<Rightarrow> (('s, 'w) range_manager, 's) rm_ops" where
  "range_manager_ops cfg so wo wal_of s0 env =
     \<lparr>rmo_new = (\<lambda>i. rm_new i cfg s0 (wal_of (range_id i))),
      rmo_load = on_storage (load_call so wo env),
      rmo_unload = unload,
      rmo_is_unloaded = is_unloaded,
      rmo_prefetch = (\<lambda>tx key. on_storage (prefetch_call so env tx key)),
      rmo_get = (\<lambda>tx key. on_storage (get_call so env tx key)),
      rmo_prepare = (\<lambda>tx req. on_storage (prepare_call wo env tx req)),
      rmo_abort = (\<lambda>tx req. on_storage (abort_call wo env tx req)),
      rmo_commit = (\<lambda>txs req. on_storage (commit_call so wo env txs req)),
      rmo_stats = get_lock_table_stats\<rparr>"

text \<open>
  The contract of loading: a manager that has been unloaded, or whose load has failed, refuses every
  further load, and unloading makes it so.
\<close>

locale load_contract =
  fixes ops :: "('m, 's) rm_ops"
  assumes load_unloaded: "rmo_is_unloaded ops m \<Longrightarrow>
      \<exists>m'. rmo_load ops m s = (m', s, Err RangeIsNotLoaded) \<and> rmo_is_unloaded ops m'"
    and load_failed: "rmo_load ops m s = (m', s', Err e) \<Longrightarrow> rmo_is_unloaded ops m'"
    and unload_unloaded: "rmo_is_unloaded ops (rmo_unload ops m)"
    and stats_unloaded: "rmo_is_unloaded ops (fst (rmo_stats ops m)) \<longleftrightarrow> rmo_is_unloaded ops m"

lemma is_unloaded_iff: "is_unloaded rm \<longleftrightarrow> rm_state rm = Unloaded"
  by (simp add: is_unloaded_def split: rm_state.splits)

lemma load_finish_err: "load_finish n r rm = (rm', Err e) \<Longrightarrow> is_unloaded rm'"
  by (auto simp: load_finish_def is_unloaded_def split: outcome.splits if_splits)

lemma load_call_err: "load_call so wo env rm = (rm', Err e) \<Longrightarrow> is_unloaded rm'"
  by (auto simp: load_call_def load_enter_def is_unloaded_iff split: rm_state.splits prod.splits
      dest!: load_finish_err)

lemma load_call_unloaded: "is_unloaded rm \<Longrightarrow> load_call so wo env rm = (rm, Err RangeIsNotLoaded)"
  by (simp add: load_call_def load_enter_def is_unloaded_iff)

interpretation manager_loads: load_contract "range_manager_ops cfg so wo wal_of s0 env"
proof (unfold_locales, goal_cases)
  case (1 m s)
  then show ?case
    by (simp add: range_manager_ops_def on_storage_def load_call_unloaded is_unloaded_iff)
next
  case (2 m s m' s' e)
  then show ?case
    by (auto simp: range_manager_ops_def on_storage_def split: prod.splits dest: load_call_err)
next
  case (3 m)
  show ?case by (simp add: range_manager_ops_def unload_def is_unloaded_def)
next
  case (4 m)
  show ?case by (simp add: range_manager_ops_def get_lock_table_stats_def is_unloaded_def split: rm_state.splits prod.splits)
qed

end
