(* ===== verification/Range_Wire.thy ===== *)
theory Range_Wire
  imports Range_Interfaces
begin

text \<open>
  The messages of the range server protocol (\<open>flatbuf/src/rangeserver/schema.fbs\<close>): the responses and
  the envelopes around a request or response. The encoding is the \<open>flatbuffers\<close> package: a buffer is
  a value of the type \<open>'b\<close>, made by \<open>fb_finish\<close> and read by \<open>fb_root\<close>, which fails on a buffer that
  does not hold the table asked for.
\<close>

record get_response =
  grsp_request_id :: "uuidu128 option"
  grsp_status :: status
  grsp_leader_sequence_number :: i64
  grsp_records :: "(bytes option \<times> bytes option) list option"
  grsp_dependencies :: "uuidu128 list option"

record prepare_response =
  prsp_request_id :: "uuidu128 option"
  prsp_status :: status
  prsp_highest_known_epoch :: u64
  prsp_epoch_lease :: "lease option"
  prsp_dependencies :: "uuidu128 list option"
  prsp_released_lock_early :: bool

record commit_response =
  crsp_request_id :: "uuidu128 option"
  crsp_status :: status

record abort_response =
  arsp_request_id :: "uuidu128 option"
  arsp_status :: status

text \<open>A byte that is none of the named codes is \<open>MT_Unknown\<close>.\<close>

datatype message_type = MT_Get | MT_Prepare | MT_Commit | MT_Abort | MT_Unknown u8

datatype 'b envelope = Envelope message_type "'b option"

datatype 'b fb_table =
  GetRequest get_request
| PrepareRequest prepare_request
| CommitRequest commit_request
| AbortRequest abort_request
| RequestEnvelope "'b envelope"
| GetResponse get_response
| PrepareResponse prepare_response
| CommitResponse commit_response
| AbortResponse abort_response
| ResponseEnvelope "'b envelope"

datatype fb_kind =
  K_GetRequest | K_PrepareRequest | K_CommitRequest | K_AbortRequest | K_RequestEnvelope
| K_GetResponse | K_PrepareResponse | K_CommitResponse | K_AbortResponse | K_ResponseEnvelope

fun fb_kind_of :: "'b fb_table \<Rightarrow> fb_kind" where
  "fb_kind_of (GetRequest _) = K_GetRequest"
| "fb_kind_of (PrepareRequest _) = K_PrepareRequest"
| "fb_kind_of (CommitRequest _) = K_CommitRequest"
| "fb_kind_of (AbortRequest _) = K_AbortRequest"
| "fb_kind_of (RequestEnvelope _) = K_RequestEnvelope"
| "fb_kind_of (GetResponse _) = K_GetResponse"
| "fb_kind_of (PrepareResponse _) = K_PrepareResponse"
| "fb_kind_of (CommitResponse _) = K_CommitResponse"
| "fb_kind_of (AbortResponse _) = K_AbortResponse"
| "fb_kind_of (ResponseEnvelope _) = K_ResponseEnvelope"

record 'b flatbuf =
  fb_finish :: "'b fb_table \<Rightarrow> 'b"
  fb_root :: "fb_kind \<Rightarrow> 'b \<Rightarrow> 'b fb_table option"

text \<open>A finished buffer is read back as the table it was made of.\<close>

definition flatbuf_ok :: "'b flatbuf \<Rightarrow> bool" where
  "flatbuf_ok fb \<longleftrightarrow> (\<forall>t. fb_root fb (fb_kind_of t) (fb_finish fb t) = Some t)"

text \<open>\<open>flatbuffers::root\<close> at the types that are read.\<close>

definition root_get_request :: "'b flatbuf \<Rightarrow> 'b \<Rightarrow> get_request option" where
  "root_get_request fb b = (case fb_root fb K_GetRequest b of Some (GetRequest r) \<Rightarrow> Some r | _ \<Rightarrow> None)"

definition root_prepare_request :: "'b flatbuf \<Rightarrow> 'b \<Rightarrow> prepare_request option" where
  "root_prepare_request fb b = (case fb_root fb K_PrepareRequest b of Some (PrepareRequest r) \<Rightarrow> Some r | _ \<Rightarrow> None)"

definition root_commit_request :: "'b flatbuf \<Rightarrow> 'b \<Rightarrow> commit_request option" where
  "root_commit_request fb b = (case fb_root fb K_CommitRequest b of Some (CommitRequest r) \<Rightarrow> Some r | _ \<Rightarrow> None)"

definition root_abort_request :: "'b flatbuf \<Rightarrow> 'b \<Rightarrow> abort_request option" where
  "root_abort_request fb b = (case fb_root fb K_AbortRequest b of Some (AbortRequest r) \<Rightarrow> Some r | _ \<Rightarrow> None)"

definition root_request_envelope :: "'b flatbuf \<Rightarrow> 'b \<Rightarrow> 'b envelope option" where
  "root_request_envelope fb b = (case fb_root fb K_RequestEnvelope b of Some (RequestEnvelope r) \<Rightarrow> Some r | _ \<Rightarrow> None)"

definition root_get_response :: "'b flatbuf \<Rightarrow> 'b \<Rightarrow> get_response option" where
  "root_get_response fb b = (case fb_root fb K_GetResponse b of Some (GetResponse r) \<Rightarrow> Some r | _ \<Rightarrow> None)"

definition root_prepare_response :: "'b flatbuf \<Rightarrow> 'b \<Rightarrow> prepare_response option" where
  "root_prepare_response fb b = (case fb_root fb K_PrepareResponse b of Some (PrepareResponse r) \<Rightarrow> Some r | _ \<Rightarrow> None)"

definition root_commit_response :: "'b flatbuf \<Rightarrow> 'b \<Rightarrow> commit_response option" where
  "root_commit_response fb b = (case fb_root fb K_CommitResponse b of Some (CommitResponse r) \<Rightarrow> Some r | _ \<Rightarrow> None)"

definition root_abort_response :: "'b flatbuf \<Rightarrow> 'b \<Rightarrow> abort_response option" where
  "root_abort_response fb b = (case fb_root fb K_AbortResponse b of Some (AbortResponse r) \<Rightarrow> Some r | _ \<Rightarrow> None)"

definition root_response_envelope :: "'b flatbuf \<Rightarrow> 'b \<Rightarrow> 'b envelope option" where
  "root_response_envelope fb b = (case fb_root fb K_ResponseEnvelope b of Some (ResponseEnvelope r) \<Rightarrow> Some r | _ \<Rightarrow> None)"

lemma flatbuf_okD: "flatbuf_ok fb \<Longrightarrow> fb_kind_of t = k \<Longrightarrow> fb_root fb k (fb_finish fb t) = Some t"
  by (auto simp: flatbuf_ok_def)

lemma root_finish [simp]:
  assumes "flatbuf_ok fb"
  shows "root_get_request fb (fb_finish fb (GetRequest a)) = Some a"
    "root_prepare_request fb (fb_finish fb (PrepareRequest b)) = Some b"
    "root_commit_request fb (fb_finish fb (CommitRequest c)) = Some c"
    "root_abort_request fb (fb_finish fb (AbortRequest d)) = Some d"
    "root_request_envelope fb (fb_finish fb (RequestEnvelope e)) = Some e"
    "root_get_response fb (fb_finish fb (GetResponse f)) = Some f"
    "root_prepare_response fb (fb_finish fb (PrepareResponse g)) = Some g"
    "root_commit_response fb (fb_finish fb (CommitResponse h)) = Some h"
    "root_abort_response fb (fb_finish fb (AbortResponse i)) = Some i"
    "root_response_envelope fb (fb_finish fb (ResponseEnvelope j)) = Some j"
  by (simp_all add: root_get_request_def root_prepare_request_def root_commit_request_def
      root_abort_request_def root_request_envelope_def root_get_response_def root_prepare_response_def
      root_commit_response_def root_abort_response_def root_response_envelope_def flatbuf_okD [OF assms])

text \<open>A buffer type for examples: the tables themselves.\<close>

datatype table_buffer = Buffer "table_buffer fb_table"

definition table_flatbuf :: "table_buffer flatbuf" where
  "table_flatbuf = \<lparr>fb_finish = Buffer,
     fb_root = (\<lambda>k b. case b of Buffer t \<Rightarrow> if fb_kind_of t = k then Some t else None)\<rparr>"

lemma table_flatbuf_ok: "flatbuf_ok table_flatbuf"
  by (simp add: flatbuf_ok_def table_flatbuf_def)

end
