(* ===== verification/Assignment.thy ===== *)
theory Assignment
  imports Region Key_Range "HOL-Library.Multiset" "HOL-Library.Char_ord" "HOL-Library.Product_Lexorder"
begin

text \<open>
  The warden's assignment of key ranges to range servers (\<open>warden/src/assignment_computation.rs\<close>,
  \<open>warden/src/server.rs\<close>, \<open>warden/src/persistence.rs\<close>): registration of servers, discovery of base
  ranges, one round of the assignment computation, and the updates sent to the servers. The answers
  of the universe service and of the database, and the parsing and printing of identifiers, are
  arguments.
\<close>

section \<open>State\<close>

record warden_range =
  wr_keyspace_id :: uuid
  wr_id :: uuid
  wr_key_range :: key_range

record range_assignment =
  ra_range :: warden_range
  ra_assignee :: string

definition MIN_NUM_RANGE_SERVERS :: nat where
  "MIN_NUM_RANGE_SERVERS = 1"

definition MAX_VERSIONS_TO_KEEP :: nat where
  "MAX_VERSIONS_TO_KEEP = 5"

record warden =
  base_ranges :: "warden_range list"
  range_assignments :: "(i64, range_assignment list) hmap"
  current_version :: i64
  ready_range_servers :: "host_info list"
  unassigned_base_ranges :: "warden_range list"

definition warden_new :: "i64 \<Rightarrow> warden" where
  "warden_new now = \<lparr>base_ranges = [], range_assignments = [], current_version = now,
     ready_range_servers = [], unassigned_base_ranges = []\<rparr>"

text \<open>\<open>HostInfoWrapper\<close>: servers are equal when their identities are.\<close>

definition same_server :: "host_info \<Rightarrow> host_info \<Rightarrow> bool" where
  "same_server a b \<longleftrightarrow> hi_identity a = hi_identity b"

definition server_difference :: "host_info list \<Rightarrow> host_info list \<Rightarrow> host_info list" where
  "server_difference xs ys = filter (\<lambda>x. \<not> (\<exists>y \<in> set ys. same_server x y)) xs"

section \<open>Registration\<close>

definition register_range_server :: "host_info \<Rightarrow> warden \<Rightarrow> warden \<times> (string, unit) outcome" where
  "register_range_server h wd =
     (case find (same_server h) (ready_range_servers wd) of
        Some existing \<Rightarrow>
          if warden_connection_epoch existing \<ge> warden_connection_epoch h
          then (wd, Err ''Connection with a newer epoch already exists'')
          else (wd\<lparr>ready_range_servers := h # filter (\<lambda>x. \<not> same_server h x) (ready_range_servers wd)\<rparr>, Ok ())
      | None \<Rightarrow> (wd\<lparr>ready_range_servers := h # ready_range_servers wd\<rparr>, Ok ()))"

definition notify_range_server_unavailable :: "host_info \<Rightarrow> warden \<Rightarrow> warden" where
  "notify_range_server_unavailable h wd =
     (case find (same_server h) (ready_range_servers wd) of
        Some existing \<Rightarrow>
          if warden_connection_epoch existing \<le> warden_connection_epoch h
          then wd\<lparr>ready_range_servers := filter (\<lambda>x. \<not> same_server h x) (ready_range_servers wd)\<rparr>
          else wd
      | None \<Rightarrow> wd)"

section \<open>Base ranges\<close>

record keyspace_listing =
  kl_keyspace_id :: string
  kl_base_key_ranges :: "proto_key_range list"

definition warden_key_range :: "proto_key_range \<Rightarrow> key_range" where
  "warden_key_range p =
     \<lparr>lower_bound_inclusive = (if proto_lower_bound_inclusive p = [] then None else Some (proto_lower_bound_inclusive p)),
      upper_bound_exclusive = (if proto_upper_bound_exclusive p = [] then None else Some (proto_upper_bound_exclusive p))\<rparr>"

fun parse_ranges ::
    "(string \<Rightarrow> uuid option) \<Rightarrow> string \<Rightarrow> proto_key_range list \<Rightarrow> (string, warden_range list) outcome" where
  "parse_ranges parse k [] = Ok []"
| "parse_ranges parse k (p # ps) =
     (case (parse k, parse (base_range_uuid p)) of
        (Some kid, Some i) \<Rightarrow>
          try_ok (parse_ranges parse k ps) (\<lambda>rs.
            Ok (\<lparr>wr_keyspace_id = kid, wr_id = i, wr_key_range = warden_key_range p\<rparr> # rs))
      | _ \<Rightarrow> Err ''internal'')"

fun parse_listing ::
    "(string \<Rightarrow> uuid option) \<Rightarrow> keyspace_listing list \<Rightarrow> (string, warden_range list) outcome" where
  "parse_listing parse [] = Ok []"
| "parse_listing parse (k # ks) =
     try_ok (parse_ranges parse (kl_keyspace_id k) (kl_base_key_ranges k)) (\<lambda>rs.
       try_ok (parse_listing parse ks) (\<lambda>rest. Ok (rs @ rest)))"

definition read_base_ranges ::
    "(string \<Rightarrow> uuid option) \<Rightarrow> (string, keyspace_listing list) outcome \<Rightarrow> (string, unit) outcome \<Rightarrow> warden \<Rightarrow>
      warden \<times> (string, unit) outcome" where
  "read_base_ranges parse listing persisted wd =
     (case try_ok listing (parse_listing parse) of
        Ok reported \<Rightarrow>
          if \<exists>r \<in> set (base_ranges wd). wr_id r \<notin> wr_id ` set reported
          then (wd, Err ''Base range not found in reported base ranges'')
          else
            (let new_base_ranges = filter (\<lambda>r. wr_id r \<notin> wr_id ` set (base_ranges wd)) reported
             in case persisted of
                  Ok _ \<Rightarrow>
                    (wd\<lparr>base_ranges := base_ranges wd @ new_base_ranges,
                        unassigned_base_ranges := unassigned_base_ranges wd @ new_base_ranges\<rparr>, Ok ())
                | Err e \<Rightarrow> (wd, Err (''Failed to insert new ranges: '' @ e))
                | Panic \<Rightarrow> (wd, Panic))
      | Err e \<Rightarrow> (wd, Err e)
      | Panic \<Rightarrow> (wd, Panic))"

section \<open>The assignment computation\<close>

text \<open>\<open>entry(k).or_insert_with(Vec::new).push(v)\<close>.\<close>

definition push_entry :: "'k \<Rightarrow> 'v \<Rightarrow> ('k, 'v list) hmap \<Rightarrow> ('k, 'v list) hmap" where
  "push_entry k v m = hm_insert k ((case hm_get m k of Some vs \<Rightarrow> vs | None \<Rightarrow> []) @ [v]) m"

definition group_by_assignee :: "range_assignment list \<Rightarrow> (string, warden_range list) hmap" where
  "group_by_assignee as = fold (\<lambda>a. push_entry (ra_assignee a) (ra_range a)) as []"

text \<open>
  The heap of loads and server names, least first: a list from which the least element is taken.
\<close>

type_synonym server_heap = "(nat \<times> string) list"

definition heap_pop :: "server_heap \<Rightarrow> ((nat \<times> string) \<times> server_heap) option" where
  "heap_pop h = (if h = [] then None else Some (Min (set h), remove1 (Min (set h)) h))"

definition initial_heap ::
    "(string, warden_range list) hmap \<Rightarrow> host_info list \<Rightarrow> host_info list \<Rightarrow> server_heap" where
  "initial_heap groups added ready =
     (let heap = map (\<lambda>(server, ranges). (length ranges, server)) groups @
                 map (\<lambda>h. (0, hi_name (hi_identity h))) added
      in if heap = [] then map (\<lambda>h. (0, hi_name (hi_identity h))) ready else heap)"

text \<open>\<open>assignee_to_range_info.remove\<close> for every removed server.\<close>

fun take_removed ::
    "host_info list \<Rightarrow> (string, warden_range list) hmap \<Rightarrow> (string, warden_range list) hmap \<times> warden_range list" where
  "take_removed [] groups = (groups, [])"
| "take_removed (h # hs) groups =
     (let name = hi_name (hi_identity h);
          (groups', rs) = take_removed hs (hm_remove name groups)
      in (groups', (case hm_get groups name of Some ranges \<Rightarrow> ranges | None \<Rightarrow> []) @ rs))"

fun assign_ranges ::
    "warden_range list \<Rightarrow> server_heap \<Rightarrow> (string, warden_range list) hmap \<Rightarrow> range_assignment list \<Rightarrow>
      ((string, warden_range list) hmap \<times> range_assignment list) option" where
  "assign_ranges [] heap groups updated = Some (groups, updated)"
| "assign_ranges (r # rs) heap groups updated =
     (case heap_pop heap of
        None \<Rightarrow> None
      | Some ((n, server), heap) \<Rightarrow>
          assign_ranges rs ((n + 1, server) # heap) (push_entry server r groups)
            (updated @ [\<lparr>ra_range = r, ra_assignee = server\<rparr>]))"

text \<open>Everything up to the call of the database.\<close>

record assignment_plan =
  plan_groups :: "(string, warden_range list) hmap"
  plan_updated :: "range_assignment list"

datatype plan_result = Wait | Plan assignment_plan | Plan_Panics

definition plan_assignment :: "host_info list \<Rightarrow> warden \<Rightarrow> plan_result" where
  "plan_assignment prev_ready wd =
     (let new_ready = ready_range_servers wd;
          added = server_difference new_ready prev_ready;
          removed = server_difference prev_ready new_ready
      in if length new_ready < MIN_NUM_RANGE_SERVERS then Wait
         else if added = [] \<and> removed = [] \<and> unassigned_base_ranges wd = [] then Wait
         else
           (case (if range_assignments wd = [] then Some []
                  else map_option group_by_assignee (hm_get (range_assignments wd) (current_version wd))) of
              None \<Rightarrow> Plan_Panics
            | Some groups \<Rightarrow>
                (let heap = initial_heap groups added new_ready;
                     (kept, orphans) = take_removed removed groups
                 in case assign_ranges (unassigned_base_ranges wd @ orphans) heap kept [] of
                      None \<Rightarrow> Plan_Panics
                    | Some (groups, updated) \<Rightarrow> Plan \<lparr>plan_groups = groups, plan_updated = updated\<rparr>)))"

definition flatten_groups :: "(string, warden_range list) hmap \<Rightarrow> range_assignment list" where
  "flatten_groups groups =
     concat (map (\<lambda>(assignee, ranges). map (\<lambda>r. \<lparr>ra_range = r, ra_assignee = assignee\<rparr>) ranges) groups)"

text \<open>The part after the database has accepted the new assignments.\<close>

definition install_plan :: "assignment_plan \<Rightarrow> warden \<Rightarrow> warden \<times> (string, unit) outcome" where
  "install_plan plan wd =
     (let new_version = current_version wd + 1;
          assigned = wr_id ` ra_range ` set (plan_updated plan);
          wd = wd\<lparr>unassigned_base_ranges := filter (\<lambda>r. wr_id r \<notin> assigned) (unassigned_base_ranges wd)\<rparr>;
          versions = (if length (range_assignments wd) > MAX_VERSIONS_TO_KEEP
                      then hm_remove (arg_min_list sint (hm_keys (range_assignments wd))) (range_assignments wd)
                      else range_assignments wd)
      in if hm_contains versions new_version then (wd\<lparr>range_assignments := versions\<rparr>, Panic)
         else (wd\<lparr>range_assignments := hm_insert new_version (flatten_groups (plan_groups plan)) versions,
                  current_version := new_version\<rparr>, Ok ()))"

text \<open>One round: the new state, the servers to compare with next time, and whether it panics.\<close>

definition run_assignment_computation ::
    "(string, unit) outcome \<Rightarrow> host_info list \<Rightarrow> warden \<Rightarrow> warden \<times> host_info list \<times> (string, unit) outcome" where
  "run_assignment_computation persisted prev_ready wd =
     (case plan_assignment prev_ready wd of
        Wait \<Rightarrow> (wd, ready_range_servers wd, Ok ())
      | Plan_Panics \<Rightarrow> (wd, ready_range_servers wd, Panic)
      | Plan plan \<Rightarrow>
          (case persisted of
             Ok _ \<Rightarrow> (case install_plan plan wd of (wd', r) \<Rightarrow> (wd', ready_range_servers wd, r))
           | Err _ \<Rightarrow> (wd, ready_range_servers wd, Ok ())
           | Panic \<Rightarrow> (wd, ready_range_servers wd, Panic)))"

section \<open>Updates for the servers\<close>

record full_assignment =
  fa_version :: i64
  fa_range :: "(string \<times> string) list"

definition get_assignment_update ::
    "(uuid \<Rightarrow> string) \<Rightarrow> host_info \<Rightarrow> i64 \<Rightarrow> bool \<Rightarrow> warden \<Rightarrow> full_assignment option" where
  "get_assignment_update show_uuid h version full_update wd =
     (case hm_get (range_assignments wd) version of
        Some as \<Rightarrow>
          Some \<lparr>fa_version = current_version wd,
                fa_range = map (\<lambda>a. (show_uuid (wr_keyspace_id (ra_range a)), show_uuid (wr_id (ra_range a))))
                  (filter (\<lambda>a. ra_assignee a = hi_name (hi_identity h)) as)\<rparr>
      | None \<Rightarrow> None)"

record proto_host_info =
  ph_identity :: string
  ph_zone :: string
  ph_epoch :: u64

definition warden_host_info :: "proto_host_info \<Rightarrow> host_info" where
  "warden_host_info p =
     \<lparr>hi_identity = \<lparr>hi_name = ph_identity p,
        hi_zone = \<lparr>zone_region = \<lparr>reg_cloud = None, reg_name = []\<rparr>, zone_name = ph_zone p\<rparr>\<rparr>,
      hi_address = ''0.0.0.0:0'', warden_connection_epoch = ph_epoch p\<rparr>"

record update_stream =
  sent_full_update :: bool
  us_host_info :: host_info

definition serve_register_range_server ::
    "proto_host_info option \<Rightarrow> warden \<Rightarrow> warden \<times> (string, update_stream) outcome" where
  "serve_register_range_server request wd =
     (case request of
        None \<Rightarrow> (wd, Err ''range_server field is not set in the request'')
      | Some range_server \<Rightarrow>
          (case register_range_server (warden_host_info range_server) wd of
             (wd, r) \<Rightarrow> (wd, try_ok r (\<lambda>_.
                Ok \<lparr>sent_full_update = False, us_host_info = warden_host_info range_server\<rparr>))))"

text \<open>What the broadcast channel gives the stream: nothing yet, its end, a version, or a lag.\<close>

datatype broadcast_poll = Poll_Pending | Poll_Closed | Poll_Version i64 | Poll_Lagged u64

datatype 'a poll = Pending | Ready_None | Ready_Some "(string, 'a) outcome"

definition poll_next ::
    "(uuid \<Rightarrow> string) \<Rightarrow> broadcast_poll \<Rightarrow> warden \<Rightarrow> update_stream \<Rightarrow> update_stream \<times> full_assignment poll" where
  "poll_next show_uuid received wd st =
     (case received of
        Poll_Pending \<Rightarrow> (st, Pending)
      | Poll_Closed \<Rightarrow> (st, Ready_None)
      | Poll_Version version \<Rightarrow>
          (st\<lparr>sent_full_update := True\<rparr>,
           Ready_Some (case get_assignment_update show_uuid (us_host_info st) version (\<not> sent_full_update st) wd of
              Some update \<Rightarrow> Ok update
            | None \<Rightarrow> Err ''Unexpected failure to retrieve assignment version''))
      | Poll_Lagged n \<Rightarrow> (st, Ready_Some (Err ''Channel Buffer exhausted. Please reopen channel.'')))"

definition drop_stream :: "update_stream \<Rightarrow> warden \<Rightarrow> warden" where
  "drop_stream st wd = notify_range_server_unavailable (us_host_info st) wd"

section \<open>Every range has one owner\<close>

definition group_ranges :: "('k, 'v list) hmap \<Rightarrow> 'v list" where
  "group_ranges m = concat (map snd m)"

definition current_assignments :: "warden \<Rightarrow> range_assignment list" where
  "current_assignments wd =
     (case hm_get (range_assignments wd) (current_version wd) of Some as \<Rightarrow> as | None \<Rightarrow> [])"

lemma group_ranges_update:
  "hm_get m k = Some vs \<Longrightarrow>
     mset (group_ranges (hm_insert k ws m)) + mset vs = mset (group_ranges m) + mset ws"
  by (induction m) (auto simp: group_ranges_def split: if_splits)

lemma group_ranges_new:
  "hm_get m k = None \<Longrightarrow> mset (group_ranges (hm_insert k ws m)) = mset (group_ranges m) + mset ws"
  by (induction m) (auto simp: group_ranges_def split: if_splits)

lemma push_entry_ranges [simp]: "mset (group_ranges (push_entry k v m)) = add_mset v (mset (group_ranges m))"
proof (cases "hm_get m k")
  case None
  then show ?thesis using group_ranges_new [of m k "[v]"] by (simp add: push_entry_def)
next
  case (Some vs)
  then show ?thesis using group_ranges_update [OF Some, of "vs @ [v]"] by (simp add: push_entry_def)
qed

lemma push_entry_distinct [simp]: "distinct (hm_keys m) \<Longrightarrow> distinct (hm_keys (push_entry k v m))"
  by (simp add: push_entry_def distinct_hm_insert)

lemma hm_remove_absent: "k \<notin> set (hm_keys m) \<Longrightarrow> hm_remove k m = m"
  by (induction m) auto

lemma group_ranges_remove:
  "distinct (hm_keys m) \<Longrightarrow>
     mset (group_ranges (hm_remove k m)) + mset (case hm_get m k of Some vs \<Rightarrow> vs | None \<Rightarrow> []) = mset (group_ranges m)"
proof (induction m)
  case (Cons a m)
  then show ?case
    using hm_remove_absent [of k m] by (cases "fst a = k") (auto simp: group_ranges_def ac_simps)
qed (simp add: group_ranges_def)

lemma group_by_assignee_fold:
  "distinct (hm_keys m) \<Longrightarrow>
     distinct (hm_keys (fold (\<lambda>a. push_entry (ra_assignee a) (ra_range a)) as m)) \<and>
     mset (group_ranges (fold (\<lambda>a. push_entry (ra_assignee a) (ra_range a)) as m)) =
       mset (group_ranges m) + mset (map ra_range as)"
  by (induction as arbitrary: m) auto

lemma group_by_assignee_ranges:
  "distinct (hm_keys (group_by_assignee as))" "mset (group_ranges (group_by_assignee as)) = mset (map ra_range as)"
  using group_by_assignee_fold [of "[]" as] by (simp_all add: group_by_assignee_def group_ranges_def)

lemma take_removed_ranges:
  "distinct (hm_keys groups) \<Longrightarrow> take_removed hs groups = (kept, orphans) \<Longrightarrow>
     distinct (hm_keys kept) \<and> mset (group_ranges kept) + mset orphans = mset (group_ranges groups)"
proof (induction hs arbitrary: groups kept orphans)
  case (Cons h hs)
  let ?n = "hi_name (hi_identity h)"
  obtain kept' rest where r: "take_removed hs (hm_remove ?n groups) = (kept', rest)" by force
  let ?rs = "case hm_get groups ?n of Some ranges \<Rightarrow> ranges | None \<Rightarrow> []"
  have k: "kept = kept'" "orphans = ?rs @ rest" using Cons.prems(2) r by simp_all
  from Cons.IH [OF distinct_hm_remove [OF Cons.prems(1)] r]
  have IH: "distinct (hm_keys kept')" "mset (group_ranges kept') + mset rest = mset (group_ranges (hm_remove ?n groups))"
    by simp_all
  have "mset (group_ranges kept) + mset orphans = (mset (group_ranges kept') + mset rest) + mset ?rs"
    by (simp add: k ac_simps)
  with IH group_ranges_remove [OF Cons.prems(1), of ?n] show ?case by (simp add: k)
qed simp

lemma heap_pop_Some: "h \<noteq> [] \<Longrightarrow> \<exists>n s h'. heap_pop h = Some ((n, s), h')"
  by (simp add: heap_pop_def)

lemma assign_ranges_ok:
  assumes "heap \<noteq> []" and "distinct (hm_keys groups)"
  shows "\<exists>groups' updated'. assign_ranges rs heap groups updated = Some (groups', updated') \<and>
    distinct (hm_keys groups') \<and> mset (group_ranges groups') = mset (group_ranges groups) + mset rs \<and>
    map ra_range updated' = map ra_range updated @ rs"
  using assms
proof (induction rs arbitrary: heap groups updated)
  case (Cons r rs)
  obtain n s h where h: "heap_pop heap = Some ((n, s), h)" using heap_pop_Some [OF Cons.prems(1)] by blast
  from Cons.IH [of "(n + 1, s) # h" "push_entry s r groups" "updated @ [\<lparr>ra_range = r, ra_assignee = s\<rparr>]"]
    Cons.prems h
  show ?case by auto
qed simp

lemma flatten_groups_ranges: "map ra_range (flatten_groups groups) = group_ranges groups"
  by (induction groups) (auto simp: flatten_groups_def group_ranges_def o_def)

definition wd_ok :: "warden \<Rightarrow> bool" where
  "wd_ok wd \<longleftrightarrow>
     distinct (map wr_id (base_ranges wd)) \<and>
     mset (map ra_range (current_assignments wd)) + mset (unassigned_base_ranges wd) = mset (base_ranges wd) \<and>
     (range_assignments wd \<noteq> [] \<longrightarrow> hm_contains (range_assignments wd) (current_version wd)) \<and>
     (\<forall>v \<in> set (hm_keys (range_assignments wd)). sint v \<le> sint (current_version wd))"

lemma sint_inc: "sint (x :: i64) < 2 ^ 63 - 1 \<Longrightarrow> sint (x + 1) = sint x + 1"
proof -
  assume x: "sint x < 2 ^ 63 - 1"
  have "- (2 ^ 63) \<le> sint x" using sint_ge [of x] by simp
  with x have "signed_take_bit 63 (sint x + 1) = sint x + 1"
    by (intro signed_take_bit_int_eq_self) simp_all
  then show ?thesis by (simp add: sint_word_ariths)
qed

lemma initial_heap_not_Nil: "ready \<noteq> [] \<Longrightarrow> initial_heap groups added ready \<noteq> []"
  by (simp add: initial_heap_def)

lemma plan_assignment_ok:
  assumes "wd_ok wd"
  shows "plan_assignment prev wd = Wait \<or>
    (\<exists>plan. plan_assignment prev wd = Plan plan \<and>
       mset (group_ranges (plan_groups plan)) = mset (base_ranges wd) \<and>
       set (unassigned_base_ranges wd) \<subseteq> ra_range ` set (plan_updated plan))"
proof (cases "length (ready_range_servers wd) < MIN_NUM_RANGE_SERVERS \<or>
    server_difference (ready_range_servers wd) prev = [] \<and> server_difference prev (ready_range_servers wd) = [] \<and>
    unassigned_base_ranges wd = []")
  case True
  then show ?thesis by (auto simp: plan_assignment_def Let_def)
next
  case False
  define groups where "groups = (if range_assignments wd = [] then [] else group_by_assignee (current_assignments wd))"
  have g: "distinct (hm_keys groups)" "mset (group_ranges groups) = mset (map ra_range (current_assignments wd))"
  proof -
    have "range_assignments wd = [] \<Longrightarrow> current_assignments wd = []" by (simp add: current_assignments_def)
    then show "distinct (hm_keys groups)" "mset (group_ranges groups) = mset (map ra_range (current_assignments wd))"
      using group_by_assignee_ranges [of "current_assignments wd"] by (auto simp: groups_def, simp add: group_ranges_def)
  qed
  have get: "(if range_assignments wd = [] then Some []
      else map_option group_by_assignee (hm_get (range_assignments wd) (current_version wd))) = Some groups"
    using assms by (auto simp: wd_ok_def groups_def current_assignments_def hm_contains_def split: option.splits)
  let ?heap = "initial_heap groups (server_difference (ready_range_servers wd) prev) (ready_range_servers wd)"
  have heap: "?heap \<noteq> []" using False by (intro initial_heap_not_Nil) (auto simp: MIN_NUM_RANGE_SERVERS_def)
  obtain kept orphans where t: "take_removed (server_difference prev (ready_range_servers wd)) groups = (kept, orphans)"
    by force
  note k = take_removed_ranges [OF g(1) t]
  from assign_ranges_ok [OF heap, of kept "unassigned_base_ranges wd @ orphans" "[]"] k
  obtain groups' updated where a: "assign_ranges (unassigned_base_ranges wd @ orphans) ?heap kept [] = Some (groups', updated)"
    "mset (group_ranges groups') = mset (group_ranges kept) + mset (unassigned_base_ranges wd @ orphans)"
    "map ra_range updated = unassigned_base_ranges wd @ orphans" by auto
  have "plan_assignment prev wd = Plan \<lparr>plan_groups = groups', plan_updated = updated\<rparr>"
    using False get t a(1) by (auto simp: plan_assignment_def Let_def)
  moreover have "mset (group_ranges groups') = mset (base_ranges wd)"
  proof -
    have "mset (group_ranges groups') = (mset (group_ranges kept) + mset orphans) + mset (unassigned_base_ranges wd)"
      using a(2) by (simp add: ac_simps)
    with k g(2) assms show ?thesis by (simp add: wd_ok_def)
  qed
  moreover have "set (unassigned_base_ranges wd) \<subseteq> ra_range ` set updated"
    using arg_cong [OF a(3), of set] by auto
  ultimately show ?thesis by auto
qed

lemma install_plan_ok:
  assumes ok: "wd_ok wd" and v: "sint (current_version wd) < 2 ^ 63 - 1"
    and plan: "mset (group_ranges (plan_groups plan)) = mset (base_ranges wd)"
      "set (unassigned_base_ranges wd) \<subseteq> ra_range ` set (plan_updated plan)"
  shows "\<exists>wd'. install_plan plan wd = (wd', Ok ()) \<and> wd_ok wd' \<and> unassigned_base_ranges wd' = [] \<and>
    base_ranges wd' = base_ranges wd \<and> sint (current_version wd') = sint (current_version wd) + 1"
proof -
  let ?n = "current_version wd + 1"
  define versions where "versions = (if length (range_assignments wd) > MAX_VERSIONS_TO_KEEP
    then hm_remove (arg_min_list sint (hm_keys (range_assignments wd))) (range_assignments wd)
    else range_assignments wd)"
  have keys: "fst ` set versions \<subseteq> fst ` set (range_assignments wd)" by (auto simp: versions_def)
  have le: "sint w < sint ?n" if "w \<in> fst ` set versions" for w
    using that keys ok sint_inc [OF v] by (fastforce simp: wd_ok_def)
  then have fresh: "\<not> hm_contains versions ?n" by (auto simp: hm_contains_iff)
  have none: "filter (\<lambda>r. wr_id r \<notin> wr_id ` ra_range ` set (plan_updated plan)) (unassigned_base_ranges wd) = []"
    using plan(2) by (auto simp: filter_empty_conv)
  define wd' where "wd' = wd\<lparr>unassigned_base_ranges := [],
    range_assignments := hm_insert ?n (flatten_groups (plan_groups plan)) versions, current_version := ?n\<rparr>"
  have "install_plan plan wd = (wd', Ok ())"
    using fresh none unfolding versions_def wd'_def
    by (simp add: install_plan_def Let_def split: if_splits)
  moreover have "wd_ok wd'"
    using ok plan(1) le by (auto simp: wd_ok_def wd'_def current_assignments_def hm_contains_iff
        flatten_groups_ranges less_imp_le)
  ultimately show ?thesis by (auto simp: wd'_def sint_inc [OF v])
qed

text \<open>
  The warden and the server set of its previous round. Reported ranges have distinct identifiers,
  and the version counter, which starts at the time in milliseconds, does not reach its maximum.
\<close>

inductive wd_step :: "warden \<times> host_info list \<Rightarrow> warden \<times> host_info list \<Rightarrow> bool" where
  Register: "wd_step (wd, prev) (fst (register_range_server h wd), prev)"
| Unavailable: "wd_step (wd, prev) (notify_range_server_unavailable h wd, prev)"
| Read: "(\<And>reported. try_ok listing (parse_listing parse) = Ok reported \<Longrightarrow> distinct (map wr_id reported)) \<Longrightarrow>
    wd_step (wd, prev) (fst (read_base_ranges parse listing persisted wd), prev)"
| Run: "sint (current_version wd) < 2 ^ 63 - 1 \<Longrightarrow>
    run_assignment_computation persisted prev wd = (wd', ready, r) \<Longrightarrow> wd_step (wd, prev) (wd', ready)"

lemma read_base_ranges_ok:
  assumes ok: "wd_ok wd"
    and "\<And>reported. try_ok listing (parse_listing parse) = Ok reported \<Longrightarrow> distinct (map wr_id reported)"
  shows "wd_ok (fst (read_base_ranges parse listing persisted wd))"
proof (cases "try_ok listing (parse_listing parse)")
  case (Ok reported)
  let ?new = "filter (\<lambda>r. wr_id r \<notin> wr_id ` set (base_ranges wd)) reported"
  have "distinct (map wr_id (base_ranges wd @ ?new))"
    using ok assms(2) [OF Ok] by (auto simp: wd_ok_def distinct_map_filter) (metis image_eqI)+
  then have "wd_ok (wd\<lparr>base_ranges := base_ranges wd @ ?new,
      unassigned_base_ranges := unassigned_base_ranges wd @ ?new\<rparr>)"
    using ok by (simp add: wd_ok_def current_assignments_def ac_simps)
  with ok Ok show ?thesis by (auto simp: read_base_ranges_def Let_def split: outcome.splits)
qed (use ok in \<open>simp_all add: read_base_ranges_def\<close>)

lemma run_ok:
  assumes ok: "wd_ok wd" and v: "sint (current_version wd) < 2 ^ 63 - 1"
    and run: "run_assignment_computation persisted prev wd = (wd', ready, r)"
  shows "wd_ok wd' \<and> base_ranges wd' = base_ranges wd \<and> (r = Panic \<longrightarrow> persisted = Panic) \<and>
    (unassigned_base_ranges wd' = [] \<or> wd' = wd)"
  using plan_assignment_ok [OF ok, of prev]
proof (elim disjE exE conjE)
  assume "plan_assignment prev wd = Wait"
  with run ok show ?thesis by (auto simp: run_assignment_computation_def)
next
  fix plan
  assume p: "plan_assignment prev wd = Plan plan" "mset (group_ranges (plan_groups plan)) = mset (base_ranges wd)"
    "set (unassigned_base_ranges wd) \<subseteq> ra_range ` set (plan_updated plan)"
  from install_plan_ok [OF ok v p(2,3)] p(1) run ok show ?thesis
    by (auto simp: run_assignment_computation_def split: outcome.splits)
qed

lemma wd_step_ok: "wd_step s s' \<Longrightarrow> wd_ok (fst s) \<Longrightarrow> wd_ok (fst s')"
proof (induction rule: wd_step.induct)
  case (Register wd prev h)
  then show ?case
    by (auto simp: register_range_server_def wd_ok_def current_assignments_def split: option.splits)
next
  case (Unavailable wd prev h)
  then show ?case
    by (auto simp: notify_range_server_unavailable_def wd_ok_def current_assignments_def split: option.splits)
next
  case (Read listing parse wd prev persisted)
  from read_base_ranges_ok [OF _ Read(1)] Read(2) show ?case by simp
next
  case (Run wd persisted prev wd' ready r)
  from run_ok [OF _ Run(1,2)] Run(3) show ?case by simp
qed

lemma wd_steps_ok: "wd_step\<^sup>*\<^sup>* (warden_new now, []) s \<Longrightarrow> wd_ok (fst s)"
proof (induction rule: rtranclp_induct)
  case base
  show ?case by (simp add: warden_new_def wd_ok_def current_assignments_def)
qed (rule wd_step_ok)

text \<open>
  C8: In every reachable state each known range is either waiting to be assigned or assigned to
  exactly one server in the current version, and never both. A round then does not panic, and when
  it installs a new version no range is left waiting and none is lost.
\<close>

theorem every_range_has_one_owner:
  assumes "wd_step\<^sup>*\<^sup>* (warden_new now, []) (wd, prev)"
  shows "distinct (map wr_id (base_ranges wd)) \<and>
    mset (map ra_range (current_assignments wd)) + mset (unassigned_base_ranges wd) = mset (base_ranges wd) \<and>
    (\<forall>wd' ready r. sint (current_version wd) < 2 ^ 63 - 1 \<longrightarrow>
      run_assignment_computation (Ok ()) prev wd = (wd', ready, r) \<longrightarrow>
      r \<noteq> Panic \<and> (current_version wd' \<noteq> current_version wd \<longrightarrow>
        unassigned_base_ranges wd' = [] \<and> mset (map ra_range (current_assignments wd')) = mset (base_ranges wd)))"
proof -
  have ok: "wd_ok wd" using wd_steps_ok [OF assms] by simp
  have "r \<noteq> Panic \<and> (current_version wd' \<noteq> current_version wd \<longrightarrow>
      unassigned_base_ranges wd' = [] \<and> mset (map ra_range (current_assignments wd')) = mset (base_ranges wd))"
    if "sint (current_version wd) < 2 ^ 63 - 1" "run_assignment_computation (Ok ()) prev wd = (wd', ready, r)" for wd' ready r
    using run_ok [OF ok that] by (auto simp: wd_ok_def)
  with ok show ?thesis by (auto simp: wd_ok_def)
qed

definition wit_server :: "string \<Rightarrow> u64 \<Rightarrow> host_info" where
  "wit_server name epoch = warden_host_info \<lparr>ph_identity = name, ph_zone = ''z'', ph_epoch = epoch\<rparr>"

text \<open>Two servers, and a keyspace of two ranges; the first round gives each server one of them.\<close>

definition wit_read :: "string \<Rightarrow> uuid option" where
  "wit_read s = Some (of_nat (length s))"

definition wit_listing :: "keyspace_listing list" where
  "wit_listing = [\<lparr>kl_keyspace_id = ''1'', kl_base_key_ranges =
     [\<lparr>base_range_uuid = ''1'', proto_lower_bound_inclusive = [], proto_upper_bound_exclusive = [5]\<rparr>,
      \<lparr>base_range_uuid = ''11'', proto_lower_bound_inclusive = [5], proto_upper_bound_exclusive = []\<rparr>]\<rparr>]"

definition wit_registered :: warden where
  "wit_registered = fst (read_base_ranges wit_read (Ok wit_listing) (Ok ())
     (fst (register_range_server (wit_server ''b'' 1) (fst (register_range_server (wit_server ''a'' 1) (warden_new 0))))))"

definition wit_assigned :: warden where
  "wit_assigned = fst (run_assignment_computation (Ok ()) [] wit_registered)"

lemma wit_registered_reachable: "wd_step\<^sup>*\<^sup>* (warden_new 0, []) (wit_registered, [])"
proof -
  let ?a = "fst (register_range_server (wit_server ''a'' 1) (warden_new 0))"
  let ?b = "fst (register_range_server (wit_server ''b'' 1) ?a)"
  have "wd_step (warden_new 0, []) (?a, [])" "wd_step (?a, []) (?b, [])"
    by (rule wd_step.Register)+
  moreover have "wd_step (?b, []) (wit_registered, [])"
    unfolding wit_registered_def
    by (rule wd_step.Read) (simp add: wit_listing_def wit_read_def try_ok_def)
  ultimately show ?thesis
    by (meson converse_rtranclp_into_rtranclp rtranclp.rtrancl_refl)
qed

lemma wit_assigned_run:
  "sint (current_version wit_registered) < 2 ^ 63 - 1"
  "run_assignment_computation (Ok ()) [] wit_registered = (wit_assigned, ready_range_servers wit_registered, Ok ())"
  "current_version wit_assigned \<noteq> current_version wit_registered"
  by code_simp+

lemma wit_assigned_reachable: "wd_step\<^sup>*\<^sup>* (warden_new 0, []) (wit_assigned, ready_range_servers wit_registered)"
  using wit_registered_reachable wd_step.Run [OF wit_assigned_run(1,2)] by (rule rtranclp.rtrancl_into_rtrancl)

theorem every_range_has_one_owner_witness:
  "map wr_id (unassigned_base_ranges wit_registered) = [1, 2] \<and> current_assignments wit_registered = [] \<and>
   map (\<lambda>a. (wr_id (ra_range a), ra_assignee a)) (current_assignments wit_assigned) = [(1, ''a''), (2, ''b'')] \<and>
   unassigned_base_ranges wit_assigned = [] \<and>
   mset (map ra_range (current_assignments wit_assigned)) = mset (base_ranges wit_registered) \<and>
   distinct (map wr_id (base_ranges wit_assigned))"
proof -
  have "map wr_id (unassigned_base_ranges wit_registered) = [1, 2]" "current_assignments wit_registered = []"
    "map (\<lambda>a. (wr_id (ra_range a), ra_assignee a)) (current_assignments wit_assigned) = [(1, ''a''), (2, ''b'')]"
    by code_simp+
  moreover have "unassigned_base_ranges wit_assigned = [] \<and>
      mset (map ra_range (current_assignments wit_assigned)) = mset (base_ranges wit_registered)"
    using every_range_has_one_owner [OF wit_registered_reachable] wit_assigned_run by blast
  moreover have "distinct (map wr_id (base_ranges wit_assigned))"
    using every_range_has_one_owner [OF wit_assigned_reachable] by blast
  ultimately show ?thesis by blast
qed

section \<open>Registration epochs\<close>

definition registered_epoch :: "host_identity \<Rightarrow> warden \<Rightarrow> u64 option" where
  "registered_epoch i wd = map_option warden_connection_epoch (find (\<lambda>h. hi_identity h = i) (ready_range_servers wd))"

lemma find_other:
  "find (\<lambda>h. hi_identity h = i) (filter (\<lambda>x. \<not> same_server g x) hs) =
     (if hi_identity g = i then None else find (\<lambda>h. hi_identity h = i) hs)"
  by (induction hs) (auto simp: same_server_def find_None_iff)

lemma find_same_server: "find (same_server h) hs = find (\<lambda>x. hi_identity x = hi_identity h) hs"
  by (induction hs) (auto simp: same_server_def)

text \<open>
  A server's connection epoch only grows while it is registered: a registration is accepted
  exactly when its epoch is above the registered one, and it then is the registered one; a
  disconnect removes exactly a registration that is not newer. Other servers are not affected.
\<close>

theorem registration_epochs_increase:
  "(snd (register_range_server h wd) = Ok () \<longleftrightarrow>
      (case registered_epoch (hi_identity h) wd of Some e \<Rightarrow> e < warden_connection_epoch h | None \<Rightarrow> True)) \<and>
   registered_epoch i (fst (register_range_server h wd)) =
     (if hi_identity h = i \<and> snd (register_range_server h wd) = Ok ()
      then Some (warden_connection_epoch h) else registered_epoch i wd) \<and>
   registered_epoch i (notify_range_server_unavailable h wd) =
     (if hi_identity h = i \<and> (case registered_epoch i wd of Some e \<Rightarrow> e \<le> warden_connection_epoch h | None \<Rightarrow> False)
      then None else registered_epoch i wd)"
proof (cases "find (\<lambda>x. hi_identity x = hi_identity h) (ready_range_servers wd)")
  case None
  then show ?thesis
    by (auto simp: register_range_server_def notify_range_server_unavailable_def registered_epoch_def
        find_same_server)
next
  case (Some e)
  then show ?thesis
    by (auto simp: register_range_server_def notify_range_server_unavailable_def registered_epoch_def
        find_same_server find_other)
qed

section \<open>Removed servers\<close>

lemma assign_ranges_updated:
  "assign_ranges rs heap groups updated = Some (groups', updated') \<Longrightarrow> set updated \<subseteq> set updated'"
proof (induction rs arbitrary: heap groups updated)
  case (Cons r rs)
  then obtain n s h where "heap_pop heap = Some ((n, s), h)" by (auto split: option.splits)
  with Cons.prems Cons.IH show ?case by fastforce
qed simp

lemma heap_pop_least:
  assumes "x \<in> set heap" and "\<And>y. y \<in> set heap \<Longrightarrow> y \<noteq> x \<Longrightarrow> x < y"
  shows "heap_pop heap = Some (x, remove1 x heap)"
proof -
  have "Min (set heap) = x" using assms by (intro Min_eqI) (auto intro: less_imp_le)
  with assms(1) show ?thesis by (auto simp: heap_pop_def)
qed

text \<open>
  A range of a removed server can be given back to that server. If one server is removed and
  every other server has more ranges than it, the removed server is still in the heap as the least
  loaded, and the round assigns its first range to it again.
\<close>

theorem removed_server_gets_range_back:
  assumes "hm_get (range_assignments wd) (current_version wd) = Some as" and "ready_range_servers wd \<noteq> []"
    and "server_difference (ready_range_servers wd) prev = []"
    and "server_difference prev (ready_range_servers wd) = [h]" and "unassigned_base_ranges wd = []"
    and name: "name = hi_name (hi_identity h)" and mine: "hm_get (group_by_assignee as) name = Some (r # rs)"
    and others: "\<forall>(s, rs') \<in> set (group_by_assignee as). s \<noteq> name \<longrightarrow> length (r # rs) < length rs'"
  shows "\<exists>plan. plan_assignment prev wd = Plan plan \<and> \<lparr>ra_range = r, ra_assignee = name\<rparr> \<in> set (plan_updated plan)"
proof -
  let ?g = "group_by_assignee as"
  define heap where "heap = initial_heap ?g [] (ready_range_servers wd)"
  have "?g \<noteq> []" using mine by auto
  then have heap: "heap = map (\<lambda>(server, ranges). (length ranges, server)) ?g"
    by (simp add: heap_def initial_heap_def)
  have "(name, r # rs) \<in> set ?g" using mine by (rule map_of_SomeD)
  then have x: "(length (r # rs), name) \<in> set heap" by (force simp: heap)
  have least: "(length (r # rs), name) < y" if in_heap: "y \<in> set heap" and ne: "y \<noteq> (length (r # rs), name)" for y
  proof -
    obtain s rs' where y: "y = (length rs', s)" "(s, rs') \<in> set ?g" using in_heap by (auto simp: heap)
    have "s = name \<Longrightarrow> rs' = r # rs"
      using y(2) mine group_by_assignee_ranges(1) [of as] by (auto dest: map_of_is_SomeI)
    with others y ne show ?thesis by (cases "s = name") (auto simp: less_prod_def)
  qed
  obtain kept orphans where t: "take_removed [h] ?g = (kept, r # orphans)" using mine name by simp
  from assign_ranges_ok [of heap kept "r # orphans" "[]"] take_removed_ranges [OF group_by_assignee_ranges(1) t] x
  obtain g' u where a: "assign_ranges (r # orphans) heap kept [] = Some (g', u)" by fastforce
  have "heap_pop heap = Some ((length (r # rs), name), remove1 (length (r # rs), name) heap)"
    by (rule heap_pop_least [OF x least])
  with a have "assign_ranges orphans ((length (r # rs) + 1, name) # remove1 (length (r # rs), name) heap)
      (push_entry name r kept) [\<lparr>ra_range = r, ra_assignee = name\<rparr>] = Some (g', u)" by simp
  from assign_ranges_updated [OF this] have "\<lparr>ra_range = r, ra_assignee = name\<rparr> \<in> set u" by simp
  moreover have "plan_assignment prev wd = Plan \<lparr>plan_groups = g', plan_updated = u\<rparr>"
    using assms(1-5) t a by (auto simp: plan_assignment_def MIN_NUM_RANGE_SERVERS_def heap_def Let_def)
  ultimately show ?thesis by auto
qed

definition wit_wr :: "uuid \<Rightarrow> warden_range" where
  "wit_wr i = \<lparr>wr_keyspace_id = 0, wr_id = i, wr_key_range = key_range_all\<rparr>"

definition wit_two_servers :: warden where
  "wit_two_servers = \<lparr>base_ranges = [wit_wr 1, wit_wr 2, wit_wr 3],
     range_assignments = [(7, [\<lparr>ra_range = wit_wr 1, ra_assignee = ''a''\<rparr>,
       \<lparr>ra_range = wit_wr 2, ra_assignee = ''b''\<rparr>, \<lparr>ra_range = wit_wr 3, ra_assignee = ''b''\<rparr>])],
     current_version = 7, ready_range_servers = [wit_server ''b'' 1], unassigned_base_ranges = []\<rparr>"

theorem removed_server_gets_range_back_witness:
  "\<exists>plan. plan_assignment [wit_server ''a'' 1, wit_server ''b'' 1] wit_two_servers = Plan plan \<and>
     \<lparr>ra_range = wit_wr 1, ra_assignee = ''a''\<rparr> \<in> set (plan_updated plan)"
  by (rule removed_server_gets_range_back [where h = "wit_server ''a'' 1" and rs = "[]"
      and as = "[\<lparr>ra_range = wit_wr 1, ra_assignee = ''a''\<rparr>, \<lparr>ra_range = wit_wr 2, ra_assignee = ''b''\<rparr>,
        \<lparr>ra_range = wit_wr 3, ra_assignee = ''b''\<rparr>]"])
    (simp_all add: wit_two_servers_def server_difference_def same_server_def wit_server_def
      warden_host_info_def group_by_assignee_def push_entry_def)

end
