(* ===== verification/Warden_Handler.thy ===== *)
theory Warden_Handler
  imports Assignment Common
begin

text \<open>
  \<open>rangeserver/src/warden_handler.rs\<close>: how a range server follows the assignments that the warden
  sends it. Parsing of identifiers (\<open>Uuid::from_str\<close>) is code of another package and a parameter; what
  the handler sends to the server is a list of updates, and \<open>alive\<close> tells whether the server still
  receives them. A hash set is a list without duplicates, iterated in some order.
\<close>

section \<open>State\<close>

record started_state =
  stopped :: bool
  assigned_ranges :: "full_range_id list"

datatype wh_state = WH_NotStarted | WH_Started started_state | WH_Stopped

datatype warden_update = LoadRange full_range_id | UnloadRange full_range_id

text \<open>The protocol message; its range identifiers are pairs of strings.\<close>

datatype proto_update =
  FullAssignment "(string \<times> string) list"
| IncrementalAssignment "(string \<times> string) list" "(string \<times> string) list"

type_synonym handler_result = "full_range_id list \<times> warden_update list \<times> (string, unit) outcome"

section \<open>Processing an update\<close>

definition full_range_id_from_proto ::
    "(string \<Rightarrow> uuid option) \<Rightarrow> string \<times> string \<Rightarrow> full_range_id option" where
  "full_range_id_from_proto parse p =
     (case parse (fst p) of
        None \<Rightarrow> None
      | Some k \<Rightarrow> (case parse (snd p) of None \<Rightarrow> None | Some r \<Rightarrow> Some \<lparr>keyspace_id = k, range_id = r\<rparr>))"

fun collect_ranges :: "(string \<Rightarrow> uuid option) \<Rightarrow> (string \<times> string) list \<Rightarrow> full_range_id list option" where
  "collect_ranges parse [] = Some []"
| "collect_ranges parse (p # ps) =
     (case full_range_id_from_proto parse p of
        None \<Rightarrow> None
      | Some i \<Rightarrow> map_option (hs_insert i) (collect_ranges parse ps))"

fun process_loads ::
    "(string \<Rightarrow> uuid option) \<Rightarrow> bool \<Rightarrow> (string \<times> string) list \<Rightarrow> full_range_id list \<Rightarrow> handler_result" where
  "process_loads parse alive [] assigned = (assigned, [], Ok ())"
| "process_loads parse alive (p # ps) assigned =
     (case full_range_id_from_proto parse p of
        None \<Rightarrow> (assigned, [], Panic)
      | Some i \<Rightarrow>
          if i \<notin> set assigned \<and> \<not> alive then (assigned, [], Panic)
          else
            (case process_loads parse alive ps (hs_insert i assigned) of
               (assigned', sent, r) \<Rightarrow> (assigned', (if i \<in> set assigned then [] else [LoadRange i]) @ sent, r)))"

fun process_unloads ::
    "(string \<Rightarrow> uuid option) \<Rightarrow> bool \<Rightarrow> (string \<times> string) list \<Rightarrow> full_range_id list \<Rightarrow> handler_result" where
  "process_unloads parse alive [] assigned = (assigned, [], Ok ())"
| "process_unloads parse alive (p # ps) assigned =
     (case full_range_id_from_proto parse p of
        None \<Rightarrow> (assigned, [], Panic)
      | Some i \<Rightarrow>
          if i \<in> set assigned \<and> \<not> alive then (assigned, [], Panic)
          else
            (case process_unloads parse alive ps (removeAll i assigned) of
               (assigned', sent, r) \<Rightarrow> (assigned', (if i \<in> set assigned then [UnloadRange i] else []) @ sent, r)))"

definition process_warden_update ::
    "(string \<Rightarrow> uuid option) \<Rightarrow> bool \<Rightarrow> proto_update option \<Rightarrow> full_range_id list \<Rightarrow> handler_result" where
  "process_warden_update parse alive update assigned =
     (case update of
        None \<Rightarrow> (assigned, [], Panic)
      | Some (FullAssignment ranges) \<Rightarrow>
          (case collect_ranges parse ranges of
             None \<Rightarrow> (assigned, [], Panic)
           | Some new_assignment \<Rightarrow>
               (let sends = map UnloadRange (filter (\<lambda>i. i \<notin> set new_assignment) assigned) @
                            map LoadRange (filter (\<lambda>i. i \<notin> set assigned) new_assignment)
                in if sends \<noteq> [] \<and> \<not> alive then (assigned, [], Panic)
                   else (new_assignment, sends, Ok ())))
      | Some (IncrementalAssignment loads unloads) \<Rightarrow>
          (case process_loads parse alive loads assigned of
             (assigned, sent, Ok _) \<Rightarrow>
               (case process_unloads parse alive unloads assigned of
                  (assigned, sent', r) \<Rightarrow> (assigned, sent @ sent', r))
           | r \<Rightarrow> r))"

section \<open>The connection to the warden\<close>

text \<open>
  What the registration loop waits for: being stopped, a failed or closed stream, or an update.
\<close>

datatype stream_event = Cancelled | Stream_Error string | Stream_Closed | Stream_Update "proto_update option"

text \<open>One attempt to connect and register: it fails, or the server answers with a stream.\<close>

datatype connection = Connect_Failed string | Connected "stream_event list"

definition registration_request :: "host_info \<Rightarrow> u64 \<Rightarrow> proto_host_info" where
  "registration_request h epoch =
     \<lparr>ph_identity = hi_name (hi_identity h), ph_zone = zone_name (hi_zone (hi_identity h)), ph_epoch = epoch\<rparr>"

text \<open>One connection: the events up to the one that ends it; without one the loop is still waiting (\<open>None\<close>).\<close>

fun register_loop ::
    "(string \<Rightarrow> uuid option) \<Rightarrow> bool \<Rightarrow> stream_event list \<Rightarrow> full_range_id list \<Rightarrow>
     full_range_id list \<times> warden_update list \<times> (string, unit) outcome option" where
  "register_loop parse alive [] assigned = (assigned, [], None)"
| "register_loop parse alive (ev # evs) assigned =
     (case ev of
        Cancelled \<Rightarrow> (assigned, [], Some (Ok ()))
      | Stream_Error e \<Rightarrow> (assigned, [], Some (Err e))
      | Stream_Closed \<Rightarrow> (assigned, [], Some (Err ''connection closed with warden!''))
      | Stream_Update update \<Rightarrow>
          (case process_warden_update parse alive update assigned of
             (assigned, sent, Ok _) \<Rightarrow>
               (case register_loop parse alive evs assigned of
                  (assigned, sent', r) \<Rightarrow> (assigned, sent @ sent', r))
           | (assigned, sent, r) \<Rightarrow> (assigned, sent, Some r)))"

definition continuously_connect_and_register_inner ::
    "(string \<Rightarrow> uuid option) \<Rightarrow> bool \<Rightarrow> connection \<Rightarrow> full_range_id list \<Rightarrow>
     full_range_id list \<times> warden_update list \<times> (string, unit) outcome option" where
  "continuously_connect_and_register_inner parse alive conn assigned =
     (case conn of
        Connect_Failed e \<Rightarrow> (assigned, [], Some (Err e))
      | Connected evs \<Rightarrow> register_loop parse alive evs assigned)"

text \<open>
  The reconnecting loop over the connections made: after an error it connects again, and the
  assigned ranges are kept.
\<close>

fun continuously_connect_and_register ::
    "(string \<Rightarrow> uuid option) \<Rightarrow> bool \<Rightarrow> connection list \<Rightarrow> full_range_id list \<Rightarrow>
     full_range_id list \<times> warden_update list \<times> (string, unit) outcome option" where
  "continuously_connect_and_register parse alive [] assigned = (assigned, [], None)"
| "continuously_connect_and_register parse alive (conn # conns) assigned =
     (case continuously_connect_and_register_inner parse alive conn assigned of
        (assigned, sent, Some (Err e)) \<Rightarrow>
          (case continuously_connect_and_register parse alive conns assigned of
             (assigned, sent', r) \<Rightarrow> (assigned, sent @ sent', r))
      | r \<Rightarrow> r)"

definition wh_start :: "bool \<Rightarrow> wh_state \<Rightarrow> wh_state \<times> (string, unit) outcome" where
  "wh_start region_known st =
     (case st of
        WH_NotStarted \<Rightarrow>
          if region_known then (WH_Started \<lparr>stopped = False, assigned_ranges = []\<rparr>, Ok ())
          else (WH_NotStarted, Err ''unknown region!'')
      | _ \<Rightarrow> (st, Err ''warden_handler can only be started once''))"

text \<open>The second component is the state whose task is cancelled.\<close>

definition wh_stop :: "wh_state \<Rightarrow> wh_state \<times> started_state option" where
  "wh_stop st =
     (WH_Stopped, case st of WH_Started s \<Rightarrow> Some (s\<lparr>stopped := True\<rparr>) | _ \<Rightarrow> None)"

definition is_assigned :: "wh_state \<Rightarrow> full_range_id \<Rightarrow> bool" where
  "is_assigned st i =
     (case st of WH_NotStarted \<Rightarrow> False | WH_Stopped \<Rightarrow> False | WH_Started s \<Rightarrow> i \<in> set (assigned_ranges s))"

section \<open>What the server is told\<close>

text \<open>The set of ranges that the updates amount to, and updates that never repeat themselves.\<close>

fun follow :: "warden_update list \<Rightarrow> full_range_id set \<Rightarrow> full_range_id set" where
  "follow [] s = s"
| "follow (LoadRange i # us) s = follow us (insert i s)"
| "follow (UnloadRange i # us) s = follow us (s - {i})"

fun exact :: "warden_update list \<Rightarrow> full_range_id set \<Rightarrow> bool" where
  "exact [] s \<longleftrightarrow> True"
| "exact (LoadRange i # us) s \<longleftrightarrow> i \<notin> s \<and> exact us (insert i s)"
| "exact (UnloadRange i # us) s \<longleftrightarrow> i \<in> s \<and> exact us (s - {i})"

definition tracks :: "full_range_id list \<Rightarrow> warden_update list \<Rightarrow> full_range_id list \<Rightarrow> bool" where
  "tracks assigned sent assigned' \<longleftrightarrow>
     (distinct assigned \<longrightarrow> distinct assigned') \<and> follow sent (set assigned) = set assigned' \<and> exact sent (set assigned)"

lemma follow_append: "follow (us @ vs) s = follow vs (follow us s)"
  by (induction us s rule: follow.induct) auto

lemma exact_append: "exact (us @ vs) s \<longleftrightarrow> exact us s \<and> exact vs (follow us s)"
  by (induction us s rule: follow.induct) auto

lemma tracks_refl [simp]: "tracks assigned [] assigned"
  by (simp add: tracks_def)

lemma tracks_trans: "tracks a us b \<Longrightarrow> tracks b vs c \<Longrightarrow> tracks a (us @ vs) c"
  by (auto simp: tracks_def follow_append exact_append)

lemma tracks_load: "tracks a (if i \<in> set a then [] else [LoadRange i]) (hs_insert i a)"
  by (auto simp: tracks_def)

lemma tracks_unload: "tracks a (if i \<in> set a then [UnloadRange i] else []) (removeAll i a)"
  by (auto simp: tracks_def distinct_removeAll)

lemma follow_unloads: "follow (map UnloadRange is) s = s - set is"
  by (induction "is" arbitrary: s) auto

lemma follow_loads: "follow (map LoadRange is) s = s \<union> set is"
  by (induction "is" arbitrary: s) auto

lemma exact_unloads: "distinct is \<Longrightarrow> set is \<subseteq> s \<Longrightarrow> exact (map UnloadRange is) s"
  by (induction "is" arbitrary: s) (auto simp: subset_Diff_insert)

lemma exact_loads: "distinct is \<Longrightarrow> set is \<inter> s = {} \<Longrightarrow> exact (map LoadRange is) s"
  by (induction "is" arbitrary: s) auto

lemma collect_ranges_distinct: "collect_ranges parse ps = Some is \<Longrightarrow> distinct is"
  by (induction ps arbitrary: "is") (auto split: option.splits)

lemma set_collect_ranges:
  "collect_ranges parse ps = Some is \<Longrightarrow> set is = {i. \<exists>p\<in>set ps. full_range_id_from_proto parse p = Some i}"
  by (induction ps arbitrary: "is") (auto split: option.splits)

lemma process_loads_tracks: "process_loads parse alive ps a = (a', sent, r) \<Longrightarrow> tracks a sent a'"
proof (induction ps arbitrary: a a' sent r)
  case (Cons p ps)
  show ?case
  proof (cases "full_range_id_from_proto parse p")
    case (Some i)
    obtain b us r' where rest: "process_loads parse alive ps (hs_insert i a) = (b, us, r')"
      by (metis prod_cases3)
    show ?thesis
      using Cons.prems Some rest tracks_trans [OF tracks_load Cons.IH [OF rest]] by (auto split: if_splits)
  qed (use Cons.prems in simp)
qed simp

lemma process_unloads_tracks: "process_unloads parse alive ps a = (a', sent, r) \<Longrightarrow> tracks a sent a'"
proof (induction ps arbitrary: a a' sent r)
  case (Cons p ps)
  show ?case
  proof (cases "full_range_id_from_proto parse p")
    case (Some i)
    obtain b us r' where rest: "process_unloads parse alive ps (removeAll i a) = (b, us, r')"
      by (metis prod_cases3)
    show ?thesis
      using Cons.prems Some rest tracks_trans [OF tracks_unload Cons.IH [OF rest]] by (auto split: if_splits)
  qed (use Cons.prems in simp)
qed simp

lemma full_assignment_tracks:
  assumes "collect_ranges parse ranges = Some new"
    and "sends = map UnloadRange (filter (\<lambda>i. i \<notin> set new) a) @ map LoadRange (filter (\<lambda>i. i \<notin> set a) new)"
    and "distinct a"
  shows "tracks a sends new"
  using assms collect_ranges_distinct [OF assms(1)]
  by (auto simp: tracks_def follow_append exact_append follow_unloads follow_loads
      intro!: exact_unloads exact_loads)

lemma process_warden_update_tracks:
  assumes "process_warden_update parse alive update a = (a', sent, r)" and "distinct a"
  shows "tracks a sent a'"
proof (cases update)
  case (Some u)
  show ?thesis
  proof (cases u)
    case (FullAssignment ranges)
    then show ?thesis
      using assms Some full_assignment_tracks [of parse ranges _ _ a]
      by (auto simp: process_warden_update_def Let_def split: option.splits if_splits)
  next
    case (IncrementalAssignment loads unloads)
    obtain b us r1 where l: "process_loads parse alive loads a = (b, us, r1)"
      by (metis prod_cases3)
    obtain c vs r2 where u: "process_unloads parse alive unloads b = (c, vs, r2)"
      by (metis prod_cases3)
    show ?thesis
      using assms(1) Some IncrementalAssignment l u process_loads_tracks [OF l]
        tracks_trans [OF process_loads_tracks [OF l] process_unloads_tracks [OF u]]
      by (cases r1) (auto simp: process_warden_update_def)
  qed
qed (use assms in \<open>simp add: process_warden_update_def\<close>)

lemma tracks_distinct: "tracks a us b \<Longrightarrow> distinct a \<Longrightarrow> distinct b"
  by (simp add: tracks_def)

lemma register_loop_tracks:
  "register_loop parse alive evs a = (a', sent, r) \<Longrightarrow> distinct a \<Longrightarrow> tracks a sent a'"
proof (induction evs arbitrary: a a' sent r)
  case (Cons ev evs)
  show ?case
  proof (cases ev)
    case (Stream_Update update)
    obtain b us r1 where u: "process_warden_update parse alive update a = (b, us, r1)"
      by (metis prod_cases3)
    obtain c vs r2 where rest: "register_loop parse alive evs b = (c, vs, r2)"
      by (metis prod_cases3)
    have b: "tracks a us b"
      by (rule process_warden_update_tracks [OF u Cons.prems(2)])
    have "tracks a (us @ vs) c"
      by (rule tracks_trans [OF b Cons.IH [OF rest tracks_distinct [OF b Cons.prems(2)]]])
    then show ?thesis
      using Cons.prems(1) Stream_Update u rest b by (cases r1) auto
  qed (use Cons.prems in auto)
qed simp

lemma inner_tracks:
  "continuously_connect_and_register_inner parse alive conn a = (a', sent, r) \<Longrightarrow> distinct a \<Longrightarrow> tracks a sent a'"
  by (auto simp: continuously_connect_and_register_inner_def split: connection.splits dest: register_loop_tracks)

text \<open>
  C17: Over any number of connections, updates, errors and reconnections, what the handler has sent
  to the server amounts to exactly the ranges it takes itself to be assigned, and no update is sent
  twice: a range is loaded only while it is not loaded and unloaded only while it is.
\<close>

theorem updates_follow_assignment:
  assumes "continuously_connect_and_register parse alive conns a = (a', sent, r)"
    and "distinct a"
  shows "distinct a' \<and> follow sent (set a) = set a' \<and> exact sent (set a)"
proof -
  have "tracks a sent a'"
    using assms
  proof (induction conns arbitrary: a a' sent r)
    case (Cons conn conns)
    obtain b us r1 where i: "continuously_connect_and_register_inner parse alive conn a = (b, us, r1)"
      by (metis prod_cases3)
    obtain c vs r2 where rest: "continuously_connect_and_register parse alive conns b = (c, vs, r2)"
      by (metis prod_cases3)
    have b: "tracks a us b"
      by (rule inner_tracks [OF i Cons.prems(2)])
    have "tracks a (us @ vs) c"
      by (rule tracks_trans [OF b Cons.IH [OF rest tracks_distinct [OF b Cons.prems(2)]]])
    then show ?case
      using Cons.prems(1) i rest b by (auto split: option.splits outcome.splits)
  qed simp
  then show ?thesis
    using assms(2) by (simp add: tracks_def)
qed

definition wit_parse :: "string \<Rightarrow> uuid option" where
  "wit_parse s = (case s of [c] \<Rightarrow> Some (of_char c) | _ \<Rightarrow> None)"

definition wit_id :: "uuid \<Rightarrow> full_range_id" where
  "wit_id u = \<lparr>keyspace_id = 97, range_id = u\<rparr>"

theorem updates_follow_assignment_witness:
  "continuously_connect_and_register wit_parse True
     [Connect_Failed ''e'',
      Connected [Stream_Update (Some (FullAssignment [(''a'', ''b''), (''a'', ''c'')])), Stream_Closed],
      Connected [Stream_Update (Some (FullAssignment [(''a'', ''c'')])),
        Stream_Update (Some (IncrementalAssignment [(''a'', ''d'')] [(''a'', ''c'')])), Cancelled]] [] =
     ([wit_id 100],
      [LoadRange (wit_id 99), LoadRange (wit_id 98), UnloadRange (wit_id 98), LoadRange (wit_id 100),
       UnloadRange (wit_id 99)], Some (Ok ())) \<and>
   follow [LoadRange (wit_id 99), LoadRange (wit_id 98), UnloadRange (wit_id 98), LoadRange (wit_id 100),
     UnloadRange (wit_id 99)] (set []) = set [wit_id 100]"
proof -
  have run: "continuously_connect_and_register wit_parse True
     [Connect_Failed ''e'',
      Connected [Stream_Update (Some (FullAssignment [(''a'', ''b''), (''a'', ''c'')])), Stream_Closed],
      Connected [Stream_Update (Some (FullAssignment [(''a'', ''c'')])),
        Stream_Update (Some (IncrementalAssignment [(''a'', ''d'')] [(''a'', ''c'')])), Cancelled]] [] =
     ([wit_id 100],
      [LoadRange (wit_id 99), LoadRange (wit_id 98), UnloadRange (wit_id 98), LoadRange (wit_id 100),
       UnloadRange (wit_id 99)], Some (Ok ()))"
    by code_simp
  from conjI [OF run updates_follow_assignment [OF run distinct.simps(1) [THEN iffD2, OF TrueI],
        THEN conjunct2, THEN conjunct1]]
  show ?thesis .
qed

section \<open>Servers that follow the warden\<close>

text \<open>The ranges that the current version gives to a server.\<close>

definition owned_ranges :: "string \<Rightarrow> warden \<Rightarrow> full_range_id set" where
  "owned_ranges name wd =
     {\<lparr>keyspace_id = wr_keyspace_id (ra_range a), range_id = wr_id (ra_range a)\<rparr> | a.
        a \<in> set (current_assignments wd) \<and> ra_assignee a = name}"

lemma collect_ranges_shown:
  assumes "\<And>u. parse (show_uuid u) = Some u"
  shows "\<exists>new. collect_ranges parse (map (\<lambda>a. (show_uuid (k a), show_uuid (i a))) as) = Some new \<and>
    set new = (\<lambda>a. \<lparr>keyspace_id = k a, range_id = i a\<rparr>) ` set as"
  by (induction as) (auto simp: full_range_id_from_proto_def assms)

lemma full_update_received:
  assumes "\<And>u. parse (show_uuid u) = Some u"
    and "get_assignment_update show_uuid h (current_version wd) full wd = Some u"
    and "process_warden_update parse True (Some (FullAssignment (fa_range u))) a = (b, sent, r)"
  shows "r = Ok () \<and> set b = owned_ranges (hi_name (hi_identity h)) wd"
proof -
  obtain as where as: "hm_get (range_assignments wd) (current_version wd) = Some as"
    using assms(2) by (auto simp: get_assignment_update_def split: option.splits)
  let ?mine = "filter (\<lambda>a. ra_assignee a = hi_name (hi_identity h)) as"
  obtain new where "collect_ranges parse (fa_range u) = Some new"
      "set new = (\<lambda>a. \<lparr>keyspace_id = wr_keyspace_id (ra_range a), range_id = wr_id (ra_range a)\<rparr>) ` set ?mine"
    using collect_ranges_shown [OF assms(1), where as = ?mine and k = "\<lambda>a. wr_keyspace_id (ra_range a)"
        and i = "\<lambda>a. wr_id (ra_range a)"] assms(2) as
    by (auto simp: get_assignment_update_def)
  then show ?thesis
    using assms(3) as by (auto simp: process_warden_update_def Let_def owned_ranges_def current_assignments_def)
qed

lemma owned_ranges_disjoint:
  assumes "wd_ok wd" and "m \<noteq> n"
  shows "owned_ranges m wd \<inter> owned_ranges n wd = {}"
proof -
  have "mset (map ra_range (current_assignments wd)) + mset (unassigned_base_ranges wd) = mset (base_ranges wd)"
    and base: "distinct (map wr_id (base_ranges wd))"
    using assms(1) by (simp_all add: wd_ok_def)
  then have "mset (map wr_id (base_ranges wd)) =
      mset (map (wr_id \<circ> ra_range) (current_assignments wd) @ map wr_id (unassigned_base_ranges wd))"
    by (simp flip: map_map) (metis image_mset_union mset_map)
  with base have "distinct (map (wr_id \<circ> ra_range) (current_assignments wd))"
    using mset_eq_imp_distinct_iff by (metis distinct_append)
  then have "inj_on (wr_id \<circ> ra_range) (set (current_assignments wd))"
    by (simp add: distinct_map)
  then have "ra_assignee x = ra_assignee y" if "x \<in> set (current_assignments wd)"
      "y \<in> set (current_assignments wd)" "wr_id (ra_range x) = wr_id (ra_range y)" for x y
    using that by (metis comp_apply inj_onD)
  with assms(2) show ?thesis
    unfolding owned_ranges_def by blast
qed

text \<open>
  C14: Two servers with different names never take themselves to be assigned the same range once both
  have processed the warden's current version: processing it succeeds from any earlier set, the
  server is then assigned exactly the ranges of the current version that name it, and these sets are
  disjoint. Identifiers are assumed to be parsed back from what they are printed as.
\<close>

theorem servers_are_assigned_disjoint_ranges:
  assumes "wd_step\<^sup>*\<^sup>* (warden_new now, []) (wd, prev)"
    and "\<And>u. parse (show_uuid u) = Some u"
    and "hi_name (hi_identity h1) \<noteq> hi_name (hi_identity h2)"
    and "get_assignment_update show_uuid h1 (current_version wd) full1 wd = Some u1"
    and "get_assignment_update show_uuid h2 (current_version wd) full2 wd = Some u2"
    and "process_warden_update parse True (Some (FullAssignment (fa_range u1))) a1 = (b1, sent1, r1)"
    and "process_warden_update parse True (Some (FullAssignment (fa_range u2))) a2 = (b2, sent2, r2)"
  shows "r1 = Ok () \<and> r2 = Ok () \<and> set b1 = owned_ranges (hi_name (hi_identity h1)) wd \<and>
    set b2 = owned_ranges (hi_name (hi_identity h2)) wd \<and> set b1 \<inter> set b2 = {}"
  using full_update_received [OF assms(2) assms(4,6)] full_update_received [OF assms(2) assms(5,7)]
    owned_ranges_disjoint [OF _ assms(3)] wd_steps_ok [OF assms(1)] by simp

definition wit_show :: "uuid \<Rightarrow> string" where
  "wit_show u = replicate (unat u) (CHR ''1'')"

theorem servers_are_assigned_disjoint_ranges_witness:
  "process_warden_update wit_read True (Some (FullAssignment [(''1'', ''1'')])) [] =
     ([\<lparr>keyspace_id = 1, range_id = 1\<rparr>], [LoadRange \<lparr>keyspace_id = 1, range_id = 1\<rparr>], Ok ()) \<and>
   process_warden_update wit_read True (Some (FullAssignment [(''1'', ''11'')])) [] =
     ([\<lparr>keyspace_id = 1, range_id = 2\<rparr>], [LoadRange \<lparr>keyspace_id = 1, range_id = 2\<rparr>], Ok ()) \<and>
   owned_ranges ''a'' wit_assigned = {\<lparr>keyspace_id = 1, range_id = 1\<rparr>}"
proof -
  have u: "get_assignment_update wit_show (wit_server ''a'' 1) (current_version wit_assigned) True wit_assigned =
      Some \<lparr>fa_version = 1, fa_range = [(''1'', ''1'')]\<rparr>"
    "get_assignment_update wit_show (wit_server ''b'' 1) (current_version wit_assigned) True wit_assigned =
      Some \<lparr>fa_version = 1, fa_range = [(''1'', ''11'')]\<rparr>"
    by code_simp+
  have p: "process_warden_update wit_read True (Some (FullAssignment [(''1'', ''1'')])) [] =
      ([\<lparr>keyspace_id = 1, range_id = 1\<rparr>], [LoadRange \<lparr>keyspace_id = 1, range_id = 1\<rparr>], Ok ())"
    "process_warden_update wit_read True (Some (FullAssignment [(''1'', ''11'')])) [] =
      ([\<lparr>keyspace_id = 1, range_id = 2\<rparr>], [LoadRange \<lparr>keyspace_id = 1, range_id = 2\<rparr>], Ok ())"
    by code_simp+
  have n: "hi_name (hi_identity (wit_server ''a'' 1)) \<noteq> hi_name (hi_identity (wit_server ''b'' 1))"
    by (simp add: wit_server_def warden_host_info_def)
  have r: "wit_read (wit_show i) = Some i" for i
    by (simp add: wit_read_def wit_show_def)
  from servers_are_assigned_disjoint_ranges [OF wit_assigned_reachable r n u, simplified, OF p] p show ?thesis
    by (simp add: wit_server_def warden_host_info_def)
qed

end
