(* ===== verification/Range_Server.thy ===== *)
theory Range_Server
  imports Range_Calls Range_Wire Warden_Handler
begin

text \<open>
  \<open>rangeserver/src/server.rs\<close>: the server that owns the range managers and answers the requests of
  its clients. The managers are used through the operations \<open>ops\<close> of theory \<open>Range_Calls\<close>. A
  handler returns the response it sends, if any; a panic ends its task without one. \<open>alive\<close> tells
  whether the network still waits for the response.
\<close>

section \<open>State\<close>

record ('m, 's) server =
  sv_storage :: 's
  sv_warden_handler :: wh_state
  loaded_ranges :: "(uuid, 'm) hmap"
  transaction_table :: "(uuid, transaction_info) hmap"

definition server_new :: "'s \<Rightarrow> ('m, 's) server" where
  "server_new s = \<lparr>sv_storage = s, sv_warden_handler = WH_NotStarted, loaded_ranges = [], transaction_table = []\<rparr>"

section \<open>Transactions\<close>

definition maybe_start_transaction ::
    "time \<Rightarrow> uuid \<Rightarrow> u32 option \<Rightarrow> ('m, 's) server \<Rightarrow> ('m, 's) server" where
  "maybe_start_transaction now i info sv =
     (case info of
        None \<Rightarrow> sv
      | Some overall_timeout_us \<Rightarrow>
          if hm_contains (transaction_table sv) i then sv
          else sv\<lparr>transaction_table := hm_insert i
                 \<lparr>ti_id = i, started = now, overall_timeout = 1000 * unat overall_timeout_us\<rparr> (transaction_table sv)\<rparr>)"

definition get_transaction_info :: "uuid \<Rightarrow> ('m, 's) server \<Rightarrow> (error, transaction_info) outcome" where
  "get_transaction_info i sv =
     (case hm_get (transaction_table sv) i of Some info \<Rightarrow> Ok info | None \<Rightarrow> Err UnknownTransaction)"

definition remove_transactions :: "uuid list \<Rightarrow> ('m, 's) server \<Rightarrow> ('m, 's) server" where
  "remove_transactions ids sv = sv\<lparr>transaction_table := fold hm_remove ids (transaction_table sv)\<rparr>"

section \<open>Ranges\<close>

definition maybe_unload_range :: "('m, 's) rm_ops \<Rightarrow> full_range_id \<Rightarrow> ('m, 's) server \<Rightarrow> ('m, 's) server \<times> 'm option" where
  "maybe_unload_range ops i sv =
     (sv\<lparr>loaded_ranges := hm_remove (range_id i) (loaded_ranges sv)\<rparr>,
      map_option (rmo_unload ops) (hm_get (loaded_ranges sv) (range_id i)))"

text \<open>A call of the manager of a range; the caller holds a reference to it.\<close>

definition put_manager :: "uuid \<Rightarrow> 'm \<Rightarrow> 's \<Rightarrow> ('m, 's) server \<Rightarrow> ('m, 's) server" where
  "put_manager r m s sv = sv\<lparr>sv_storage := s, loaded_ranges := hm_insert r m (loaded_ranges sv)\<rparr>"

definition call_manager ::
    "uuid \<Rightarrow> ('m \<Rightarrow> 's \<Rightarrow> 'm \<times> 's \<times> (error, 'a) outcome) \<Rightarrow> ('m, 's) server \<Rightarrow> ('m, 's) server \<times> (error, 'a) outcome" where
  "call_manager r call sv =
     (case hm_get (loaded_ranges sv) r of
        None \<Rightarrow> (sv, Panic)
      | Some m \<Rightarrow>
          (case call m (sv_storage sv) of
             (m, s, res) \<Rightarrow> (put_manager r m s sv, res)))"

text \<open>
  The two sections of \<open>maybe_load_and_get_range_inner\<close>; the second one looks the range up again.
  Managers are referred to by the range they are kept under.
\<close>

definition load_fast_path ::
    "('m, 's) rm_ops \<Rightarrow> full_range_id \<Rightarrow> ('m, 's) server \<Rightarrow> ('m, 's) server \<times> (error, uuid) outcome option" where
  "load_fast_path ops i sv =
     (if hm_contains (loaded_ranges sv) (range_id i)
      then (case call_manager (range_id i) (rmo_load ops) sv of
              (sv, r) \<Rightarrow> (sv, Some (try_ok r (\<lambda>_. Ok (range_id i)))))
      else (sv, None))"

definition load_slow_path ::
    "('m, 's) rm_ops \<Rightarrow> full_range_id \<Rightarrow> ('m, 's) server \<Rightarrow> ('m, 's) server \<times> (error, uuid) outcome" where
  "load_slow_path ops i sv =
     (let sv = (if hm_contains (loaded_ranges sv) (range_id i) then sv
                else sv\<lparr>loaded_ranges := hm_insert (range_id i) (rmo_new ops i) (loaded_ranges sv)\<rparr>)
      in case call_manager (range_id i) (rmo_load ops) sv of (sv, r) \<Rightarrow> (sv, try_ok r (\<lambda>_. Ok (range_id i))))"

definition maybe_load_and_get_range_inner ::
    "('m, 's) rm_ops \<Rightarrow> full_range_id \<Rightarrow> ('m, 's) server \<Rightarrow> ('m, 's) server \<times> (error, uuid) outcome" where
  "maybe_load_and_get_range_inner ops i sv =
     (case load_fast_path ops i sv of
        (sv, Some r) \<Rightarrow> (sv, r)
      | (sv, None) \<Rightarrow>
          if \<not> is_assigned (sv_warden_handler sv) i then (sv, Err RangeIsNotLoaded)
          else load_slow_path ops i sv)"

definition maybe_load_and_get_range ::
    "('m, 's) rm_ops \<Rightarrow> full_range_id \<Rightarrow> ('m, 's) server \<Rightarrow> ('m, 's) server \<times> (error, uuid) outcome" where
  "maybe_load_and_get_range ops i sv =
     (case maybe_load_and_get_range_inner ops i sv of
        (sv, Err e) \<Rightarrow>
          (let remove = (case hm_get (loaded_ranges sv) (range_id i) of
                           None \<Rightarrow> False
                         | Some m \<Rightarrow> \<not> rmo_is_unloaded ops m)
           in (if remove then sv\<lparr>loaded_ranges := hm_remove (range_id i) (loaded_ranges sv)\<rparr> else sv, Err e))
      | (sv, r) \<Rightarrow> (sv, r))"

section \<open>Requests\<close>

definition send_response ::
    "'b flatbuf \<Rightarrow> bool \<Rightarrow> message_type \<Rightarrow> 'b \<Rightarrow> 'b option \<times> (string, unit) outcome" where
  "send_response fb alive msg_type msg_payload =
     (if alive
      then (Some (fb_finish fb (ResponseEnvelope (Envelope msg_type (Some msg_payload)))), Ok ())
      else (None, Panic))"

definition opt_ok :: "'a option \<Rightarrow> (error, 'a) outcome" where
  "opt_ok x = (case x of Some y \<Rightarrow> Ok y | None \<Rightarrow> Err InvalidRequestFormat)"

type_synonym reads = "(bytes \<times> bytes option) list"

text \<open>The loop over the keys.\<close>

fun get_keys ::
    "('m, 's) rm_ops \<Rightarrow> uuid \<Rightarrow> transaction_info \<Rightarrow> bytes option list \<Rightarrow> i64 \<times> reads \<times> uuid list \<Rightarrow>
     ('m, 's) server \<Rightarrow> ('m, 's) server \<times> (error, i64 \<times> reads \<times> uuid list) outcome" where
  "get_keys ops r tx [] acc sv = (sv, Ok acc)"
| "get_keys ops r tx (None # keys) acc sv = (sv, Panic)"
| "get_keys ops r tx (Some key # keys) (leader, reads, deps) sv =
     (case call_manager r (rmo_get ops tx key) sv of
        (sv, Ok res) \<Rightarrow>
          get_keys ops r tx keys
            (if leader = UNSET_LEADER_SEQUENCE_NUMBER then gr_leader_sequence_number res
             else if leader \<noteq> gr_leader_sequence_number res then INVALID_LEADER_SEQUENCE_NUMBER
             else leader,
             reads @ [(key, gr_val res)], fold hs_insert (gr_dependencies res) deps) sv
      | (sv, Err e) \<Rightarrow> (sv, Err e)
      | (sv, Panic) \<Rightarrow> (sv, Panic))"

definition get_inner ::
    "(128 word \<Rightarrow> uuid) \<Rightarrow> ('m, 's) rm_ops \<Rightarrow> time \<Rightarrow> get_request \<Rightarrow> ('m, 's) server \<Rightarrow>
     ('m, 's) server \<times> (error, i64 \<times> reads \<times> uuid list) outcome" where
  "get_inner from_le ops now req sv =
     (case try_ok (opt_ok (greq_range_id req)) (\<lambda>i.
           try_ok (opt_ok (deserialize_range_id from_le i)) (\<lambda>i.
           try_ok (opt_ok (greq_transaction_id req)) (\<lambda>t.
           try_ok (opt_ok (greq_request_id req)) (\<lambda>_. Ok (i, deserialize_uuid from_le t))))) of
        Ok (i, t) \<Rightarrow>
          (case maybe_load_and_get_range ops i (maybe_start_transaction now t (greq_transaction_info req) sv) of
             (sv, Ok r) \<Rightarrow>
               (case get_transaction_info t sv of
                  Ok tx \<Rightarrow>
                    get_keys ops r tx (case greq_keys req of Some keys \<Rightarrow> keys | None \<Rightarrow> [])
                      (UNSET_LEADER_SEQUENCE_NUMBER, [], []) sv
                | Err e \<Rightarrow> (sv, Err e)
                | Panic \<Rightarrow> (sv, Panic))
           | (sv, Err e) \<Rightarrow> (sv, Err e)
           | (sv, Panic) \<Rightarrow> (sv, Panic))
      | Err e \<Rightarrow> (sv, Err e)
      | Panic \<Rightarrow> (sv, Panic))"

text \<open>What is put into the response for a failed or successful read.\<close>

definition get_reply ::
    "(uuid \<Rightarrow> 128 word) \<Rightarrow> uuid \<Rightarrow> (error, i64 \<times> reads \<times> uuid list) outcome \<Rightarrow> get_response option" where
  "get_reply to_le request_id read_result =
     (case read_result of
        Err e \<Rightarrow>
          Some \<lparr>grsp_request_id = Some (serialize_uuid to_le request_id), grsp_status = to_flatbuf_status e,
                grsp_leader_sequence_number = - 1, grsp_records = Some [], grsp_dependencies = Some []\<rparr>
      | Ok (leader, reads, dependencies) \<Rightarrow>
          Some \<lparr>grsp_request_id = Some (serialize_uuid to_le request_id), grsp_status = S_Ok,
                grsp_leader_sequence_number = leader,
                grsp_records = Some (map (\<lambda>(k, v). (Some k, v)) reads),
                grsp_dependencies = Some (map (serialize_uuid to_le) dependencies)\<rparr>
      | Panic \<Rightarrow> None)"

type_synonym ('m, 's, 'b) handled = "('m, 's) server \<times> 'b option \<times> (string, unit) outcome"

definition server_get ::
    "'b flatbuf \<Rightarrow> (uuid \<Rightarrow> 128 word) \<Rightarrow> (128 word \<Rightarrow> uuid) \<Rightarrow> ('m, 's) rm_ops \<Rightarrow> time \<Rightarrow> bool \<Rightarrow>
     get_request \<Rightarrow> ('m, 's) server \<Rightarrow> ('m, 's, 'b) handled" where
  "server_get fb to_le from_le ops now alive req sv =
     (case greq_request_id req of
        None \<Rightarrow>
          (sv, send_response fb alive MT_Get (fb_finish fb (GetResponse
             \<lparr>grsp_request_id = None, grsp_status = S_InvalidRequestFormat, grsp_leader_sequence_number = 0,
              grsp_records = None, grsp_dependencies = None\<rparr>)))
      | Some req_id \<Rightarrow>
          (case get_inner from_le ops now req sv of
             (sv, r) \<Rightarrow>
               (case get_reply to_le (deserialize_uuid from_le req_id) r of
                  Some reply \<Rightarrow> (sv, send_response fb alive MT_Get (fb_finish fb (GetResponse reply)))
                | None \<Rightarrow> (sv, None, Panic))))"

definition prepare_inner ::
    "(128 word \<Rightarrow> uuid) \<Rightarrow> ('m, 's) rm_ops \<Rightarrow> prepare_request \<Rightarrow> ('m, 's) server \<Rightarrow>
     ('m, 's) server \<times> (error, prepare_result) outcome" where
  "prepare_inner from_le ops req sv =
     (case try_ok (opt_ok (preq_range_id req)) (\<lambda>i.
           try_ok (opt_ok (deserialize_range_id from_le i)) (\<lambda>i.
           try_ok (opt_ok (preq_transaction_id req)) (\<lambda>t. Ok (i, deserialize_uuid from_le t)))) of
        Ok (i, t) \<Rightarrow>
          (case maybe_load_and_get_range ops i sv of
             (sv, Ok r) \<Rightarrow>
               (case get_transaction_info t sv of
                  Ok tx \<Rightarrow> call_manager r (rmo_prepare ops tx req) sv
                | Err e \<Rightarrow> (sv, Err e)
                | Panic \<Rightarrow> (sv, Panic))
           | (sv, Err e) \<Rightarrow> (sv, Err e)
           | (sv, Panic) \<Rightarrow> (sv, Panic))
      | Err e \<Rightarrow> (sv, Err e)
      | Panic \<Rightarrow> (sv, Panic))"

definition prepare_reply ::
    "(uuid \<Rightarrow> 128 word) \<Rightarrow> uuid \<Rightarrow> (error, prepare_result) outcome \<Rightarrow> prepare_response option" where
  "prepare_reply to_le request_id prepare_result =
     (case prepare_result of
        Err e \<Rightarrow>
          Some \<lparr>prsp_request_id = Some (serialize_uuid to_le request_id), prsp_status = to_flatbuf_status e,
                prsp_highest_known_epoch = 0, prsp_epoch_lease = None, prsp_dependencies = Some [],
                prsp_released_lock_early = False\<rparr>
      | Ok res \<Rightarrow>
          Some \<lparr>prsp_request_id = Some (serialize_uuid to_le request_id), prsp_status = S_Ok,
                prsp_highest_known_epoch = pr_highest_known_epoch res, prsp_epoch_lease = Some (pr_epoch_lease res),
                prsp_dependencies = Some (map (serialize_uuid to_le) (pr_dependencies res)),
                prsp_released_lock_early = released_lock_early res\<rparr>
      | Panic \<Rightarrow> None)"

definition server_prepare ::
    "'b flatbuf \<Rightarrow> (uuid \<Rightarrow> 128 word) \<Rightarrow> (128 word \<Rightarrow> uuid) \<Rightarrow> ('m, 's) rm_ops \<Rightarrow> bool \<Rightarrow>
     prepare_request \<Rightarrow> ('m, 's) server \<Rightarrow> ('m, 's, 'b) handled" where
  "server_prepare fb to_le from_le ops alive req sv =
     (case preq_request_id req of
        None \<Rightarrow>
          (sv, send_response fb alive MT_Prepare (fb_finish fb (PrepareResponse
             \<lparr>prsp_request_id = None, prsp_status = S_InvalidRequestFormat, prsp_highest_known_epoch = 0,
              prsp_epoch_lease = None, prsp_dependencies = None, prsp_released_lock_early = False\<rparr>)))
      | Some req_id \<Rightarrow>
          (case prepare_inner from_le ops req sv of
             (sv, r) \<Rightarrow>
               (case prepare_reply to_le (deserialize_uuid from_le req_id) r of
                  Some reply \<Rightarrow> (sv, send_response fb alive MT_Prepare (fb_finish fb (PrepareResponse reply)))
                | None \<Rightarrow> (sv, None, Panic))))"

definition commit_inner ::
    "(128 word \<Rightarrow> uuid) \<Rightarrow> ('m, 's) rm_ops \<Rightarrow> commit_request \<Rightarrow> ('m, 's) server \<Rightarrow>
     ('m, 's) server \<times> (error, unit) outcome" where
  "commit_inner from_le ops req sv =
     (case try_ok (opt_ok (creq_range_id req)) (\<lambda>i.
           try_ok (opt_ok (deserialize_range_id from_le i)) (\<lambda>i.
           try_ok (opt_ok (creq_transaction_ids req)) (\<lambda>ts. Ok (i, map (deserialize_uuid from_le) ts)))) of
        Ok (i, ts) \<Rightarrow>
          (case maybe_load_and_get_range ops i sv of
             (sv, Ok r) \<Rightarrow>
               (case call_manager r (rmo_commit ops ts req) sv of
                  (sv, Ok _) \<Rightarrow> (remove_transactions ts sv, Ok ())
                | (sv, res) \<Rightarrow> (sv, res))
           | (sv, Err e) \<Rightarrow> (sv, Err e)
           | (sv, Panic) \<Rightarrow> (sv, Panic))
      | Err e \<Rightarrow> (sv, Err e)
      | Panic \<Rightarrow> (sv, Panic))"

definition status_reply :: "(error, unit) outcome \<Rightarrow> status option" where
  "status_reply r = (case r of Err e \<Rightarrow> Some (to_flatbuf_status e) | Ok _ \<Rightarrow> Some S_Ok | Panic \<Rightarrow> None)"

definition server_commit ::
    "'b flatbuf \<Rightarrow> (uuid \<Rightarrow> 128 word) \<Rightarrow> (128 word \<Rightarrow> uuid) \<Rightarrow> ('m, 's) rm_ops \<Rightarrow> bool \<Rightarrow>
     commit_request \<Rightarrow> ('m, 's) server \<Rightarrow> ('m, 's, 'b) handled" where
  "server_commit fb to_le from_le ops alive req sv =
     (case creq_request_id req of
        None \<Rightarrow>
          (sv, send_response fb alive MT_Commit (fb_finish fb (CommitResponse
             \<lparr>crsp_request_id = None, crsp_status = S_InvalidRequestFormat\<rparr>)))
      | Some req_id \<Rightarrow>
          (case commit_inner from_le ops req sv of
             (sv, r) \<Rightarrow>
               (case status_reply r of
                  Some status \<Rightarrow>
                    (sv, send_response fb alive MT_Commit (fb_finish fb (CommitResponse
                       \<lparr>crsp_request_id = Some (serialize_uuid to_le (deserialize_uuid from_le req_id)),
                        crsp_status = status\<rparr>)))
                | None \<Rightarrow> (sv, None, Panic))))"

definition abort_inner ::
    "(128 word \<Rightarrow> uuid) \<Rightarrow> ('m, 's) rm_ops \<Rightarrow> abort_request \<Rightarrow> ('m, 's) server \<Rightarrow>
     ('m, 's) server \<times> (error, unit) outcome" where
  "abort_inner from_le ops req sv =
     (case try_ok (opt_ok (areq_range_id req)) (\<lambda>i.
           try_ok (opt_ok (deserialize_range_id from_le i)) (\<lambda>i.
           try_ok (opt_ok (areq_transaction_id req)) (\<lambda>t. Ok (i, deserialize_uuid from_le t)))) of
        Ok (i, t) \<Rightarrow>
          (case maybe_load_and_get_range ops i sv of
             (sv, Ok r) \<Rightarrow>
               (case get_transaction_info t sv of
                  Ok tx \<Rightarrow> call_manager r (rmo_abort ops tx req) sv
                | Err e \<Rightarrow> (sv, Err e)
                | Panic \<Rightarrow> (sv, Panic))
           | (sv, Err e) \<Rightarrow> (sv, Err e)
           | (sv, Panic) \<Rightarrow> (sv, Panic))
      | Err e \<Rightarrow> (sv, Err e)
      | Panic \<Rightarrow> (sv, Panic))"

definition server_abort ::
    "'b flatbuf \<Rightarrow> (uuid \<Rightarrow> 128 word) \<Rightarrow> (128 word \<Rightarrow> uuid) \<Rightarrow> ('m, 's) rm_ops \<Rightarrow> bool \<Rightarrow>
     abort_request \<Rightarrow> ('m, 's) server \<Rightarrow> ('m, 's, 'b) handled" where
  "server_abort fb to_le from_le ops alive req sv =
     (case areq_request_id req of
        None \<Rightarrow>
          (sv, send_response fb alive MT_Abort (fb_finish fb (AbortResponse
             \<lparr>arsp_request_id = None, arsp_status = S_InvalidRequestFormat\<rparr>)))
      | Some req_id \<Rightarrow>
          (case abort_inner from_le ops req sv of
             (sv, r) \<Rightarrow>
               (case status_reply r of
                  Some status \<Rightarrow>
                    (sv, send_response fb alive MT_Abort (fb_finish fb (AbortResponse
                       \<lparr>arsp_request_id = Some (serialize_uuid to_le (deserialize_uuid from_le req_id)),
                        arsp_status = status\<rparr>)))
                | None \<Rightarrow> (sv, None, Panic))))"

text \<open>A message without a payload is unwrapped; one of an unknown type gets no response.\<close>

definition with_payload ::
    "('b \<Rightarrow> 'r option) \<Rightarrow> ('r \<Rightarrow> ('m, 's) server \<Rightarrow> ('m, 's, 'b) handled) \<Rightarrow> 'b option \<Rightarrow> ('m, 's) server \<Rightarrow>
     ('m, 's, 'b) handled" where
  "with_payload read handle payload sv =
     (case payload of
        None \<Rightarrow> (sv, None, Panic)
      | Some b \<Rightarrow> (case read b of None \<Rightarrow> (sv, None, Err ''invalid flatbuffer'') | Some req \<Rightarrow> handle req sv))"

definition handle_message ::
    "'b flatbuf \<Rightarrow> (uuid \<Rightarrow> 128 word) \<Rightarrow> (128 word \<Rightarrow> uuid) \<Rightarrow> ('m, 's) rm_ops \<Rightarrow> time \<Rightarrow> bool \<Rightarrow>
     'b \<Rightarrow> ('m, 's) server \<Rightarrow> ('m, 's, 'b) handled" where
  "handle_message fb to_le from_le ops now alive msg sv =
     (case root_request_envelope fb msg of
        None \<Rightarrow> (sv, None, Err ''invalid flatbuffer'')
      | Some (Envelope t payload) \<Rightarrow>
          (case t of
             MT_Get \<Rightarrow> with_payload (root_get_request fb) (server_get fb to_le from_le ops now alive) payload sv
           | MT_Prepare \<Rightarrow> with_payload (root_prepare_request fb) (server_prepare fb to_le from_le ops alive) payload sv
           | MT_Abort \<Rightarrow> with_payload (root_abort_request fb) (server_abort fb to_le from_le ops alive) payload sv
           | MT_Commit \<Rightarrow> with_payload (root_commit_request fb) (server_commit fb to_le from_le ops alive) payload sv
           | MT_Unknown _ \<Rightarrow> (sv, None, Ok ())))"

section \<open>The loops of the server\<close>

text \<open>
  One turn of the warden loop. A load is spawned as a task of its own; its result is not looked at,
  and its panic ends only the task.
\<close>

datatype warden_event = WE_Cancelled | WE_Closed | WE_Update warden_update

definition warden_update_turn ::
    "('m, 's) rm_ops \<Rightarrow> warden_event \<Rightarrow> ('m, 's) server \<Rightarrow> ('m, 's) server \<times> (string, unit) outcome option" where
  "warden_update_turn ops ev sv =
     (case ev of
        WE_Cancelled \<Rightarrow> (sv\<lparr>sv_warden_handler := fst (wh_stop (sv_warden_handler sv))\<rparr>, Some (Ok ()))
      | WE_Closed \<Rightarrow> (sv, Some (Err ''connection closed with warden handler!''))
      | WE_Update (LoadRange i) \<Rightarrow> (fst (maybe_load_and_get_range ops i sv), None)
      | WE_Update (UnloadRange i) \<Rightarrow> (fst (maybe_unload_range ops i sv), None))"

text \<open>One message of the network loop; errors and panics of the handler end its task only.\<close>

definition network_turn ::
    "'b flatbuf \<Rightarrow> (uuid \<Rightarrow> 128 word) \<Rightarrow> (128 word \<Rightarrow> uuid) \<Rightarrow> ('m, 's) rm_ops \<Rightarrow> time \<Rightarrow> bool \<Rightarrow>
     'b \<Rightarrow> ('m, 's) server \<Rightarrow> ('m, 's) server \<times> 'b option" where
  "network_turn fb to_le from_le ops now alive msg sv =
     (case handle_message fb to_le from_le ops now alive msg sv of (sv, sent, _) \<Rightarrow> (sv, sent))"

section \<open>The other protocol\<close>

text \<open>
  Prefetching and statistics are asked for by remote procedure calls with identifiers as strings.
  Only the first key of a prefetch request is looked at.
\<close>

record range_key =
  rk_range :: "(string \<times> string) option"
  rk_key :: bytes

record prefetch_request =
  pf_transaction_id :: string
  pf_range_key :: "range_key list"

definition server_prefetch ::
    "(string \<Rightarrow> uuid option) \<Rightarrow> ('m, 's) rm_ops \<Rightarrow> prefetch_request \<Rightarrow> ('m, 's) server \<Rightarrow>
     ('m, 's) server \<times> (string, string) outcome" where
  "server_prefetch parse ops req sv =
     (case parse (pf_transaction_id req) of
        None \<Rightarrow> (sv, Err ''Transaction id is not in the correct format'')
      | Some t \<Rightarrow>
          (case pf_range_key req of
             [] \<Rightarrow> (sv, Panic)
           | k # _ \<Rightarrow>
               (case rk_range k of
                  None \<Rightarrow> (sv, Panic)
                | Some rng \<Rightarrow>
                    (case (parse (fst rng), parse (snd rng)) of
                       (None, _) \<Rightarrow> (sv, Err ''Keyspace id is not in the correct format'')
                     | (_, None) \<Rightarrow> (sv, Err ''Range id is not in the correct format'')
                     | (Some ks, Some r) \<Rightarrow>
                         (case maybe_load_and_get_range ops \<lparr>keyspace_id = ks, range_id = r\<rparr> sv of
                            (sv, Ok r) \<Rightarrow>
                              (case call_manager r (rmo_prefetch ops t (rk_key k)) sv of
                                 (sv, Ok _) \<Rightarrow> (sv, Ok ''Prefetch request processed successfully'')
                               | (sv, Err _) \<Rightarrow> (sv, Err ''Failed to process prefetch request'')
                               | (sv, Panic) \<Rightarrow> (sv, Panic))
                          | (sv, Err _) \<Rightarrow> (sv, Err ''Failed to load range'')
                          | (sv, Panic) \<Rightarrow> (sv, Panic))))))"

text \<open>The statistics of the loaded ranges, numbered in the order of the table.\<close>

fun range_statistics :: "('m, 's) rm_ops \<Rightarrow> nat \<Rightarrow> (uuid, 'm) hmap \<Rightarrow> (uuid, 'm) hmap \<times> (nat \<times> statistics) list" where
  "range_statistics ops i [] = ([], [])"
| "range_statistics ops i ((r, m) # ms) =
     (case rmo_stats ops m of
        (m, stats) \<Rightarrow> (case range_statistics ops (Suc i) ms of (ms, rest) \<Rightarrow> ((r, m) # ms, (i, stats) # rest)))"

definition server_get_statistics :: "('m, 's) rm_ops \<Rightarrow> ('m, 's) server \<Rightarrow> ('m, 's) server \<times> (nat \<times> statistics) list" where
  "server_get_statistics ops sv =
     (case range_statistics ops 0 (loaded_ranges sv) of (ms, stats) \<Rightarrow> (sv\<lparr>loaded_ranges := ms\<rparr>, stats))"

section \<open>Invariants of the server\<close>

text \<open>The transaction that a message asks to read for, if it is a get request.\<close>

definition read_for :: "'b flatbuf \<Rightarrow> (128 word \<Rightarrow> uuid) \<Rightarrow> 'b \<Rightarrow> uuid option" where
  "read_for fb from_le msg =
     (case root_request_envelope fb msg of
        Some (Envelope MT_Get (Some p)) \<Rightarrow>
          Option.bind (root_get_request fb p) (\<lambda>req. map_option (deserialize_uuid from_le) (greq_transaction_id req))
      | _ \<Rightarrow> None)"

text \<open>
  The steps the handlers are made of. \<open>usable\<close> are the ranges whose managers may be called, \<open>startable\<close> the
  transactions that get requests may be for.
\<close>

locale server_invariant =
  fixes ops :: "('m, 's) rm_ops" and inv :: "('m, 's) server \<Rightarrow> bool" and usable :: "uuid \<Rightarrow> bool"
    and startable :: "uuid \<Rightarrow> bool"
  assumes start: "inv sv \<Longrightarrow> startable t \<Longrightarrow> inv (maybe_start_transaction now t info sv)"
    and remove: "inv sv \<Longrightarrow> inv (remove_transactions ts sv)"
    and load: "inv sv \<Longrightarrow> maybe_load_and_get_range ops i sv = (sv', res) \<Longrightarrow> inv sv'"
    and load_usable: "inv sv \<Longrightarrow> maybe_load_and_get_range ops i sv = (sv', Ok r) \<Longrightarrow> usable r"
    and put: "inv sv \<Longrightarrow> usable r \<Longrightarrow> hm_get (loaded_ranges sv) r = Some m \<Longrightarrow> inv (put_manager r m' s sv)"
begin

lemma call: "inv sv \<Longrightarrow> usable r \<Longrightarrow> call_manager r c sv = (sv', res) \<Longrightarrow> inv sv'"
  using put by (auto simp: call_manager_def split: option.splits prod.splits)

lemma keys: "inv sv \<Longrightarrow> usable r \<Longrightarrow> get_keys ops r tx ks acc sv = (sv', res) \<Longrightarrow> inv sv'"
proof (induction ks arbitrary: acc sv)
  case (Cons k ks)
  obtain leader reads deps where acc: "acc = (leader, reads, deps)" by (metis prod_cases3)
  show ?case
  proof (cases k)
    case (Some key)
    obtain sv1 r1 where c: "call_manager r (rmo_get ops tx key) sv = (sv1, r1)" by force
    have "inv sv1" by (rule call [OF Cons.prems(1,2) c])
    with Cons Some acc c show ?thesis by (cases r1) auto
  qed (use Cons.prems acc in simp)
qed simp

text \<open>A manager is found, and then something is done that keeps the invariant.\<close>

lemma load_then:
  assumes "inv sv"
    and "\<And>sv1 r. inv sv1 \<Longrightarrow> usable r \<Longrightarrow> inv (fst (act r sv1))"
  shows "inv (fst (case maybe_load_and_get_range ops i sv of
      (sv, Ok r) \<Rightarrow> act r sv | (sv, Err e) \<Rightarrow> (sv, Err (f e)) | (sv, Panic) \<Rightarrow> (sv, Panic)))"
proof -
  obtain sv1 r1 where l: "maybe_load_and_get_range ops i sv = (sv1, r1)" by force
  show ?thesis
  proof (cases r1)
    case (Ok r)
    with l have l: "maybe_load_and_get_range ops i sv = (sv1, Ok r)" by simp
    show ?thesis using assms(2) [OF load [OF assms(1) l] load_usable [OF assms(1) l]] by (simp add: l)
  qed (use load [OF assms(1) l] l in simp_all)
qed

lemma call_fst: "inv sv \<Longrightarrow> usable r \<Longrightarrow> inv (fst (call_manager r c sv))"
  by (rule call [of sv r c _ "snd (call_manager r c sv)"]) simp_all

lemma keys_fst: "inv sv \<Longrightarrow> usable r \<Longrightarrow> inv (fst (get_keys ops r tx ks acc sv))"
  by (rule keys [of sv r tx ks acc _ "snd (get_keys ops r tx ks acc sv)"]) simp_all

lemma get_inner:
  assumes "inv sv" and "\<And>t. greq_transaction_id req = Some t \<Longrightarrow> startable (deserialize_uuid from_le t)"
  shows "inv (fst (get_inner from_le ops now req sv))"
  unfolding get_inner_def using assms
  by (split outcome.split, auto simp: try_ok_def opt_ok_def split: option.splits outcome.splits
      intro!: load_then start keys_fst)

lemma prepare_inner: "inv sv \<Longrightarrow> inv (fst (prepare_inner from_le ops req sv))"
  unfolding prepare_inner_def
  by (split outcome.split, auto intro!: load_then call_fst split: outcome.split)

lemma abort_inner: "inv sv \<Longrightarrow> inv (fst (abort_inner from_le ops req sv))"
  unfolding abort_inner_def
  by (split outcome.split, auto intro!: load_then call_fst split: outcome.split)

lemma commit_then: "inv sv \<Longrightarrow> usable r \<Longrightarrow> inv (fst (case call_manager r c sv of
    (sv, Ok _) \<Rightarrow> (remove_transactions ts sv, Ok ()) | (sv, res) \<Rightarrow> (sv, res)))"
  using call_fst [of sv r c] remove by (cases "call_manager r c sv") (auto split: outcome.split)

lemma commit_inner: "inv sv \<Longrightarrow> inv (fst (commit_inner from_le ops req sv))"
  unfolding commit_inner_def
  by (split outcome.split, auto intro!: load_then commit_then)

lemma prefetch_then: "inv sv \<Longrightarrow> usable r \<Longrightarrow> inv (fst (case call_manager r c sv of
    (sv, Ok _) \<Rightarrow> (sv, Ok m) | (sv, Err _) \<Rightarrow> (sv, Err e) | (sv, Panic) \<Rightarrow> (sv, Panic)))"
  using call_fst [of sv r c] by (cases "call_manager r c sv") (auto split: outcome.split)

lemma prefetch: "inv sv \<Longrightarrow> inv (fst (server_prefetch parse ops req sv))"
  unfolding server_prefetch_def
  by (auto intro!: load_then prefetch_then split: option.split list.split)

lemma replied:
  "inv (fst s) \<Longrightarrow> inv (fst (case s of (sv, r) \<Rightarrow>
     (case reply r of Some m \<Rightarrow> (sv, answer m) | None \<Rightarrow> (sv, None, Panic))))"
  by (cases s) (simp split: option.split)

lemma get_handler:
  assumes "inv sv" and "\<And>t. greq_transaction_id req = Some t \<Longrightarrow> startable (deserialize_uuid from_le t)"
  shows "inv (fst (server_get fb to_le from_le ops now alive req sv))"
  unfolding server_get_def using assms by (auto intro!: replied get_inner split: option.split)

lemma handlers:
  assumes "inv sv"
  shows "inv (fst (server_prepare fb to_le from_le ops alive preq sv))"
    "inv (fst (server_commit fb to_le from_le ops alive creq sv))"
    "inv (fst (server_abort fb to_le from_le ops alive areq sv))"
  unfolding server_prepare_def server_commit_def server_abort_def
  using assms by (auto intro!: replied prepare_inner commit_inner abort_inner split: option.split)

lemma payload:
  "inv sv \<Longrightarrow> (\<And>b req. payload = Some b \<Longrightarrow> read b = Some req \<Longrightarrow> inv (fst (handle req sv))) \<Longrightarrow>
    inv (fst (with_payload read handle payload sv))"
  by (simp add: with_payload_def split: option.split)

lemma message:
  assumes "inv sv" and "\<And>t. read_for fb from_le msg = Some t \<Longrightarrow> startable t"
  shows "inv (fst (handle_message fb to_le from_le ops now alive msg sv))"
proof (cases "root_request_envelope fb msg")
  case (Some e)
  obtain t p where e: "e = Envelope t p" by (cases e)
  show ?thesis
  proof (cases t)
    case MT_Get
    with Some e assms show ?thesis
      by (auto simp: handle_message_def read_for_def intro!: payload get_handler)
  qed (use Some e assms(1) in \<open>auto simp: handle_message_def intro!: payload handlers\<close>)
qed (use assms(1) in \<open>simp add: handle_message_def\<close>)

end

section \<open>Well-formed tables\<close>

definition server_ok :: "('m, 's) server \<Rightarrow> bool" where
  "server_ok sv \<longleftrightarrow> distinct (hm_keys (loaded_ranges sv)) \<and> distinct (hm_keys (transaction_table sv)) \<and>
     (\<forall>(i, info) \<in> set (transaction_table sv). ti_id info = i)"

lemma set_hm_insert: "set (hm_insert k v m) \<subseteq> insert (k, v) (set m)"
  by (induction m) auto

lemma set_hm_remove: "set (hm_remove k m) \<subseteq> set m"
  by (auto simp: AList.delete_eq)

lemma fold_hm_remove:
  "set (fold hm_remove ids m) \<subseteq> set m"
  "distinct (hm_keys m) \<Longrightarrow> distinct (hm_keys (fold hm_remove ids m))"
proof (induction ids arbitrary: m)
  case (Cons i ids)
  {
    case 1
    from Cons(1) [of "hm_remove i m"] set_hm_remove [of i m] show ?case by auto
  next
    case 2
    with Cons(2) [of "hm_remove i m"] show ?case by (simp add: distinct_hm_remove)
  }
qed simp_all

lemma server_ok_tables:
  "server_ok sv \<Longrightarrow> server_ok (put_manager r m s sv)"
  "server_ok sv \<Longrightarrow> server_ok (sv\<lparr>loaded_ranges := hm_insert r m (loaded_ranges sv)\<rparr>)"
  "server_ok sv \<Longrightarrow> server_ok (sv\<lparr>loaded_ranges := hm_remove r (loaded_ranges sv)\<rparr>)"
  "server_ok sv \<Longrightarrow> server_ok (remove_transactions ts sv)"
  using fold_hm_remove(1) [of ts "transaction_table sv"]
  by (auto simp: server_ok_def put_manager_def remove_transactions_def distinct_hm_insert distinct_hm_remove
      fold_hm_remove(2))

lemma server_ok_start: "server_ok sv \<Longrightarrow> server_ok (maybe_start_transaction now t info sv)"
  using set_hm_insert [of t _ "transaction_table sv"]
  by (fastforce simp: server_ok_def maybe_start_transaction_def distinct_hm_insert split: option.split)

lemma server_ok_call: "server_ok sv \<Longrightarrow> server_ok (fst (call_manager r c sv))"
  by (auto simp: call_manager_def server_ok_tables split: option.split prod.split)

lemma server_ok_load: "server_ok sv \<Longrightarrow> maybe_load_and_get_range ops i sv = (sv', res) \<Longrightarrow> server_ok sv'"
  using server_ok_call [of sv "range_id i" "rmo_load ops"]
    server_ok_call [OF server_ok_tables(2), of sv "range_id i" "rmo_load ops" "range_id i" "rmo_new ops i"]
  by (auto simp: maybe_load_and_get_range_def maybe_load_and_get_range_inner_def load_fast_path_def
      load_slow_path_def Let_def server_ok_tables split: prod.splits if_splits outcome.splits option.splits)

interpretation well_formed: server_invariant ops server_ok "\<lambda>_. True" "\<lambda>_. True"
  by unfold_locales (simp_all add: server_ok_start server_ok_tables server_ok_load)

lemma range_statistics_keys: "hm_keys (fst (range_statistics ops n ms)) = hm_keys ms"
  by (induction ops n ms rule: range_statistics.induct) (auto split: prod.split)

lemma server_ok_others:
  assumes "server_ok sv"
  shows "server_ok (fst (maybe_unload_range ops i sv))" "server_ok (fst (server_get_statistics ops sv))"
    "server_ok (fst (warden_update_turn ops ev sv))"
proof -
  show u: "server_ok (fst (maybe_unload_range ops i sv))" for i
    using assms by (simp add: maybe_unload_range_def server_ok_tables)
  show "server_ok (fst (server_get_statistics ops sv))"
    using assms range_statistics_keys [of ops 0 "loaded_ranges sv"]
    by (auto simp: server_get_statistics_def server_ok_def split: prod.split)
  have "server_ok (fst (maybe_load_and_get_range ops i sv))" for i
    by (rule server_ok_load [OF assms, of ops i _ "snd (maybe_load_and_get_range ops i sv)"]) simp
  with u assms show "server_ok (fst (warden_update_turn ops ev sv))"
    by (auto simp: warden_update_turn_def server_ok_def split: warden_event.split warden_update.split)
qed

section \<open>Responses\<close>

text \<open>The identifier that a request or a response of the given type carries.\<close>

definition request_id_of :: "'b flatbuf \<Rightarrow> message_type \<Rightarrow> 'b \<Rightarrow> uuidu128 option option" where
  "request_id_of fb t b =
     (case t of
        MT_Get \<Rightarrow> map_option greq_request_id (root_get_request fb b)
      | MT_Prepare \<Rightarrow> map_option preq_request_id (root_prepare_request fb b)
      | MT_Commit \<Rightarrow> map_option creq_request_id (root_commit_request fb b)
      | MT_Abort \<Rightarrow> map_option areq_request_id (root_abort_request fb b)
      | MT_Unknown _ \<Rightarrow> None)"

definition response_id_of :: "'b flatbuf \<Rightarrow> message_type \<Rightarrow> 'b \<Rightarrow> uuidu128 option option" where
  "response_id_of fb t b =
     (case t of
        MT_Get \<Rightarrow> map_option grsp_request_id (root_get_response fb b)
      | MT_Prepare \<Rightarrow> map_option prsp_request_id (root_prepare_response fb b)
      | MT_Commit \<Rightarrow> map_option crsp_request_id (root_commit_response fb b)
      | MT_Abort \<Rightarrow> map_option arsp_request_id (root_abort_response fb b)
      | MT_Unknown _ \<Rightarrow> None)"

definition answered :: "'b flatbuf \<Rightarrow> message_type \<Rightarrow> uuidu128 option \<Rightarrow> 'b option \<times> (string, unit) outcome \<Rightarrow> bool" where
  "answered fb t i h \<longleftrightarrow>
     (case h of
        (None, r) \<Rightarrow> r = Panic
      | (Some b, r) \<Rightarrow> r = Ok () \<and>
          (case root_response_envelope fb b of
             Some (Envelope t' (Some q)) \<Rightarrow> t' = t \<and> response_id_of fb t q = Some i
           | _ \<Rightarrow> False))"

lemma get_reply_id: "get_reply to_le i r = Some rsp \<Longrightarrow> grsp_request_id rsp = Some (serialize_uuid to_le i)"
  by (auto simp: get_reply_def split: outcome.splits)

lemma prepare_reply_id: "prepare_reply to_le i r = Some rsp \<Longrightarrow> prsp_request_id rsp = Some (serialize_uuid to_le i)"
  by (auto simp: prepare_reply_def split: outcome.splits)

lemma handlers_answer:
  assumes "flatbuf_ok fb" and "\<And>w. to_le (from_le w) = w"
  shows "answered fb MT_Get (greq_request_id greq) (snd (server_get fb to_le from_le ops now alive greq sv))"
    "answered fb MT_Prepare (preq_request_id preq) (snd (server_prepare fb to_le from_le ops alive preq sv))"
    "answered fb MT_Commit (creq_request_id creq) (snd (server_commit fb to_le from_le ops alive creq sv))"
    "answered fb MT_Abort (areq_request_id areq) (snd (server_abort fb to_le from_le ops alive areq sv))"
  using assms(1)
  by (auto simp: server_get_def server_prepare_def server_commit_def server_abort_def answered_def
      response_id_of_def send_response_def get_reply_id prepare_reply_id
      serialize_deserialize_uuid [where to_le = to_le and from_le = from_le, OF assms(2)] split: option.split prod.split)

text \<open>
  C3: The server's tables stay well formed and its answers match the requests. Every handler, every
  update of the warden, prefetch and statistics request keeps one entry per range and per
  transaction, each transaction under its own identifier. A message is answered at most once, with a
  response of its own type that carries its own request identifier, and a readable request of a
  known type goes without a response only when its handler panics.
\<close>

theorem server_well_formed:
  assumes "flatbuf_ok fb" and "\<And>w. to_le (from_le w) = w" and "server_ok sv"
  shows "server_ok (fst (handle_message fb to_le from_le ops now alive msg sv)) \<and>
    server_ok (fst (server_prefetch parse ops req sv)) \<and> server_ok (fst (server_get_statistics ops sv)) \<and>
    server_ok (fst (warden_update_turn ops ev sv)) \<and>
    (case root_request_envelope fb msg of
       Some (Envelope t (Some p)) \<Rightarrow>
         (case request_id_of fb t p of
            Some i \<Rightarrow> answered fb t i (snd (handle_message fb to_le from_le ops now alive msg sv))
          | None \<Rightarrow> fst (snd (handle_message fb to_le from_le ops now alive msg sv)) = None)
     | _ \<Rightarrow> fst (snd (handle_message fb to_le from_le ops now alive msg sv)) = None)"
proof -
  have "case root_request_envelope fb msg of
       Some (Envelope t (Some p)) \<Rightarrow>
         (case request_id_of fb t p of
            Some i \<Rightarrow> answered fb t i (snd (handle_message fb to_le from_le ops now alive msg sv))
          | None \<Rightarrow> fst (snd (handle_message fb to_le from_le ops now alive msg sv)) = None)
     | _ \<Rightarrow> fst (snd (handle_message fb to_le from_le ops now alive msg sv)) = None"
    using handlers_answer [OF assms(1), of to_le from_le, OF assms(2)]
    by (auto simp: handle_message_def with_payload_def request_id_of_def
        split: option.splits envelope.splits message_type.splits)
  with well_formed.message [OF assms(3) TrueI] well_formed.prefetch [OF assms(3)] server_ok_others(2,3) [OF assms(3)]
  show ?thesis by (intro conjI)
qed

section \<open>Failed loads\<close>

lemma call_other: "r \<noteq> x \<Longrightarrow> hm_get (loaded_ranges (fst (call_manager x c sv))) r = hm_get (loaded_ranges sv) r"
  by (auto simp: call_manager_def put_manager_def split: option.split prod.split)

lemma fst_case_pair [simp]: "fst (case x of (a, b) \<Rightarrow> (a, f b)) = fst x"
  by (cases x) simp

lemma inner_fst:
  "fst (maybe_load_and_get_range_inner ops i sv) =
     (if hm_contains (loaded_ranges sv) (range_id i) then fst (call_manager (range_id i) (rmo_load ops) sv)
      else if \<not> is_assigned (sv_warden_handler sv) i then sv
      else fst (call_manager (range_id i) (rmo_load ops)
        (sv\<lparr>loaded_ranges := hm_insert (range_id i) (rmo_new ops i) (loaded_ranges sv)\<rparr>)))"
  by (cases "call_manager (range_id i) (rmo_load ops) sv")
    (simp add: maybe_load_and_get_range_inner_def load_slow_path_def load_fast_path_def)

lemma inner_other_range:
  assumes "r \<noteq> range_id i"
  shows "hm_get (loaded_ranges (fst (maybe_load_and_get_range_inner ops i sv))) r = hm_get (loaded_ranges sv) r"
  using assms by (simp add: inner_fst call_other)

lemma load_other_range:
  assumes "r \<noteq> range_id i"
  shows "hm_get (loaded_ranges (fst (maybe_load_and_get_range ops i sv))) r = hm_get (loaded_ranges sv) r"
  using inner_other_range [OF assms, of ops sv] assms
  by (cases "maybe_load_and_get_range_inner ops i sv") (auto simp: maybe_load_and_get_range_def Let_def split: outcome.split)

lemma load_ok_range: "maybe_load_and_get_range ops i sv = (sv', Ok r) \<Longrightarrow> r = range_id i"
  by (auto simp: maybe_load_and_get_range_def maybe_load_and_get_range_inner_def load_slow_path_def Let_def
      load_fast_path_def split: prod.splits option.splits if_splits outcome.splits)

definition stuck :: "('m, 's) rm_ops \<Rightarrow> uuid \<Rightarrow> ('m, 's) server \<Rightarrow> bool" where
  "stuck ops r sv = (case hm_get (loaded_ranges sv) r of Some m \<Rightarrow> rmo_is_unloaded ops m | None \<Rightarrow> False)"

context load_contract
begin

lemma stuck_load:
  assumes "stuck ops r sv" and "range_id i = r"
  shows "\<exists>sv'. maybe_load_and_get_range ops i sv = (sv', Err RangeIsNotLoaded) \<and> stuck ops r sv'"
proof -
  obtain m where m: "hm_get (loaded_ranges sv) r = Some m" "rmo_is_unloaded ops m"
    using assms(1) by (auto simp: stuck_def split: option.splits)
  from load_unloaded [OF m(2)] obtain m' where
    "rmo_load ops m (sv_storage sv) = (m', sv_storage sv, Err RangeIsNotLoaded)" "rmo_is_unloaded ops m'" by blast
  then show ?thesis
    using m assms(2) by (auto simp: maybe_load_and_get_range_def maybe_load_and_get_range_inner_def
        load_fast_path_def call_manager_def put_manager_def stuck_def hm_contains_def)
qed

lemma other_load:
  assumes "stuck ops r sv" and "range_id i \<noteq> r"
  shows "stuck ops r (fst (maybe_load_and_get_range ops i sv))"
  using assms load_other_range [OF assms(2) [symmetric], of ops sv]
  by (simp add: stuck_def)

end

sublocale load_contract \<subseteq> stuck: server_invariant ops "stuck ops r" "\<lambda>x. x \<noteq> r" "\<lambda>_. True" for r
proof (unfold_locales, goal_cases)
  case (1 sv now t info)
  then show ?case by (auto simp: stuck_def maybe_start_transaction_def split: option.splits)
next
  case (2 sv ts)
  then show ?case by (simp add: stuck_def remove_transactions_def)
next
  case (3 sv i sv' res)
  then show ?case using stuck_load [of r sv i] other_load [of r sv i] by fastforce
next
  case (4 sv i sv' x)
  then show ?case using stuck_load [of r sv i] load_ok_range [of ops i sv sv' x] by fastforce
next
  case (5 sv x m m' s)
  then show ?case by (simp add: stuck_def put_manager_def)
qed

text \<open>
  What can happen to a server while the warden does not take the range \<open>r\<close> from it: requests, loads
  and unloads of other ranges, updates of the assignment, and changes of the storage by other
  processes. Every call of a manager has its own environment.
\<close>

inductive server_step ::
    "'b flatbuf \<Rightarrow> (uuid \<Rightarrow> 128 word) \<Rightarrow> (128 word \<Rightarrow> uuid) \<Rightarrow>
     (('s, 'w) rm_env \<Rightarrow> (('s, 'w) range_manager, 's) rm_ops) \<Rightarrow> uuid \<Rightarrow>
     (('s, 'w) range_manager, 's) server \<Rightarrow> (('s, 'w) range_manager, 's) server \<Rightarrow> bool"
  for fb to_le from_le managers r where
  Message: "server_step fb to_le from_le managers r sv
    (fst (handle_message fb to_le from_le (managers env) now alive msg sv))"
| Prefetch: "server_step fb to_le from_le managers r sv (fst (server_prefetch parse (managers env) req sv))"
| Load: "server_step fb to_le from_le managers r sv (fst (maybe_load_and_get_range (managers env) i sv))"
| Unload: "range_id i \<noteq> r \<Longrightarrow> server_step fb to_le from_le managers r sv (fst (maybe_unload_range (managers env) i sv))"
| Assign: "server_step fb to_le from_le managers r sv (sv\<lparr>sv_warden_handler := wh\<rparr>)"
| Storage: "server_step fb to_le from_le managers r sv (sv\<lparr>sv_storage := s\<rparr>)"

lemma stuck_real: "stuck (range_manager_ops cfg so wo wal_of s0 env) r sv \<longleftrightarrow>
    (case hm_get (loaded_ranges sv) r of Some m \<Rightarrow> is_unloaded m | None \<Rightarrow> False)"
  by (simp add: stuck_def range_manager_ops_def cong: option.case_cong)

lemma server_step_stuck:
  assumes "server_step fb to_le from_le (range_manager_ops cfg so wo wal_of s0) r sv sv'"
    and "\<And>env. stuck (range_manager_ops cfg so wo wal_of s0 env) r sv"
  shows "stuck (range_manager_ops cfg so wo wal_of s0 env) r sv'"
  using assms(1)
proof cases
  case (Message env' now alive msg)
  with manager_loads.stuck.message [OF assms(2) [of env'] TrueI] show ?thesis by (simp add: stuck_real)
next
  case (Prefetch parse env' req)
  with manager_loads.stuck.prefetch [OF assms(2) [of env']] show ?thesis by (simp add: stuck_real)
next
  case (Load env' i)
  with manager_loads.stuck.load [OF assms(2) [of env'] prod.collapse [symmetric]] show ?thesis by (simp add: stuck_real)
next
  case (Unload i env')
  with assms(2) [of env'] show ?thesis by (simp add: stuck_real maybe_unload_range_def)
qed (use assms(2) [of env] in \<open>simp_all add: stuck_real\<close>)

lemma server_steps_stuck:
  assumes "(server_step fb to_le from_le (range_manager_ops cfg so wo wal_of s0) r)\<^sup>*\<^sup>* sv sv'"
    and "\<And>env. stuck (range_manager_ops cfg so wo wal_of s0 env) r sv"
  shows "stuck (range_manager_ops cfg so wo wal_of s0 env) r sv'"
  using assms by (induction arbitrary: env rule: rtranclp_induct) (auto intro: server_step_stuck)

text \<open>
  C36: A range whose load has failed once is never loaded again. The manager whose load failed is
  unloaded, and exactly unloaded managers are kept in the table, so every later request for the range
  is refused, whatever else happens and although the range is assigned to the server and the storage
  may work again, until the warden takes the range away. The first request is not even answered when
  no other request waits for the load.
\<close>

theorem failed_load_sticks:
  assumes "hm_get (loaded_ranges sv) (range_id i) = None" and "is_assigned (sv_warden_handler sv) i"
    and "load_inner so wo ((rm_new i cfg (sv_storage sv) (wal_of (range_id i)))\<lparr>rm_state := RM_Loading (env_chan env)\<rparr>) =
      (m, Err e)"
    and "maybe_load_and_get_range (range_manager_ops cfg so wo wal_of s0 env) i sv = (sv1, r1)"
    and "(server_step fb to_le from_le (range_manager_ops cfg so wo wal_of s0) (range_id i))\<^sup>*\<^sup>* sv1 sv2"
  shows "r1 = (if env_subscribers env = 0 then Panic else Err e) \<and>
    snd (maybe_load_and_get_range (range_manager_ops cfg so wo wal_of s0 env') i sv2) = Err RangeIsNotLoaded \<and>
    hm_get (loaded_ranges (fst (maybe_unload_range (range_manager_ops cfg so wo wal_of s0 env') i sv2))) (range_id i) = None"
proof -
  let ?ops = "range_manager_ops cfg so wo wal_of s0"
  let ?m = "m\<lparr>rm_state := Unloaded\<rparr>"
  have l: "rmo_load (?ops env) (rmo_new (?ops env) i) (sv_storage sv) =
      (?m, rm_storage m, if env_subscribers env = 0 then Panic else Err e)"
    using assms(3) by (simp add: range_manager_ops_def on_storage_def load_call_def load_enter_def rm_new_def load_finish_def)
  have "r1 = (if env_subscribers env = 0 then Panic else Err e)" "hm_get (loaded_ranges sv1) (range_id i) = Some ?m"
    using assms(1,2,4) l
    by (auto simp: maybe_load_and_get_range_def maybe_load_and_get_range_inner_def load_fast_path_def load_slow_path_def
        call_manager_def put_manager_def hm_contains_def range_manager_ops_def is_unloaded_def split: if_splits)
  moreover from this(2) have "stuck (?ops env'') (range_id i) sv1" for env''
    by (simp add: stuck_real is_unloaded_def)
  then have "stuck (?ops env') (range_id i) sv2" by (rule server_steps_stuck [OF assms(5)])
  from manager_loads.stuck_load [OF this refl]
  have "snd (maybe_load_and_get_range (?ops env') i sv2) = Err RangeIsNotLoaded" by auto
  ultimately show ?thesis by (simp add: maybe_unload_range_def)
qed

section \<open>Transactions a server has not read for\<close>

lemma call_transactions: "transaction_table (fst (call_manager r c sv)) = transaction_table sv"
  by (auto simp: call_manager_def put_manager_def split: option.split prod.split)

lemma load_transactions: "transaction_table (fst (maybe_load_and_get_range ops i sv)) = transaction_table sv"
proof -
  have "transaction_table (fst (maybe_load_and_get_range_inner ops i sv)) = transaction_table sv"
    by (simp add: inner_fst call_transactions)
  then show ?thesis
    by (cases "maybe_load_and_get_range_inner ops i sv")
      (auto simp: maybe_load_and_get_range_def Let_def split: outcome.split)
qed

definition unread :: "uuid \<Rightarrow> ('m, 's) server \<Rightarrow> bool" where
  "unread t sv \<longleftrightarrow> hm_get (transaction_table sv) t = None"

lemma unread_remove: "unread t sv \<Longrightarrow> unread t (remove_transactions ts sv)"
proof -
  have "hm_get m t = None \<Longrightarrow> hm_get (fold hm_remove ts m) t = None" for m :: "(uuid, transaction_info) hmap"
    by (induction ts arbitrary: m) (auto simp: delete_conv')
  then show "unread t sv \<Longrightarrow> unread t (remove_transactions ts sv)" by (simp add: unread_def remove_transactions_def)
qed

interpretation unread_table: server_invariant ops "unread t" "\<lambda>_. True" "\<lambda>x. x \<noteq> t" for t
proof (unfold_locales, goal_cases)
  case (1 sv t' now info)
  then show ?case by (auto simp: unread_def maybe_start_transaction_def split: option.split)
next
  case (3 sv i sv' res)
  with load_transactions [of ops i sv] show ?case by (simp add: unread_def)
next
  case (5 sv r m m' s)
  then show ?case by (simp add: unread_def put_manager_def)
qed (simp_all add: unread_remove)

text \<open>
  What can happen to a server while it handles no get request for the transaction \<open>t\<close>; every step may
  have its own managers' environment.
\<close>

inductive unread_step ::
    "'b flatbuf \<Rightarrow> (uuid \<Rightarrow> 128 word) \<Rightarrow> (128 word \<Rightarrow> uuid) \<Rightarrow> uuid \<Rightarrow> ('m, 's) server \<Rightarrow> ('m, 's) server \<Rightarrow> bool"
  for fb to_le from_le t where
  Unread_Message: "read_for fb from_le msg \<noteq> Some t \<Longrightarrow>
    unread_step fb to_le from_le t sv (fst (handle_message fb to_le from_le ops now alive msg sv))"
| Unread_Prefetch: "unread_step fb to_le from_le t sv (fst (server_prefetch parse ops req sv))"
| Unread_Warden: "unread_step fb to_le from_le t sv (fst (warden_update_turn ops ev sv))"
| Unread_Statistics: "unread_step fb to_le from_le t sv (fst (server_get_statistics ops sv))"
| Unread_Assign: "unread_step fb to_le from_le t sv (sv\<lparr>sv_warden_handler := wh\<rparr>)"
| Unread_Storage: "unread_step fb to_le from_le t sv (sv\<lparr>sv_storage := s\<rparr>)"

lemma unread_steps:
  assumes "(unread_step fb to_le from_le t)\<^sup>*\<^sup>* sv sv'" and "unread t sv"
  shows "unread t sv'"
  using assms
proof (induction rule: rtranclp_induct)
  case (step sv1 sv2)
  from step(2) step(3) [OF step(4)] show ?case
  proof cases
    case (Unread_Message msg ops now alive)
    then show ?thesis using step(3) [OF step(4)] by (auto intro!: unread_table.message)
  next
    case (Unread_Prefetch parse ops req)
    then show ?thesis using step(3) [OF step(4)] by (simp add: unread_table.prefetch)
  next
    case (Unread_Warden ops ev)
    then show ?thesis using step(3) [OF step(4)]
      by (auto simp: warden_update_turn_def unread_def load_transactions maybe_unload_range_def
          split: warden_event.split warden_update.split)
  next
    case (Unread_Statistics ops)
    then show ?thesis using step(3) [OF step(4)]
      by (simp add: server_get_statistics_def unread_def split: prod.split)
  qed (simp_all add: unread_def)
qed

text \<open>An example: a storage that answers only while it is up (its state), and one assigned range.\<close>

definition wit_storage :: "bool storage" where
  "wit_storage =
     \<lparr>take_ownership_and_load_range = (\<lambda>i up. (up,
        if up then Ok \<lparr>ri_id = range_id i, ri_key_range = key_range_all, leader_sequence_number = 1, epoch_lease = (0, 0)\<rparr>
        else Err StorageTimeout)),
      renew_epoch_lease = (\<lambda>i l n up. (up, Ok ())),
      batch_upsert = (\<lambda>i cs v up. (up, Ok ())),
      storage_get = (\<lambda>i k up. Ok None)\<rparr>"

definition wit_wal :: "unit wal" where
  "wit_wal = \<lparr>wal_sync = (\<lambda>w. (w, Ok ())), append_prepare = (\<lambda>_ w. (w, Ok ())),
     append_commit = (\<lambda>_ w. (w, Ok ())), append_abort = (\<lambda>_ w. (w, Ok ()))\<rparr>"

definition wit_config :: rm_config where
  "wit_config = \<lparr>cfg_commit_strategy = Traditional, cfg_heuristic = OpenClients, epoch_duration = 10000000\<rparr>"

definition wit_env :: "(bool, unit) rm_env" where
  "wit_env = \<lparr>env_now = 0, env_granted_at = 0, env_chan = 0, env_alive = (\<lambda>_. True), env_order = (\<lambda>ks. ks),
     env_locks = (\<lambda>_. lock_table_new), env_subscribers = 1, env_lock = (\<lambda>rm. (rm, True)),
     env_flush = (\<lambda>rm. (rm, Some (Ok ()))), env_watch = (\<lambda>rm. (rm, None))\<rparr>"

abbreviation wit_ops :: "(bool, unit) rm_env \<Rightarrow> ((bool, unit) range_manager, bool) rm_ops" where
  "wit_ops \<equiv> range_manager_ops wit_config wit_storage wit_wal (\<lambda>_. ()) True"

definition wit_assigned_range :: full_range_id where
  "wit_assigned_range = \<lparr>keyspace_id = 1, range_id = 2\<rparr>"

definition wit_sv :: "bool \<Rightarrow> ((bool, unit) range_manager, bool) server" where
  "wit_sv up = (server_new up)\<lparr>sv_warden_handler := WH_Started \<lparr>stopped = False, assigned_ranges = [wit_assigned_range]\<rparr>\<rparr>"

lemma wit_load_fails:
  "load_inner wit_storage wit_wal ((rm_new wit_assigned_range wit_config (sv_storage (wit_sv False)) ())
     \<lparr>rm_state := RM_Loading (env_chan wit_env)\<rparr>) =
     ((rm_new wit_assigned_range wit_config False ())\<lparr>rm_state := RM_Loading 0\<rparr>, Err Timeout)"
  by (simp add: load_inner_def num_epochs_per_lease_def wit_config_def wit_storage_def rm_new_def wit_sv_def
      server_new_def wit_env_def)

lemma wit_load_works:
  "\<exists>sv. maybe_load_and_get_range (wit_ops wit_env) wit_assigned_range (wit_sv True) = (sv, Ok (range_id wit_assigned_range)) \<and>
     transaction_table sv = []"
  by (simp add: maybe_load_and_get_range_def maybe_load_and_get_range_inner_def load_fast_path_def load_slow_path_def
      call_manager_def put_manager_def hm_contains_def range_manager_ops_def on_storage_def load_call_def load_enter_def
      rm_new_def load_finish_def load_inner_def num_epochs_per_lease_def wit_config_def wit_storage_def wit_wal_def
      wit_sv_def server_new_def is_assigned_def Let_def)

theorem failed_load_sticks_witness:
  "snd (maybe_load_and_get_range (wit_ops wit_env) wit_assigned_range
     ((fst (maybe_load_and_get_range (wit_ops wit_env) wit_assigned_range (wit_sv False)))\<lparr>sv_storage := True\<rparr>)) =
     Err RangeIsNotLoaded \<and>
   (\<exists>sv r. maybe_load_and_get_range (wit_ops wit_env) wit_assigned_range (wit_sv True) = (sv, Ok r))"
proof
  have a: "hm_get (loaded_ranges (wit_sv False)) (range_id wit_assigned_range) = None"
    "is_assigned (sv_warden_handler (wit_sv False)) wit_assigned_range"
    by (simp_all add: wit_sv_def server_new_def is_assigned_def)
  show "snd (maybe_load_and_get_range (wit_ops wit_env) wit_assigned_range
     ((fst (maybe_load_and_get_range (wit_ops wit_env) wit_assigned_range (wit_sv False)))\<lparr>sv_storage := True\<rparr>)) =
     Err RangeIsNotLoaded"
    using failed_load_sticks [OF a wit_load_fails prod.collapse [symmetric]
        r_into_rtranclp [where r = "server_step table_flatbuf (\<lambda>x. x) (\<lambda>x. x) wit_ops (range_id wit_assigned_range)",
          OF server_step.Storage [where s = True]]]
    by blast
  show "\<exists>sv r. maybe_load_and_get_range (wit_ops wit_env) wit_assigned_range (wit_sv True) = (sv, Ok r)"
    using wit_load_works by blast
qed

definition wit_get :: get_request where
  "wit_get = \<lparr>greq_request_id = Some \<lparr>lower = 7, upper = 0\<rparr>, greq_transaction_id = Some \<lparr>lower = 9, upper = 0\<rparr>,
     greq_transaction_info = Some 50, greq_range_id = Some (serialize_range_id (\<lambda>x. x) wit_assigned_range),
     greq_keys = Some [Some [1]]\<rparr>"

definition wit_msg :: table_buffer where
  "wit_msg = Buffer (RequestEnvelope (Envelope MT_Get (Some (Buffer (GetRequest wit_get)))))"

theorem server_well_formed_witness:
  "server_ok (wit_sv True) \<and>
   server_ok (fst (handle_message table_flatbuf (\<lambda>x. x) (\<lambda>x. x) (wit_ops wit_env) 0 True wit_msg (wit_sv True))) \<and>
   answered table_flatbuf MT_Get (Some \<lparr>lower = 7, upper = 0\<rparr>)
     (snd (handle_message table_flatbuf (\<lambda>x. x) (\<lambda>x. x) (wit_ops wit_env) 0 True wit_msg (wit_sv True)))"
proof -
  have ok: "server_ok (wit_sv True)"
    by (simp add: server_ok_def wit_sv_def server_new_def)
  from server_well_formed [where to_le = "\<lambda>x. x" and from_le = "\<lambda>x. x", OF table_flatbuf_ok refl ok,
      of "wit_ops wit_env" 0 True wit_msg] ok
  show ?thesis
    by (simp add: wit_msg_def wit_get_def root_request_envelope_def root_get_request_def request_id_of_def
        table_flatbuf_def)
qed

end
