(* ===== verification/Group_Commit.thy ===== *)
theory Group_Commit
  imports Common "HOL-Library.Multiset"
begin

text \<open>
  \<open>resolver/src/core/group_commit.rs\<close>: the transactions that are ready to commit, grouped by
  participant range, and the count of participant commits each of them still waits for. The
  locks of the component are fine-grained, so every critical section is a definition of its own
  and the interleavings are those of the step relation \<open>gc_step\<close>.
\<close>

section \<open>State\<close>

record participant_range_info =
  participant_range :: full_range_id
  pri_has_writes :: bool

text \<open>
  The \<open>TransactionInfo\<close> of the resolver. \<open>num_dependencies\<close> counts elements of a hash set and
  stays far below \<open>2 ^ 32\<close>. The list \<open>dependents\<close> is a hash set in its iteration order.
\<close>

record tx_entry =
  rt_id :: uuid
  num_dependencies :: nat
  dependents :: "uuid list"
  participant_ranges_info :: "participant_range_info list"
  fake :: bool

definition tx_entry_default :: "uuid \<Rightarrow> bool \<Rightarrow> tx_entry" where
  "tx_entry_default i f = \<lparr>rt_id = i, num_dependencies = 0, dependents = [],
     participant_ranges_info = [], fake = f\<rparr>"

record group_commit =
  group_per_participant :: "(full_range_id, tx_entry list) hmap"
  num_pending_commits :: "uuid \<rightharpoonup> nat"
  non_empty_groups :: "full_range_id set"
  returned_transactions :: "tx_entry list"
  committed_group_sizes :: "(nat, nat) hmap"

definition gc_new :: group_commit where
  "gc_new = \<lparr>group_per_participant = [], num_pending_commits = Map.empty, non_empty_groups = {},
     returned_transactions = [], committed_group_sizes = []\<rparr>"

definition gc_get_stats :: "group_commit \<Rightarrow> group_commit \<times> (nat, nat) hmap" where
  "gc_get_stats gc = (gc\<lparr>committed_group_sizes := []\<rparr>, committed_group_sizes gc)"

section \<open>Adding transactions\<close>

text \<open>The two nested loops that group the transactions by the ranges they write to.\<close>

definition add_participant ::
    "tx_entry \<Rightarrow> participant_range_info \<Rightarrow> (full_range_id, tx_entry list) hmap \<times> nat \<Rightarrow>
      (full_range_id, tx_entry list) hmap \<times> nat" where
  "add_participant tx info acc =
     (if pri_has_writes info
      then (hm_insert (participant_range info)
              ((case hm_get (fst acc) (participant_range info) of None \<Rightarrow> [] | Some g \<Rightarrow> g) @ [tx])
              (fst acc),
            snd acc + 1)
      else acc)"

definition add_transaction ::
    "tx_entry \<Rightarrow> (full_range_id, tx_entry list) hmap \<times> (uuid, nat) hmap \<Rightarrow>
      (full_range_id, tx_entry list) hmap \<times> (uuid, nat) hmap" where
  "add_transaction tx acc =
     (let (groups, n) = fold (add_participant tx) (participant_ranges_info tx) (fst acc, 0)
      in (groups, hm_insert (rt_id tx) n (snd acc)))"

definition group_transactions ::
    "tx_entry list \<Rightarrow> (full_range_id, tx_entry list) hmap \<times> (uuid, nat) hmap" where
  "group_transactions txs = fold add_transaction txs ([], [])"

definition maybe_insert_new_participant_ranges ::
    "full_range_id list \<Rightarrow> group_commit \<Rightarrow> group_commit" where
  "maybe_insert_new_participant_ranges ps gc =
     gc\<lparr>group_per_participant := fold (\<lambda>p m. if hm_contains m p then m else hm_insert p [] m) ps
          (group_per_participant gc)\<rparr>"

definition set_pending_commits :: "(uuid, nat) hmap \<Rightarrow> group_commit \<Rightarrow> group_commit" where
  "set_pending_commits counts gc =
     gc\<lparr>num_pending_commits := fold (\<lambda>tn m. m(fst tn \<mapsto> snd tn)) counts (num_pending_commits gc)\<rparr>"

text \<open>
  One of the parallel tasks that extend the groups. A task that finds no group panics; its caller waits
  for it and drops the result, so that nothing happens then.
\<close>

definition extend_group :: "full_range_id \<times> tx_entry list \<Rightarrow> group_commit \<Rightarrow> group_commit" where
  "extend_group g gc =
     (case hm_get (group_per_participant gc) (fst g) of
        Some old \<Rightarrow>
          gc\<lparr>group_per_participant := hm_insert (fst g) (old @ snd g) (group_per_participant gc)\<rparr>
      | None \<Rightarrow> gc)"

definition mark_non_empty :: "full_range_id list \<Rightarrow> group_commit \<Rightarrow> group_commit" where
  "mark_non_empty ps gc = gc\<lparr>non_empty_groups := non_empty_groups gc \<union> set ps\<rparr>"

text \<open>The whole of \<open>add_transactions\<close>, when nothing runs in between.\<close>

definition add_transactions :: "tx_entry list \<Rightarrow> group_commit \<Rightarrow> group_commit" where
  "add_transactions txs gc =
     (let (groups, counts) = group_transactions txs;
          gc = maybe_insert_new_participant_ranges (hm_keys groups) gc;
          gc = set_pending_commits counts gc;
          gc = fold extend_group groups gc
      in mark_non_empty (hm_keys groups) gc)"

section \<open>Committing\<close>

text \<open>The first section of a commit task: take the group of a range.\<close>

definition take_group :: "full_range_id \<Rightarrow> group_commit \<Rightarrow> group_commit \<times> tx_entry list" where
  "take_group p gc =
     (case hm_get (group_per_participant gc) p of
        Some transactions \<Rightarrow>
          (gc\<lparr>group_per_participant := hm_insert p [] (group_per_participant gc),
              non_empty_groups := non_empty_groups gc - {p}\<rparr>, transactions)
      | None \<Rightarrow> (gc, []))"

text \<open>
  What the task does with the group: the results of the transaction state store and of the range
  are arguments; an error of either is a panic of the task, which the caller ignores.
\<close>

definition commit_group ::
    "('e, unit) outcome \<Rightarrow> ('f, unit) outcome \<Rightarrow> tx_entry list \<Rightarrow> (unit, tx_entry list) outcome" where
  "commit_group stored notified transactions =
     (case transactions of
        [] \<Rightarrow> Ok []
      | tx # _ \<Rightarrow>
          if fake tx then Ok transactions
          else (case stored of
                  Ok _ \<Rightarrow> (case notified of Ok _ \<Rightarrow> Ok transactions | _ \<Rightarrow> Panic)
                | _ \<Rightarrow> Panic))"

definition record_group :: "tx_entry list \<Rightarrow> group_commit \<Rightarrow> group_commit" where
  "record_group transactions gc =
     (case transactions of
        [] \<Rightarrow> gc
      | tx # _ \<Rightarrow>
          if fake tx then gc
          else gc\<lparr>committed_group_sizes :=
                 hm_insert (length transactions)
                   (case hm_get (committed_group_sizes gc) (length transactions) of
                      Some c \<Rightarrow> c + 1 | None \<Rightarrow> 1)
                   (committed_group_sizes gc)\<rparr>)"

definition return_group :: "tx_entry list \<Rightarrow> group_commit \<Rightarrow> group_commit" where
  "return_group transactions gc =
     gc\<lparr>returned_transactions := returned_transactions gc @ transactions\<rparr>"

text \<open>The loop over the returned transactions; \<open>None\<close> is a failed assertion or a count below zero.\<close>

fun count_down ::
    "tx_entry list \<Rightarrow> (uuid \<rightharpoonup> nat) \<Rightarrow> tx_entry list \<Rightarrow> ((uuid \<rightharpoonup> nat) \<times> tx_entry list) option" where
  "count_down [] pending finished = Some (pending, finished)"
| "count_down (tx # txs) pending finished =
     (case pending (rt_id tx) of
        None \<Rightarrow> None
      | Some n \<Rightarrow>
          if n = 0 then None
          else if n - 1 = 0 then count_down txs (pending(rt_id tx := None)) (finished @ [tx])
          else count_down txs (pending(rt_id tx \<mapsto> n - 1)) finished)"

definition finish_commits :: "group_commit \<Rightarrow> group_commit \<times> (unit, tx_entry list) outcome" where
  "finish_commits gc =
     (let returned = returned_transactions gc;
          gc = gc\<lparr>returned_transactions := []\<rparr>
      in case count_down returned (num_pending_commits gc) [] of
           None \<Rightarrow> (gc, Panic)
         | Some (pending, finished) \<Rightarrow> (gc\<lparr>num_pending_commits := pending\<rparr>, Ok finished))"

section \<open>Grouping\<close>

text \<open>The ranges a transaction writes to, one entry per participant.\<close>

definition write_ranges :: "tx_entry \<Rightarrow> full_range_id list" where
  "write_ranges tx = map participant_range (filter pri_has_writes (participant_ranges_info tx))"

text \<open>The group of \<open>p\<close>: every transaction as often as \<open>p\<close> is among its write ranges, in order.\<close>

definition group_of :: "tx_entry list \<Rightarrow> full_range_id \<Rightarrow> tx_entry list" where
  "group_of txs p = concat (map (\<lambda>tx. replicate (count_list (write_ranges tx) p) tx) txs)"

definition hm_find :: "('k, 'v list) hmap \<Rightarrow> 'k \<Rightarrow> 'v list" where
  "hm_find m k = (case hm_get m k of Some v \<Rightarrow> v | None \<Rightarrow> [])"

lemma hm_find_insert [simp]: "hm_find (hm_insert k v m) k' = (if k' = k then v else hm_find m k')"
  by (simp add: hm_find_def)

lemma hm_find_Cons: "hm_find (kv # m) k = (if k = fst kv then snd kv else hm_find m k)"
  by (cases kv) (simp add: hm_find_def)

lemma add_participants:
  "hm_find (fst (fold (add_participant tx) is (m, n))) p =
     hm_find m p @ replicate (count_list (map participant_range (filter pri_has_writes is)) p) tx \<and>
   snd (fold (add_participant tx) is (m, n)) = n + length (filter pri_has_writes is) \<and>
   (distinct (hm_keys m) \<longrightarrow> distinct (hm_keys (fst (fold (add_participant tx) is (m, n)))))"
proof (induction "is" arbitrary: m n)
  case (Cons i "is")
  show ?case
    using Cons.IH [of m n]
      Cons.IH [of "hm_insert (participant_range i) (hm_find m (participant_range i) @ [tx]) m" "n + 1"]
    by (auto simp: add_participant_def hm_find_def distinct_hm_insert replicate_append_same [symmetric]
        split: option.split)
qed simp

lemma add_transactions_groups:
  "hm_find (fst (fold add_transaction txs (m, c))) p = hm_find m p @ group_of txs p \<and>
   (distinct (hm_keys m) \<longrightarrow> distinct (hm_keys (fst (fold add_transaction txs (m, c)))))"
proof (induction txs arbitrary: m c)
  case (Cons tx txs)
  then show ?case
    using add_participants [of tx "participant_ranges_info tx" m 0 p]
    by (auto simp: add_transaction_def split_beta group_of_def write_ranges_def)
qed (simp add: group_of_def)

lemma add_transaction_counts:
  "snd (add_transaction tx acc) = hm_insert (rt_id tx) (length (write_ranges tx)) (snd acc)"
  using add_participants [of tx "participant_ranges_info tx" "fst acc" 0]
  by (simp add: add_transaction_def split_beta write_ranges_def)

text \<open>Everything that sits in the lists of a map of lists.\<close>

abbreviation members :: "('k, 'v list) hmap \<Rightarrow> 'v list" where
  "members m \<equiv> concat (map snd m)"

lemma members_insert:
  "mset (members (hm_insert k v m)) + mset (hm_find m k) = mset (members m) + mset v"
proof (induction m)
  case (Cons kv m)
  then show ?case by (cases "fst kv = k"; cases kv) (auto simp: hm_find_def)
qed (simp add: hm_find_def)

lemma members_extend:
  "mset (members (hm_insert k (hm_find m k @ xs) m)) = mset (members m) + mset xs"
  using members_insert [of k "hm_find m k @ xs" m] by simp

lemma add_participants_members:
  "mset (members (fst (fold (add_participant tx) is acc))) =
     mset (members (fst acc)) + replicate_mset (length (filter pri_has_writes is)) tx"
proof (induction "is" arbitrary: acc)
  case (Cons i "is")
  then show ?case
    using members_extend [of "participant_range i" "fst acc" "[tx]"]
    by (simp add: add_participant_def hm_find_def)
qed simp

section \<open>Counting\<close>

definition outstanding :: "(uuid \<rightharpoonup> nat) \<Rightarrow> uuid \<Rightarrow> nat" where
  "outstanding pending t = (case pending t of Some n \<Rightarrow> n | None \<Rightarrow> 0)"

lemma outstanding_upd [simp]:
  "outstanding (m(t \<mapsto> n)) t' = (if t' = t then n else outstanding m t')"
  "outstanding (m(t := None)) t' = (if t' = t then 0 else outstanding m t')"
  by (simp_all add: outstanding_def)

lemma outstanding_map_add:
  "dom m \<inter> dom m' = {} \<Longrightarrow> outstanding (m ++ m') t = outstanding m t + outstanding m' t"
  by (auto simp: outstanding_def map_add_def split: option.split)

abbreviation ids :: "tx_entry list \<Rightarrow> uuid multiset" where
  "ids txs \<equiv> mset (map rt_id txs)"

lemma group_transactions_counts:
  assumes "distinct (map rt_id txs)" and "rt_id ` set txs \<inter> dom (map_of (snd acc)) = {}"
    and "\<forall>t. outstanding (map_of (snd acc)) t = count (ids (members (fst acc))) t"
  shows "\<forall>t. outstanding (map_of (snd (fold add_transaction txs acc))) t =
    count (ids (members (fst (fold add_transaction txs acc)))) t"
  using assms
proof (induction txs arbitrary: acc)
  case (Cons tx txs)
  let ?acc = "add_transaction tx acc"
  have "mset (members (fst ?acc)) = mset (members (fst acc)) + replicate_mset (length (write_ranges tx)) tx"
    using add_participants_members [of tx "participant_ranges_info tx" "(fst acc, 0)"]
    by (simp add: add_transaction_def split_beta write_ranges_def)
  moreover have "outstanding (map_of (snd acc)) (rt_id tx) = 0"
    using Cons.prems(2) by (auto simp: outstanding_def split: option.splits)
  ultimately have "\<forall>t. outstanding (map_of (snd ?acc)) t = count (ids (members (fst ?acc))) t"
    using Cons.prems(3) by (simp add: add_transaction_counts)
  moreover have "rt_id ` set txs \<inter> dom (map_of (snd ?acc)) = {}"
    using Cons.prems(1,2) by (auto simp: add_transaction_counts split: if_splits)
  ultimately show ?case using Cons.IH [of ?acc] Cons.prems(1) by simp
qed simp

lemma count_down_total:
  assumes "\<forall>t. count (ids txs) t \<le> outstanding pending t" and "\<forall>t. pending t \<noteq> Some 0"
  shows "\<exists>pending' new. count_down txs pending finished = Some (pending', finished @ new) \<and>
    (\<forall>t. outstanding pending' t = outstanding pending t - count (ids txs) t) \<and>
    (\<forall>t. pending' t \<noteq> Some 0) \<and> distinct (map rt_id new) \<and>
    set (map rt_id new) = dom pending - dom pending' \<and> dom pending' \<subseteq> dom pending \<and>
    set new \<subseteq> set txs"
  using assms
proof (induction txs arbitrary: pending finished)
  case Nil
  then show ?case by simp
next
  case (Cons tx txs)
  have "count (ids (tx # txs)) (rt_id tx) \<le> outstanding pending (rt_id tx)" using Cons.prems(1) by blast
  then obtain n where n: "pending (rt_id tx) = Some n" "0 < n"
    by (cases "pending (rt_id tx)") (auto simp: outstanding_def)
  define pending1 where "pending1 = (if n = 1 then pending(rt_id tx := None) else pending(rt_id tx \<mapsto> n - 1))"
  define fin1 where "fin1 = (if n = 1 then [tx] else [])"
  have step: "count_down (tx # txs) pending finished = count_down txs pending1 (finished @ fin1)"
    using n by (auto simp: pending1_def fin1_def)
  have out: "outstanding pending1 t = outstanding pending t - (if t = rt_id tx then 1 else 0)" for t
    using n by (simp add: pending1_def outstanding_def)
  have doms: "dom pending1 = dom pending - set (map rt_id fin1)" "set (map rt_id fin1) \<subseteq> dom pending"
    using n by (auto simp: pending1_def fin1_def split: if_splits)
  have le: "\<forall>t. count (ids txs) t \<le> outstanding pending1 t"
  proof
    fix t show "count (ids txs) t \<le> outstanding pending1 t"
      using Cons.prems(1) [THEN spec, of t] out [of t] by (cases "t = rt_id tx") simp_all
  qed
  have nz: "\<forall>t. pending1 t \<noteq> Some 0" using Cons.prems(2) n by (simp add: pending1_def)
  obtain pending' new where IH:
    "count_down txs pending1 (finished @ fin1) = Some (pending', (finished @ fin1) @ new)"
    "\<forall>t. outstanding pending' t = outstanding pending1 t - count (ids txs) t"
    "\<forall>t. pending' t \<noteq> Some 0" "distinct (map rt_id new)"
    "set (map rt_id new) = dom pending1 - dom pending'"
    "dom pending' \<subseteq> dom pending1" "set new \<subseteq> set txs"
    using Cons.IH [OF le nz, of "finished @ fin1"] by (elim exE conjE) blast
  have "distinct (map rt_id (fin1 @ new))"
    using IH(4,5) doms(1) by (auto simp: fin1_def)
  moreover have "set (map rt_id (fin1 @ new)) = dom pending - dom pending'"
    using IH(5,6) doms by auto
  moreover have "set (fin1 @ new) \<subseteq> set (tx # txs)" using IH(7) by (auto simp: fin1_def)
  moreover have "\<forall>t. outstanding pending' t = outstanding pending t - count (ids (tx # txs)) t"
    using IH(2) by (simp add: out)
  moreover have "dom pending' \<subseteq> dom pending" using IH(6) doms by auto
  ultimately show ?case using IH(1,3) step by (intro exI [of _ pending'] exI [of _ "fin1 @ new"]) simp
qed

section \<open>Interleavings\<close>

text \<open>
  The component together with what its callers are in the middle of: groups that are still to be
  extended, groups taken by commit tasks that have not yet returned them, the transactions ever
  added and the ones reported as finished.
\<close>

record gc_sys =
  gs_gc :: group_commit
  gs_adding :: "(full_range_id, tx_entry list) hmap"
  gs_taken :: "tx_entry list list"
  gs_seen :: "uuid set"
  gs_finished :: "uuid list"

definition gc_sys_init :: gc_sys where
  "gc_sys_init = \<lparr>gs_gc = gc_new, gs_adding = [], gs_taken = [], gs_seen = {}, gs_finished = []\<rparr>"

text \<open>
  A transaction is added once and writes somewhere. Marking may happen at any time and for any
  range; a group may be taken whether or not it is marked, since the commit works on a snapshot
  of the marks.
\<close>

inductive gc_step :: "gc_sys \<Rightarrow> gc_sys \<Rightarrow> bool" where
  Add: "\<lbrakk>distinct (map rt_id txs); rt_id ` set txs \<inter> gs_seen s = {};
     \<forall>tx \<in> set txs. write_ranges tx \<noteq> []; group_transactions txs = (groups, counts)\<rbrakk> \<Longrightarrow>
   gc_step s (s\<lparr>gs_gc := set_pending_commits counts
                  (maybe_insert_new_participant_ranges (hm_keys groups) (gs_gc s)),
                gs_adding := gs_adding s @ groups, gs_seen := gs_seen s \<union> rt_id ` set txs\<rparr>)"
| Extend: "gs_adding s = xs @ g # ys \<Longrightarrow>
   gc_step s (s\<lparr>gs_gc := extend_group g (gs_gc s), gs_adding := xs @ ys\<rparr>)"
| Mark: "gc_step s (s\<lparr>gs_gc := mark_non_empty ps (gs_gc s)\<rparr>)"
| Take: "take_group p (gs_gc s) = (gc, txs) \<Longrightarrow>
   gc_step s (s\<lparr>gs_gc := gc, gs_taken := gs_taken s @ [txs]\<rparr>)"
| Return: "\<lbrakk>gs_taken s = xs @ txs # ys;
     commit_group (stored :: (unit, unit) outcome) (notified :: (unit, unit) outcome) txs = Ok txs'\<rbrakk> \<Longrightarrow>
   gc_step s (s\<lparr>gs_gc := return_group txs' (record_group txs (gs_gc s)), gs_taken := xs @ ys\<rparr>)"
| Finish: "finish_commits (gs_gc s) = (gc, Ok txs) \<Longrightarrow>
   gc_step s (s\<lparr>gs_gc := gc, gs_finished := gs_finished s @ map rt_id txs\<rparr>)"

text \<open>The participant commits that are still to be made, wherever they are.\<close>

definition in_flight :: "gc_sys \<Rightarrow> tx_entry list" where
  "in_flight s = members (gs_adding s) @ members (group_per_participant (gs_gc s)) @
     concat (gs_taken s) @ returned_transactions (gs_gc s)"

definition gc_inv :: "gc_sys \<Rightarrow> bool" where
  "gc_inv s \<longleftrightarrow>
     (\<forall>t. outstanding (num_pending_commits (gs_gc s)) t = count (ids (in_flight s)) t) \<and>
     (\<forall>t. num_pending_commits (gs_gc s) t \<noteq> Some 0) \<and>
     distinct (gs_finished s) \<and>
     dom (num_pending_commits (gs_gc s)) \<inter> set (gs_finished s) = {} \<and>
     gs_seen s = dom (num_pending_commits (gs_gc s)) \<union> set (gs_finished s) \<and>
     (\<forall>p \<in> set (hm_keys (gs_adding s)). hm_contains (group_per_participant (gs_gc s)) p)"

lemma counts_fold:
  "distinct (hm_keys (snd acc)) \<Longrightarrow> distinct (hm_keys (snd (fold add_transaction txs acc)))"
  "dom (map_of (snd (fold add_transaction txs acc))) = dom (map_of (snd acc)) \<union> rt_id ` set txs"
  "\<lbrakk>\<forall>tx \<in> set txs. write_ranges tx \<noteq> []; \<forall>t. map_of (snd acc) t \<noteq> Some 0\<rbrakk> \<Longrightarrow>
     \<forall>t. map_of (snd (fold add_transaction txs acc)) t \<noteq> Some 0"
  by (induction txs arbitrary: acc) (auto simp: add_transaction_counts distinct_hm_insert)

lemma gc_frame [simp]:
  "group_per_participant (set_pending_commits c gc) = group_per_participant gc"
  "returned_transactions (set_pending_commits c gc) = returned_transactions gc"
  "returned_transactions (maybe_insert_new_participant_ranges ps gc) = returned_transactions gc"
  "num_pending_commits (maybe_insert_new_participant_ranges ps gc) = num_pending_commits gc"
  by (simp_all add: set_pending_commits_def maybe_insert_new_participant_ranges_def)

lemma fold_upds:
  "distinct (map fst kvs) \<Longrightarrow> fold (\<lambda>kv m. m(fst kv \<mapsto> snd kv)) kvs m = m ++ map_of kvs"
proof (induction kvs arbitrary: m)
  case (Cons kv kvs)
  then have "map_of kvs (fst kv) = None" by (simp add: map_of_eq_None_iff)
  with Cons show ?case by (auto simp: fun_eq_iff map_add_def split: option.split)
qed simp

lemma set_pending_commits_map_add:
  "distinct (hm_keys counts) \<Longrightarrow>
     num_pending_commits (set_pending_commits counts gc) = num_pending_commits gc ++ map_of counts"
  by (simp add: set_pending_commits_def fold_upds)

lemma hm_contains_insert [simp]: "hm_contains (hm_insert k v m) k' \<longleftrightarrow> k' = k \<or> hm_contains m k'"
  by (simp add: hm_contains_def)

lemma members_insert_new: "\<not> hm_contains m k \<Longrightarrow> members (hm_insert k [] m) = members m"
  by (induction m) (auto simp: hm_contains_def split: if_splits)

lemma insert_new_fold:
  "members (fold (\<lambda>p m. if hm_contains m p then m else hm_insert p [] m) ps m) = members m"
  "hm_contains (fold (\<lambda>p m. if hm_contains m p then m else hm_insert p [] m) ps m) q \<longleftrightarrow>
     q \<in> set ps \<or> hm_contains m q"
  by (induction ps arbitrary: m) (auto simp: members_insert_new)

lemma insert_ranges:
  "members (group_per_participant (maybe_insert_new_participant_ranges ps gc)) = members (group_per_participant gc)"
  "hm_contains (group_per_participant (maybe_insert_new_participant_ranges ps gc)) p \<longleftrightarrow>
     p \<in> set ps \<or> hm_contains (group_per_participant gc) p"
  by (simp_all add: maybe_insert_new_participant_ranges_def insert_new_fold)

lemma gc_invI:
  assumes "\<And>t. outstanding (num_pending_commits (gs_gc s)) t = count (ids (in_flight s)) t"
    and "\<And>t. num_pending_commits (gs_gc s) t \<noteq> Some 0"
    and "distinct (gs_finished s)"
    and "dom (num_pending_commits (gs_gc s)) \<inter> set (gs_finished s) = {}"
    and "gs_seen s = dom (num_pending_commits (gs_gc s)) \<union> set (gs_finished s)"
    and "\<And>p. p \<in> set (hm_keys (gs_adding s)) \<Longrightarrow> hm_contains (group_per_participant (gs_gc s)) p"
  shows "gc_inv s"
  using assms by (simp add: gc_inv_def)

lemma gc_invD:
  assumes "gc_inv s"
  shows "outstanding (num_pending_commits (gs_gc s)) t = count (ids (in_flight s)) t"
    and "num_pending_commits (gs_gc s) t \<noteq> Some 0"
    and "distinct (gs_finished s)"
    and "dom (num_pending_commits (gs_gc s)) \<inter> set (gs_finished s) = {}"
    and "gs_seen s = dom (num_pending_commits (gs_gc s)) \<union> set (gs_finished s)"
    and "p \<in> set (hm_keys (gs_adding s)) \<Longrightarrow> hm_contains (group_per_participant (gs_gc s)) p"
  using assms unfolding gc_inv_def by blast+

text \<open>Steps that only move participant commits from one place to another.\<close>

lemma gc_inv_move:
  assumes "gc_inv s" and "num_pending_commits (gs_gc s') = num_pending_commits (gs_gc s)"
    and "gs_finished s' = gs_finished s" and "gs_seen s' = gs_seen s"
    and "mset (in_flight s') = mset (in_flight s)"
    and "set (hm_keys (gs_adding s')) \<subseteq> set (hm_keys (gs_adding s))"
    and "\<And>p. hm_contains (group_per_participant (gs_gc s)) p \<Longrightarrow>
           hm_contains (group_per_participant (gs_gc s')) p"
  shows "gc_inv s'"
proof -
  have "ids (in_flight s') = ids (in_flight s)" using assms(5) by simp
  moreover have "hm_contains (group_per_participant (gs_gc s')) p" if "p \<in> set (hm_keys (gs_adding s'))" for p
    using that assms(6,7) gc_invD(6) [OF assms(1)] by blast
  ultimately show ?thesis using assms(2-4) gc_invD(1-5) [OF assms(1)] by (intro gc_invI) simp_all
qed

lemma gc_add_inv:
  assumes "gc_inv s" and "distinct (map rt_id txs)" and "rt_id ` set txs \<inter> gs_seen s = {}"
    and "\<forall>tx \<in> set txs. write_ranges tx \<noteq> []" and "group_transactions txs = (groups, counts)"
  shows "gc_inv (s\<lparr>gs_gc := set_pending_commits counts
                  (maybe_insert_new_participant_ranges (hm_keys groups) (gs_gc s)),
                gs_adding := gs_adding s @ groups, gs_seen := gs_seen s \<union> rt_id ` set txs\<rparr>)"
    (is "gc_inv ?s")
proof (rule gc_invI)
  have gr: "groups = fst (fold add_transaction txs ([], []))" "counts = snd (fold add_transaction txs ([], []))"
    using assms(5) by (auto simp: group_transactions_def)
  have dist: "distinct (hm_keys counts)" using counts_fold(1) [of "([], [])" txs] by (simp add: gr)
  have doms: "dom (map_of counts) = rt_id ` set txs" using counts_fold(2) [of txs "([], [])"] by (simp add: gr)
  have nz: "\<forall>t. map_of counts t \<noteq> Some 0"
    using counts_fold(3) [of txs "([], [])"] assms(4) by (simp add: gr)
  have out: "outstanding (map_of counts) t = count (ids (members groups)) t" for t
    using group_transactions_counts [of txs "([], [])"] assms(2) by (simp add: gr outstanding_def)
  have pend: "num_pending_commits (gs_gc ?s) = num_pending_commits (gs_gc s) ++ map_of counts"
    using set_pending_commits_map_add [OF dist, of "maybe_insert_new_participant_ranges (hm_keys groups) (gs_gc s)"]
    by simp
  note D = gc_invD [OF assms(1)]
  have disj: "dom (num_pending_commits (gs_gc s)) \<inter> rt_id ` set txs = {}" using assms(3) D(5) by auto
  show "outstanding (num_pending_commits (gs_gc ?s)) t = count (ids (in_flight ?s)) t" for t
  proof -
    have "outstanding (num_pending_commits (gs_gc ?s)) t =
        outstanding (num_pending_commits (gs_gc s)) t + outstanding (map_of counts) t"
      unfolding pend using disj doms by (intro outstanding_map_add) simp
    also have "\<dots> = count (ids (in_flight ?s)) t"
      unfolding D(1) out by (simp add: in_flight_def insert_ranges)
    finally show ?thesis .
  qed
  show "num_pending_commits (gs_gc ?s) t \<noteq> Some 0" for t
    using nz D(2) unfolding pend by (auto simp: map_add_Some_iff)
  show "dom (num_pending_commits (gs_gc ?s)) \<inter> set (gs_finished ?s) = {}"
    using D(4,5) assms(3) doms unfolding pend by auto
  show "gs_seen ?s = dom (num_pending_commits (gs_gc ?s)) \<union> set (gs_finished ?s)"
    using D(5) doms unfolding pend by auto
  show "hm_contains (group_per_participant (gs_gc ?s)) p" if "p \<in> set (hm_keys (gs_adding ?s))" for p
    using that D(6) [of p] by (auto simp: insert_ranges)
qed (use gc_invD(3) [OF assms(1)] in simp)

lemma gc_extend_inv:
  assumes "gc_inv s" and "gs_adding s = xs @ g # ys"
  shows "gc_inv (s\<lparr>gs_gc := extend_group g (gs_gc s), gs_adding := xs @ ys\<rparr>)"
proof -
  have "hm_contains (group_per_participant (gs_gc s)) (fst g)"
    using gc_invD(6) [OF assms(1), of "fst g"] assms(2) by simp
  then obtain old where old: "hm_get (group_per_participant (gs_gc s)) (fst g) = Some old"
    by (auto simp: hm_contains_def)
  with members_extend [of "fst g" "group_per_participant (gs_gc s)" "snd g"]
  have "mset (members (hm_insert (fst g) (old @ snd g) (group_per_participant (gs_gc s)))) =
      mset (members (group_per_participant (gs_gc s))) + mset (snd g)"
    by (simp add: hm_find_def)
  then show ?thesis
    using assms(2) old by (intro gc_inv_move [OF assms(1)]) (auto simp: extend_group_def in_flight_def)
qed

lemma gc_take_inv:
  assumes "gc_inv s" and "take_group p (gs_gc s) = (gc, txs)"
  shows "gc_inv (s\<lparr>gs_gc := gc, gs_taken := gs_taken s @ [txs]\<rparr>)"
proof (cases "hm_get (group_per_participant (gs_gc s)) p")
  case None
  with assms(2) show ?thesis
    by (intro gc_inv_move [OF assms(1)]) (auto simp: take_group_def in_flight_def)
next
  case (Some old)
  with members_insert [of p "[]" "group_per_participant (gs_gc s)"]
  have "mset (members (hm_insert p [] (group_per_participant (gs_gc s)))) + mset old =
      mset (members (group_per_participant (gs_gc s)))"
    by (simp add: hm_find_def)
  with assms(2) Some show ?thesis
    by (intro gc_inv_move [OF assms(1)]) (auto simp: take_group_def in_flight_def)
qed

lemma commit_group_Ok: "commit_group stored notified txs = Ok txs' \<Longrightarrow> txs' = txs"
  by (auto simp: commit_group_def split: list.splits if_splits outcome.splits)

lemma record_group_frame [simp]:
  "group_per_participant (record_group txs gc) = group_per_participant gc"
  "num_pending_commits (record_group txs gc) = num_pending_commits gc"
  "returned_transactions (record_group txs gc) = returned_transactions gc"
  by (simp_all add: record_group_def split: list.split)

lemma gc_return_inv:
  assumes "gc_inv s" and "gs_taken s = xs @ txs # ys" and "commit_group stored notified txs = Ok txs'"
  shows "gc_inv (s\<lparr>gs_gc := return_group txs' (record_group txs (gs_gc s)), gs_taken := xs @ ys\<rparr>)"
  using assms(2) commit_group_Ok [OF assms(3)]
  by (intro gc_inv_move [OF assms(1)]) (auto simp: return_group_def in_flight_def)

lemma gc_finish:
  assumes "gc_inv s"
  shows "\<exists>gc txs. finish_commits (gs_gc s) = (gc, Ok txs) \<and>
    gc_inv (s\<lparr>gs_gc := gc, gs_finished := gs_finished s @ map rt_id txs\<rparr>)"
proof -
  let ?pending = "num_pending_commits (gs_gc s)"
  let ?ret = "returned_transactions (gs_gc s)"
  note D = gc_invD [OF assms]
  have le: "\<forall>t. count (ids ?ret) t \<le> outstanding ?pending t" by (simp add: D(1) in_flight_def)
  have nz: "\<forall>t. ?pending t \<noteq> Some 0" using D(2) by blast
  obtain pending' new where c: "count_down ?ret ?pending [] = Some (pending', new)"
    and out: "\<forall>t. outstanding pending' t = outstanding ?pending t - count (ids ?ret) t"
    and nz': "\<forall>t. pending' t \<noteq> Some 0" and dist: "distinct (map rt_id new)"
    and new: "set (map rt_id new) = dom ?pending - dom pending'" and sub: "dom pending' \<subseteq> dom ?pending"
    using count_down_total [OF le nz, of "[]"] by auto
  let ?gc = "(gs_gc s)\<lparr>returned_transactions := [], num_pending_commits := pending'\<rparr>"
  let ?s = "s\<lparr>gs_gc := ?gc, gs_finished := gs_finished s @ map rt_id new\<rparr>"
  have "gc_inv ?s"
  proof (rule gc_invI)
    show "outstanding (num_pending_commits (gs_gc ?s)) t = count (ids (in_flight ?s)) t" for t
      using out D(1) [of t] by (simp add: in_flight_def)
    show "num_pending_commits (gs_gc ?s) t \<noteq> Some 0" for t using nz' by simp
    have "set (map rt_id new) \<inter> set (gs_finished s) = {}" using new D(4) by blast
    then show "distinct (gs_finished ?s)" using dist D(3) by (simp add: Int_commute)
    have "dom pending' \<inter> (set (gs_finished s) \<union> set (map rt_id new)) = {}"
      using new sub D(4) by blast
    then show "dom (num_pending_commits (gs_gc ?s)) \<inter> set (gs_finished ?s) = {}" by simp
    show "gs_seen ?s = dom (num_pending_commits (gs_gc ?s)) \<union> set (gs_finished ?s)"
      using new sub D(5) by auto
    show "hm_contains (group_per_participant (gs_gc ?s)) p" if "p \<in> set (hm_keys (gs_adding ?s))" for p
      using D(6) that by simp
  qed
  then show ?thesis using c by (intro exI [of _ ?gc] exI [of _ new]) (simp add: finish_commits_def)
qed

lemma gc_step_inv: "gc_step s s' \<Longrightarrow> gc_inv s \<Longrightarrow> gc_inv s'"
proof (induction rule: gc_step.induct)
  case (Add txs s groups counts)
  then show ?case by (intro gc_add_inv)
next
  case (Extend s xs g ys)
  then show ?case by (intro gc_extend_inv)
next
  case (Mark s ps)
  show ?case by (rule gc_inv_move [OF Mark]) (auto simp: mark_non_empty_def in_flight_def)
next
  case (Take p s gc txs)
  then show ?case by (intro gc_take_inv)
next
  case (Return s xs txs ys stored notified txs')
  then show ?case by (intro gc_return_inv)
next
  case (Finish s gc txs)
  then show ?case using gc_finish [of s] by auto
qed

lemma gc_reachable_inv: "gc_step\<^sup>*\<^sup>* gc_sys_init s \<Longrightarrow> gc_inv s"
proof (induction rule: rtranclp_induct)
  case base
  show ?case by (simp add: gc_inv_def gc_sys_init_def gc_new_def in_flight_def outstanding_def)
next
  case (step s s')
  then show ?case by (blast intro: gc_step_inv)
qed

text \<open>
  C6: Every transaction is reported as committed exactly once, and exactly when the last of its
  participants has committed it. In every state that concurrent additions, group commits and
  collections can reach, the assertion that a returned transaction is still counted cannot fail,
  no transaction is reported twice, and a transaction that has been added has been reported iff
  none of its participant commits is left in a group, in a running commit or among the returned
  ones.
\<close>

theorem group_commit_exactly_once:
  assumes "gc_step\<^sup>*\<^sup>* gc_sys_init s"
  shows "snd (finish_commits (gs_gc s)) \<noteq> Panic \<and> distinct (gs_finished s) \<and>
    (\<forall>t \<in> gs_seen s. t \<in> set (gs_finished s) \<longleftrightarrow> t \<notin> rt_id ` set (in_flight s)) \<and>
    set (gs_finished s) \<subseteq> gs_seen s"
proof (intro conjI ballI)
  note inv = gc_reachable_inv [OF assms]
  note D = gc_invD [OF inv]
  show "snd (finish_commits (gs_gc s)) \<noteq> Panic" using gc_finish [OF inv] by auto
  show "distinct (gs_finished s)" by (rule D(3))
  show "set (gs_finished s) \<subseteq> gs_seen s" using D(5) by blast
  fix t assume "t \<in> gs_seen s"
  then have "t \<in> set (gs_finished s) \<longleftrightarrow> num_pending_commits (gs_gc s) t = None"
    using D(4,5) by auto
  also have "\<dots> \<longleftrightarrow> outstanding (num_pending_commits (gs_gc s)) t = 0"
    using D(2) [of t] by (auto simp: outstanding_def split: option.split)
  also have "\<dots> \<longleftrightarrow> t \<notin> rt_id ` set (in_flight s)"
    unfolding D(1) by (simp add: count_eq_zero_iff)
  finally show "t \<in> set (gs_finished s) \<longleftrightarrow> t \<notin> rt_id ` set (in_flight s)" .
qed

definition wit_range :: full_range_id where
  "wit_range = \<lparr>keyspace_id = 1, range_id = 7\<rparr>"

definition wit_entry :: "uuid \<Rightarrow> tx_entry" where
  "wit_entry i = \<lparr>rt_id = i, num_dependencies = 0, dependents = [],
     participant_ranges_info = [\<lparr>participant_range = wit_range, pri_has_writes = True\<rparr>], fake = False\<rparr>"

definition wit_added :: gc_sys where
  "wit_added = \<lparr>gs_gc = set_pending_commits [(5, 1)] (maybe_insert_new_participant_ranges [wit_range] gc_new),
     gs_adding = [(wit_range, [wit_entry 5])], gs_taken = [], gs_seen = {5}, gs_finished = []\<rparr>"

theorem group_commit_exactly_once_witness:
  "gc_step gc_sys_init wit_added \<and> 5 \<notin> set (gs_finished wit_added) \<and>
   snd (finish_commits (gs_gc wit_added)) \<noteq> Panic"
proof -
  have step: "gc_step gc_sys_init wit_added"
    using gc_step.Add [of "[wit_entry 5]" gc_sys_init "[(wit_range, [wit_entry 5])]" "[(5, 1)]"]
    by (simp add: wit_added_def gc_sys_init_def group_transactions_def add_transaction_def
        add_participant_def wit_entry_def write_ranges_def)
  show ?thesis
    using step group_commit_exactly_once [OF r_into_rtranclp [where r = gc_step, OF step]]
    by (simp add: wit_added_def)
qed

section \<open>The batch as a whole\<close>

lemma extend_groups_find:
  assumes "distinct (hm_keys gs)" and "\<forall>p \<in> set (hm_keys gs). hm_contains (group_per_participant gc) p"
  shows "hm_find (group_per_participant (fold extend_group gs gc)) p =
    hm_find (group_per_participant gc) p @ hm_find gs p"
  using assms
proof (induction gs arbitrary: gc)
  case (Cons g gs)
  obtain old where old: "hm_get (group_per_participant gc) (fst g) = Some old"
    using Cons.prems(2) by (auto simp: hm_contains_def)
  then have eq: "group_per_participant (extend_group g gc) =
      hm_insert (fst g) (old @ snd g) (group_per_participant gc)"
    by (simp add: extend_group_def)
  have "hm_find gs (fst g) = []"
    using Cons.prems(1) by (simp add: hm_find_def map_of_eq_None_iff [THEN iffD2])
  moreover have "hm_find (group_per_participant (fold extend_group gs (extend_group g gc))) p =
      hm_find (group_per_participant (extend_group g gc)) p @ hm_find gs p"
    using Cons.prems eq by (intro Cons.IH) auto
  moreover have "hm_find (group_per_participant gc) (fst g) = old" using old by (simp add: hm_find_def)
  ultimately show ?case by (simp add: eq hm_find_Cons)
qed (simp add: hm_find_def [of "[]"])

lemma hm_find_insert_ranges [simp]:
  "hm_find (group_per_participant (maybe_insert_new_participant_ranges ps gc)) p =
     hm_find (group_per_participant gc) p"
proof -
  have "hm_find (fold (\<lambda>p m. if hm_contains m p then m else hm_insert p [] m) ps m) p = hm_find m p" for m
    by (induction ps arbitrary: m) (auto simp: hm_find_def hm_contains_def)
  then show ?thesis by (simp add: maybe_insert_new_participant_ranges_def)
qed

text \<open>
  C27: Adding a batch appends to the group of every range exactly the transactions of the batch
  that write to it, in the order of the batch and once per such participant, behind what the
  group already held: the order in which the resolver lists the transactions is the order in
  which each range commits them.
\<close>

theorem add_transactions_groups_in_order:
  "hm_find (group_per_participant (add_transactions txs gc)) p =
     hm_find (group_per_participant gc) p @
     concat (map (\<lambda>tx. replicate (count_list (write_ranges tx) p) tx) txs)"
proof -
  obtain groups counts where g: "group_transactions txs = (groups, counts)" by fastforce
  have groups: "hm_find groups p = group_of txs p" "distinct (hm_keys groups)"
    using g add_transactions_groups [of txs "[]" "[]" p]
    by (auto simp: group_transactions_def hm_find_def [of "[]"])
  let ?gc = "set_pending_commits counts (maybe_insert_new_participant_ranges (hm_keys groups) gc)"
  have "hm_find (group_per_participant (fold extend_group groups ?gc)) p =
      hm_find (group_per_participant ?gc) p @ hm_find groups p"
    using groups(2) by (intro extend_groups_find) (auto simp: insert_ranges)
  then show ?thesis
    by (simp add: add_transactions_def g mark_non_empty_def groups group_of_def Let_def)
qed

end
