(* ===== verification/Resolver.thy ===== *)
theory Resolver
  imports Group_Commit
begin

text \<open>
  \<open>resolver/src/core/resolver.rs\<close> and \<open>resolver/src/core/statistics.rs\<close>: the dependency graph of
  the transactions that released their locks early. A transaction is handed to the group commit
  once all its dependencies have committed or are ahead of it in the same batch.
\<close>

section \<open>Statistics\<close>

record statistics_tracker =
  request_count :: u64
  last_reset_time :: time
  waiting_transactions_samples :: "nat list"

definition MAX_SAMPLES :: nat where
  "MAX_SAMPLES = 200"

definition tracker_new :: "time \<Rightarrow> statistics_tracker" where
  "tracker_new now = \<lparr>request_count = 0, last_reset_time = now, waiting_transactions_samples = []\<rparr>"

definition record_request :: "statistics_tracker \<Rightarrow> statistics_tracker" where
  "record_request st = st\<lparr>request_count := request_count st + 1\<rparr>"

definition record_waiting_transactions_sample :: "nat \<Rightarrow> statistics_tracker \<Rightarrow> statistics_tracker" where
  "record_waiting_transactions_sample c st =
     (let samples = waiting_transactions_samples st @ [c]
      in st\<lparr>waiting_transactions_samples :=
             (if MAX_SAMPLES < length samples then tl samples else samples)\<rparr>)"

definition tracker_average_waiting :: "statistics_tracker \<Rightarrow> f64" where
  "tracker_average_waiting st =
     (if waiting_transactions_samples st = [] then Fin 0
      else f64_of_nat (Max (set (waiting_transactions_samples st))))"

definition tracker_reset :: "time \<Rightarrow> statistics_tracker \<Rightarrow> statistics_tracker" where
  "tracker_reset now st =
     st\<lparr>request_count := 0, last_reset_time := now, waiting_transactions_samples := []\<rparr>"

section \<open>State\<close>

type_synonym tx_info = "(uuid, tx_entry) hmap"

record resolver =
  info_per_transaction :: tx_info
  resolved_transactions :: "uuid set"
  rv_group_commit :: group_commit
  waiting_transactions :: "(uuid, nat) hmap"
  stats_tracker :: statistics_tracker

definition resolver_new :: "group_commit \<Rightarrow> time \<Rightarrow> resolver" where
  "resolver_new gc now = \<lparr>info_per_transaction = [], resolved_transactions = {},
     rv_group_commit = gc, waiting_transactions = [], stats_tracker = tracker_new now\<rparr>"

definition sample_waiting_transactions :: "resolver \<Rightarrow> resolver" where
  "sample_waiting_transactions rv =
     rv\<lparr>stats_tracker := record_waiting_transactions_sample (length (waiting_transactions rv)) (stats_tracker rv)\<rparr>"

definition get_average_waiting_transactions :: "resolver \<Rightarrow> f64" where
  "get_average_waiting_transactions rv = tracker_average_waiting (stats_tracker rv)"

definition reset_stats :: "time \<Rightarrow> resolver \<Rightarrow> resolver" where
  "reset_stats now rv = rv\<lparr>stats_tracker := tracker_reset now (stats_tracker rv)\<rparr>"

definition get_num_waiting_transactions :: "resolver \<Rightarrow> nat" where
  "get_num_waiting_transactions rv = length (waiting_transactions rv)"

section \<open>Commit requests\<close>

text \<open>\<open>entry(t).or_insert(default)\<close>.\<close>

definition info_entry :: "uuid \<Rightarrow> bool \<Rightarrow> tx_info \<Rightarrow> tx_entry" where
  "info_entry t f info = (case hm_get info t of Some e \<Rightarrow> e | None \<Rightarrow> tx_entry_default t f)"

text \<open>The body of the loop over the dependencies.\<close>

definition add_dependency :: "uuid \<Rightarrow> bool \<Rightarrow> uuid set \<Rightarrow> uuid \<Rightarrow> tx_info \<times> nat \<Rightarrow> tx_info \<times> nat" where
  "add_dependency t f resolved d acc =
     (if d \<notin> resolved then
        (let e = info_entry d f (fst acc)
         in (hm_insert d (e\<lparr>dependents := hs_insert t (dependents e)\<rparr>) (fst acc), snd acc + 1))
      else acc)"

text \<open>What \<open>commit\<close> does before it waits on its channel \<open>ch\<close>.\<close>

datatype commit_path = Read_Only | Blocked | Ready tx_entry

definition resolver_commit ::
    "nat \<Rightarrow> uuid \<Rightarrow> uuid list \<Rightarrow> participant_range_info list \<Rightarrow> bool \<Rightarrow> resolver \<Rightarrow>
      resolver \<times> commit_path" where
  "resolver_commit ch t dependencies participants f rv =
     (if \<forall>p \<in> set participants. \<not> pri_has_writes p then (rv, Read_Only)
      else
        (let (info, num_pending) =
               fold (add_dependency t f (resolved_transactions rv)) dependencies
                 (info_per_transaction rv, 0);
             e = (info_entry t f info)\<lparr>num_dependencies := num_pending,
                                       participant_ranges_info := participants\<rparr>;
             rv = rv\<lparr>info_per_transaction := hm_insert t e info,
                     waiting_transactions := hm_insert t ch (waiting_transactions rv)\<rparr>
         in if num_pending = 0
            then (rv\<lparr>rv_group_commit := add_transactions [e] (rv_group_commit rv)\<rparr>, Ready e)
            else (rv, Blocked)))"

section \<open>Committed transactions\<close>

text \<open>
  The loop over the dependents of a resolved transaction: \<open>None\<close> is a missing entry or a failed
  assertion. The stack of newly resolved transactions has its top at the head.
\<close>

fun release_dependents ::
    "uuid list \<Rightarrow> tx_info \<times> uuid list \<times> tx_entry list \<Rightarrow>
      (tx_info \<times> uuid list \<times> tx_entry list) option" where
  "release_dependents [] acc = Some acc"
| "release_dependents (d # ds) (info, stack, ready) =
     (case hm_get info d of
        None \<Rightarrow> None
      | Some e \<Rightarrow>
          if num_dependencies e = 0 then None
          else
            (let e = e\<lparr>num_dependencies := num_dependencies e - 1\<rparr>;
                 info = hm_insert d e info
             in if num_dependencies e = 0
                then release_dependents ds (info, d # stack, ready @ [e])
                else release_dependents ds (info, stack, ready)))"

text \<open>All dependents in the table; the work list shrinks with them.\<close>

definition all_dependents :: "tx_info \<Rightarrow> uuid list" where
  "all_dependents info = concat (map (\<lambda>te. dependents (snd te)) info)"

lemma all_dependents_update:
  "hm_get info t = Some e \<Longrightarrow>
     mset (all_dependents (hm_insert t e' info)) + mset (dependents e) =
     mset (all_dependents info) + mset (dependents e')"
  by (induction info) (auto simp: all_dependents_def split: if_splits)

lemma all_dependents_new:
  "hm_get info t = None \<Longrightarrow>
     mset (all_dependents (hm_insert t e info)) = mset (all_dependents info) + mset (dependents e)"
  by (induction info) (auto simp: all_dependents_def split: if_splits)

lemma all_dependents_same:
  assumes "hm_get info t = Some e" and "dependents e' = dependents e"
  shows "mset (all_dependents (hm_insert t e' info)) = mset (all_dependents info)"
  using all_dependents_update [OF assms(1), of e'] assms(2) by simp

lemma release_dependents_size:
  "release_dependents ds (info, stack, ready) = Some (info', stack', ready') \<Longrightarrow>
     mset (all_dependents info') = mset (all_dependents info) \<and>
     length stack' \<le> length stack + length ds"
proof (induction ds arbitrary: info stack ready)
  case (Cons d ds)
  then obtain e where e: "hm_get info d = Some e" "num_dependencies e \<noteq> 0"
    by (auto split: option.splits if_splits)
  have "mset (all_dependents (hm_insert d (e\<lparr>num_dependencies := n\<rparr>) info)) = mset (all_dependents info)" for n
    by (rule all_dependents_same [OF e(1)]) simp
  with Cons.IH [of "hm_insert d (e\<lparr>num_dependencies := num_dependencies e - 1\<rparr>) info"] Cons.prems e
  show ?case by (fastforce simp: Let_def split: if_splits)
qed auto

function resolve_loop :: "uuid list \<Rightarrow> tx_info \<Rightarrow> tx_entry list \<Rightarrow> (tx_info \<times> tx_entry list) option" where
  "resolve_loop [] info ready = Some (info, ready)"
| "resolve_loop (t # stack) info ready =
     (case hm_get info t of
        None \<Rightarrow> resolve_loop stack info ready
      | Some e \<Rightarrow>
          (case release_dependents (dependents e)
                  (hm_insert t (e\<lparr>dependents := []\<rparr>) info, stack, ready) of
             None \<Rightarrow> None
           | Some (info, stack, ready) \<Rightarrow> resolve_loop stack info ready))"
  by pat_completeness auto

termination
proof (relation "measure (\<lambda>(stack, info, ready). length stack + length (all_dependents info))", goal_cases)
  case (3 t stack info ready e x info' y stack' ready')
  have *: "mset (all_dependents info') = mset (all_dependents (hm_insert t (e\<lparr>dependents := []\<rparr>) info))"
    "length stack' \<le> length stack + length (dependents e)"
    using release_dependents_size 3 by auto
  have "mset (all_dependents info') + mset (dependents e) = mset (all_dependents info)"
    using all_dependents_update [OF 3(1), of "e\<lparr>dependents := []\<rparr>"] *(1) by simp
  then have "length (all_dependents info') + length (dependents e) = length (all_dependents info)"
    by (metis size_mset size_union)
  with *(2) show ?case by simp
qed auto

definition register_committed_transactions ::
    "uuid list \<Rightarrow> resolver \<Rightarrow> resolver \<times> (unit, tx_entry list) outcome" where
  "register_committed_transactions ts rv =
     (let rv = rv\<lparr>resolved_transactions := resolved_transactions rv \<union> set ts\<rparr>
      in case resolve_loop (rev ts) (info_per_transaction rv) [] of
           None \<Rightarrow> (rv, Panic)
         | Some (info, ready) \<Rightarrow>
             (let rv = rv\<lparr>info_per_transaction := info\<rparr>
              in (if ready \<noteq> []
                  then rv\<lparr>rv_group_commit := add_transactions ready (rv_group_commit rv)\<rparr> else rv,
                  Ok ready)))"

text \<open>
  The notification part of \<open>trigger_commit\<close>, for the transactions the group commit has finished.
\<close>

fun notify_finished ::
    "(nat \<Rightarrow> bool) \<Rightarrow> tx_entry list \<Rightarrow> (uuid, nat) hmap \<Rightarrow> nat list \<Rightarrow>
      (uuid, nat) hmap \<times> nat list \<times> (unit, unit) outcome" where
  "notify_finished alive [] waiting sent = (waiting, sent, Ok ())"
| "notify_finished alive (tx # txs) waiting sent =
     (case hm_get waiting (rt_id tx) of
        None \<Rightarrow> (waiting, sent, Panic)
      | Some ch \<Rightarrow>
          if alive ch then notify_finished alive txs (hm_remove (rt_id tx) waiting) (sent @ [ch])
          else (hm_remove (rt_id tx) waiting, sent, Panic))"

definition trigger_commit ::
    "(nat \<Rightarrow> bool) \<Rightarrow> (unit, tx_entry list) outcome \<Rightarrow> resolver \<Rightarrow>
      resolver \<times> nat list \<times> (unit, uuid list) outcome" where
  "trigger_commit alive finished rv =
     (case finished of
        Ok txs \<Rightarrow>
          (let (waiting, sent, r) = notify_finished alive txs (waiting_transactions rv) []
           in (rv\<lparr>waiting_transactions := waiting\<rparr>, sent, try_ok r (\<lambda>_. Ok (map rt_id txs))))
      | Err e \<Rightarrow> (rv, [], Err e)
      | Panic \<Rightarrow> (rv, [], Panic))"

section \<open>The dependency graph\<close>

definition deps_of :: "tx_info \<Rightarrow> uuid \<Rightarrow> uuid list" where
  "deps_of info d = (case hm_get info d of Some e \<Rightarrow> dependents e | None \<Rightarrow> [])"

definition num_of :: "tx_info \<Rightarrow> uuid \<Rightarrow> nat" where
  "num_of info t = (case hm_get info t of Some e \<Rightarrow> num_dependencies e | None \<Rightarrow> 0)"

text \<open>
  Every count is the number of edges into the transaction: those in the table and, in the middle
  of a round, those of the list \<open>rest\<close> that are still to be taken off.
\<close>

definition graph_ok :: "uuid list \<Rightarrow> tx_info \<Rightarrow> bool" where
  "graph_ok rest info \<longleftrightarrow>
     (\<forall>t. num_of info t = count (mset (all_dependents info) + mset rest) t) \<and>
     (\<forall>t e. hm_get info t = Some e \<longrightarrow> rt_id e = t) \<and> distinct (hm_keys info)"

lemma deps_of_all: "t \<in> set (deps_of info d) \<Longrightarrow> t \<in> set (all_dependents info)"
proof -
  assume t: "t \<in> set (deps_of info d)"
  then obtain e where "hm_get info d = Some e" "t \<in> set (dependents e)"
    by (cases "hm_get info d") (auto simp: deps_of_def)
  then show ?thesis by (force simp: all_dependents_def dest: map_of_SomeD)
qed

lemma all_dependents_iff:
  assumes "distinct (hm_keys info)"
  shows "t \<in> set (all_dependents info) \<longleftrightarrow> (\<exists>d. t \<in> set (deps_of info d))"
proof
  assume "t \<in> set (all_dependents info)"
  then obtain d e where "(d, e) \<in> set info" "t \<in> set (dependents e)" by (auto simp: all_dependents_def)
  with assms have "t \<in> set (deps_of info d)" by (simp add: deps_of_def)
  then show "\<exists>d. t \<in> set (deps_of info d)" ..
qed (auto intro: deps_of_all)

lemma deps_of_insert [simp]:
  "deps_of (hm_insert t e info) d = (if d = t then dependents e else deps_of info d)"
  by (simp add: deps_of_def)

lemma num_of_insert [simp]:
  "num_of (hm_insert t e info) d = (if d = t then num_dependencies e else num_of info d)"
  by (simp add: num_of_def)

lemma graph_ok_count: "graph_ok rest info \<Longrightarrow> num_of info t = count (mset (all_dependents info) + mset rest) t"
  by (simp add: graph_ok_def)

lemma release_dependents_ok:
  assumes "graph_ok ds info"
  shows "\<exists>info' new. release_dependents ds (info, stack, ready) =
      Some (info', rev (map rt_id new) @ stack, ready @ new) \<and>
    graph_ok [] info' \<and> (\<forall>d. deps_of info' d = deps_of info d) \<and>
    (\<forall>t. num_of info' t \<le> num_of info t) \<and> distinct (map rt_id new) \<and>
    rt_id ` set new = {t \<in> set ds. num_of info' t = 0}"
  using assms
proof (induction ds arbitrary: info stack ready)
  case Nil
  then show ?case by simp
next
  case (Cons d ds)
  have pos: "num_of info d > 0" using graph_ok_count [OF Cons.prems, of d] by simp
  then obtain e where e: "hm_get info d = Some e" "num_dependencies e = num_of info d"
    by (auto simp: num_of_def split: option.splits)
  define e' where "e' = e\<lparr>num_dependencies := num_dependencies e - 1\<rparr>"
  define info1 where "info1 = hm_insert d e' info"
  have deps: "mset (all_dependents info1) = mset (all_dependents info)" "\<forall>k. deps_of info1 k = deps_of info k"
    unfolding info1_def using e all_dependents_same [OF e(1), of e']
    by (auto simp: e'_def deps_of_def)
  have num: "num_of info1 t = (if t = d then num_of info d - 1 else num_of info t)" for t
    using e by (simp add: info1_def e'_def)
  have "graph_ok ds info1"
    unfolding graph_ok_def
  proof (intro conjI allI impI)
    show "num_of info1 t = count (mset (all_dependents info1) + mset ds) t" for t
      using graph_ok_count [OF Cons.prems, of t] pos by (cases "t = d") (simp_all add: num deps)
    show "distinct (hm_keys info1)"
      using Cons.prems by (simp add: info1_def graph_ok_def distinct_hm_insert)
    show "rt_id x = t" if "hm_get info1 t = Some x" for t x
      using that Cons.prems e by (auto simp: info1_def e'_def graph_ok_def split: if_splits)
  qed
  define first where "first = (if num_dependencies e' = 0 then [e'] else [])"
  from Cons.IH [OF \<open>graph_ok ds info1\<close>, of "rev (map rt_id first) @ stack" "ready @ first"]
  obtain info' new where IH: "release_dependents ds (info1, rev (map rt_id first) @ stack, ready @ first) =
      Some (info', rev (map rt_id new) @ rev (map rt_id first) @ stack, (ready @ first) @ new)"
    "graph_ok [] info'" "\<forall>k. deps_of info' k = deps_of info1 k" "\<forall>t. num_of info' t \<le> num_of info1 t"
    "distinct (map rt_id new)" "rt_id ` set new = {t \<in> set ds. num_of info' t = 0}"
    by (elim exE conjE) blast
  have id: "rt_id e' = d" using Cons.prems e by (simp add: graph_ok_def e'_def)
  have zero: "num_dependencies e' = 0 \<longleftrightarrow> num_of info1 d = 0" by (simp add: info1_def)
  have fresh: "d \<notin> set ds" if "num_of info1 d = 0"
    using graph_ok_count [OF \<open>graph_ok ds info1\<close>, of d] that by (auto simp: count_eq_zero_iff)
  have "release_dependents (d # ds) (info, stack, ready) =
      Some (info', rev (map rt_id (first @ new)) @ stack, ready @ first @ new)"
    using IH(1) e pos id by (simp add: first_def info1_def e'_def Let_def split: if_splits)
  moreover have "distinct (map rt_id (first @ new))"
    using IH(5,6) fresh zero by (auto simp: first_def id)
  moreover have "rt_id ` set (first @ new) = {t \<in> set (d # ds). num_of info' t = 0}"
  proof (cases "num_of info1 d = 0")
    case True
    then have "num_of info' d = 0" using IH(4) by (metis le_zero_eq)
    with True zero IH(6) show ?thesis by (auto simp: first_def id)
  next
    case False
    have "num_of info' d = 0 \<longrightarrow> d \<in> set ds"
      using False graph_ok_count [OF IH(2), of d] graph_ok_count [OF \<open>graph_ok ds info1\<close>, of d] IH(3)
        release_dependents_size [OF IH(1)] by (auto simp: count_eq_zero_iff)
    with False zero IH(6) show ?thesis by (auto simp: first_def)
  qed
  moreover have "\<forall>t. num_of info' t \<le> num_of info t"
    using IH(4) num by (metis diff_le_self le_trans)
  ultimately show ?case using IH(2,3) deps(2)
    by (intro exI [of _ info'] exI [of _ "first @ new"]) simp
qed

text \<open>
  The work list, relative to the table \<open>info0\<close> and the resolved transactions \<open>init\<close> the round
  started with.
\<close>

definition resolved_now :: "uuid list \<Rightarrow> tx_entry list \<Rightarrow> uuid set" where
  "resolved_now init ready = set init \<union> rt_id ` set ready"

definition released_in_order :: "uuid list \<Rightarrow> tx_info \<Rightarrow> tx_entry list \<Rightarrow> bool" where
  "released_in_order init info0 ready \<longleftrightarrow>
     (\<forall>i < length ready. \<forall>d. rt_id (ready ! i) \<in> set (deps_of info0 d) \<longrightarrow>
        d \<in> resolved_now init (take i ready))"

definition loop_inv :: "uuid list \<Rightarrow> tx_info \<Rightarrow> uuid list \<Rightarrow> tx_info \<Rightarrow> tx_entry list \<Rightarrow> bool" where
  "loop_inv init info0 stack info ready \<longleftrightarrow>
     graph_ok [] info \<and>
     (\<forall>d. d \<in> resolved_now init ready \<longrightarrow> d \<notin> set stack \<longrightarrow> deps_of info d = []) \<and>
     (\<forall>d. d \<notin> resolved_now init ready \<longrightarrow> deps_of info d = deps_of info0 d) \<and>
     set stack \<subseteq> resolved_now init ready \<and>
     released_in_order init info0 ready \<and> distinct (map rt_id ready) \<and>
     rt_id ` set ready = {t. num_of info0 t > 0 \<and> num_of info t = 0} \<and>
     (\<forall>t. num_of info t \<le> num_of info0 t)"

lemma resolved_now_append:
  "resolved_now init (ready @ new) = resolved_now init ready \<union> rt_id ` set new"
  by (auto simp: resolved_now_def)

lemma released_in_order_append:
  assumes "released_in_order init info0 ready"
    and "\<And>e d. e \<in> set new \<Longrightarrow> rt_id e \<in> set (deps_of info0 d) \<Longrightarrow> d \<in> resolved_now init ready"
  shows "released_in_order init info0 (ready @ new)"
  unfolding released_in_order_def
proof (intro allI impI)
  fix i d
  assume i: "i < length (ready @ new)" and d: "rt_id ((ready @ new) ! i) \<in> set (deps_of info0 d)"
  show "d \<in> resolved_now init (take i (ready @ new))"
  proof (cases "i < length ready")
    case True
    with assms(1) d show ?thesis by (simp add: released_in_order_def nth_append)
  next
    case False
    then have "new ! (i - length ready) \<in> set new" using i by auto
    with assms(2) d False have "d \<in> resolved_now init ready" by (simp add: nth_append)
    with False show ?thesis by (simp add: resolved_now_append)
  qed
qed

lemma loop_inv_start:
  "graph_ok [] info \<Longrightarrow> loop_inv init info (rev init) info []"
  by (auto simp: loop_inv_def resolved_now_def released_in_order_def)

lemma graph_ok_take:
  assumes "graph_ok [] info" and "hm_get info t = Some e"
  shows "graph_ok (dependents e) (hm_insert t (e\<lparr>dependents := []\<rparr>) info)"
proof -
  have "mset (all_dependents (hm_insert t (e\<lparr>dependents := []\<rparr>) info)) + mset (dependents e) =
      mset (all_dependents info)"
    using all_dependents_update [OF assms(2), of "e\<lparr>dependents := []\<rparr>"] by simp
  moreover have "num_of (hm_insert t (e\<lparr>dependents := []\<rparr>) info) d = num_of info d" for d
    using assms(2) by (simp add: num_of_def)
  moreover have "rt_id e = t" using assms by (simp add: graph_ok_def)
  ultimately show ?thesis
    using assms(1) unfolding graph_ok_def by (simp add: distinct_hm_insert)
qed

lemma not_dependent:
  "graph_ok [] info \<Longrightarrow> num_of info t = 0 \<longleftrightarrow> (\<forall>d. t \<notin> set (deps_of info d))"
  unfolding graph_ok_def using all_dependents_iff [of info t] by (auto simp: count_eq_zero_iff)

text \<open>What one resolved transaction changes in the graph.\<close>

lemma release_round:
  assumes ok: "graph_ok [] info" and e: "hm_get info t = Some e"
    and step: "release_dependents (dependents e) (hm_insert t (e\<lparr>dependents := []\<rparr>) info, stack, ready) =
      Some (info', stack', ready')"
  shows "\<exists>new. stack' = rev (map rt_id new) @ stack \<and> ready' = ready @ new \<and> graph_ok [] info' \<and>
    distinct (map rt_id new) \<and> (\<forall>d. deps_of info' d = (if d = t then [] else deps_of info d)) \<and>
    (\<forall>d. num_of info' d \<le> num_of info d) \<and>
    rt_id ` set new = {d. num_of info d > 0 \<and> num_of info' d = 0}"
proof -
  define info1 where "info1 = hm_insert t (e\<lparr>dependents := []\<rparr>) info"
  have ok1: "graph_ok (dependents e) info1" using graph_ok_take [OF ok e] by (simp add: info1_def)
  from release_dependents_ok [OF ok1, of stack ready] step obtain new where
    new: "stack' = rev (map rt_id new) @ stack" "ready' = ready @ new" "graph_ok [] info'"
      "\<forall>d. deps_of info' d = deps_of info1 d" "\<forall>t. num_of info' t \<le> num_of info1 t"
      "distinct (map rt_id new)" "rt_id ` set new = {t \<in> set (dependents e). num_of info' t = 0}"
    by (auto simp: info1_def)
  have num1: "num_of info1 d = num_of info d" for d using e by (simp add: info1_def num_of_def)
  have "num_of info d > 0" if "d \<in> set (dependents e)" for d
    using not_dependent [OF ok, of d] that e by (metis deps_of_def gr_zeroI option.simps(5))
  moreover have "num_of info' d = num_of info d" if "d \<notin> set (dependents e)" for d
  proof -
    have "count (mset (dependents e)) d = 0" using that by (simp add: count_eq_zero_iff)
    moreover have "num_of info' d = count (mset (all_dependents info1)) d"
      using graph_ok_count [OF new(3), of d] release_dependents_size [OF step] by (simp add: info1_def)
    moreover have "num_of info1 d = count (mset (all_dependents info1)) d + count (mset (dependents e)) d"
      using graph_ok_count [OF ok1, of d] by simp
    ultimately show ?thesis using num1 [of d] by linarith
  qed
  ultimately have "{t \<in> set (dependents e). num_of info' t = 0} = {d. num_of info d > 0 \<and> num_of info' d = 0}"
    by (intro Collect_cong) (metis less_numeral_extra(3))
  with new(7) have "rt_id ` set new = {d. num_of info d > 0 \<and> num_of info' d = 0}" by (rule trans)
  then show ?thesis using new num1 by (intro exI [of _ new]) (simp add: info1_def)
qed

lemma loop_inv_step:
  assumes inv: "loop_inv init info0 (t # stack) info ready" and e: "hm_get info t = Some e"
    and step: "release_dependents (dependents e) (hm_insert t (e\<lparr>dependents := []\<rparr>) info, stack, ready) =
      Some (info', stack', ready')"
  shows "loop_inv init info0 stack' info' ready'"
proof -
  have ok: "graph_ok [] info" and t: "t \<in> resolved_now init ready" using inv by (simp_all add: loop_inv_def)
  have ready: "rt_id ` set ready = {t. num_of info0 t > 0 \<and> num_of info t = 0}"
    "\<And>d. num_of info d \<le> num_of info0 d" "distinct (map rt_id ready)"
    using inv by (auto simp: loop_inv_def)
  obtain new where new: "stack' = rev (map rt_id new) @ stack" "ready' = ready @ new" "graph_ok [] info'"
      "distinct (map rt_id new)" "\<And>d. deps_of info' d = (if d = t then [] else deps_of info d)"
      "\<And>d. num_of info' d \<le> num_of info d" "rt_id ` set new = {d. num_of info d > 0 \<and> num_of info' d = 0}"
    using release_round [OF ok e step] by (elim exE conjE) blast
  have "d \<in> resolved_now init ready"
    if r: "r \<in> set new" and d: "rt_id r \<in> set (deps_of info0 d)" for r d
  proof (rule ccontr)
    assume n: "d \<notin> resolved_now init ready"
    then have "d \<noteq> t" "deps_of info d = deps_of info0 d" using t inv by (auto simp: loop_inv_def)
    then have "num_of info' (rt_id r) \<noteq> 0"
      using not_dependent [OF new(3), of "rt_id r"] new(5) [of d] d by metis
    moreover have "rt_id r \<in> {d. num_of info d > 0 \<and> num_of info' d = 0}"
      using r unfolding new(7) [symmetric] by simp
    ultimately show False by simp
  qed
  then have "released_in_order init info0 ready'"
    unfolding new(2) using inv by (intro released_in_order_append) (auto simp: loop_inv_def)
  moreover have "rt_id ` set ready' = {t. num_of info0 t > 0 \<and> num_of info' t = 0}"
  proof -
    have "{t. num_of info0 t > 0 \<and> num_of info t = 0} \<union> {d. num_of info d > 0 \<and> num_of info' d = 0} =
        {t. num_of info0 t > 0 \<and> num_of info' t = 0}"
      unfolding Collect_disj_eq [symmetric] by (intro Collect_cong) (metis ready(2) new(6) gr0I le_zero_eq)
    then show ?thesis by (simp add: new(2) image_Un ready(1) new(7))
  qed
  moreover have "distinct (map rt_id ready')"
    using ready(1,3) new(4,7) by (force simp: new(2))
  moreover have "set stack' \<subseteq> resolved_now init ready'"
    using inv by (auto simp: loop_inv_def new(1,2) resolved_now_append)
  moreover have "deps_of info' d = []" if "d \<in> resolved_now init ready'" "d \<notin> set stack'" for d
    using inv that new(5) [of d] by (auto simp: loop_inv_def new(1,2) resolved_now_append)
  moreover have "deps_of info' d = deps_of info0 d" if "d \<notin> resolved_now init ready'" for d
    using inv that new(5) [of d] t by (auto simp: loop_inv_def new(2) resolved_now_append)
  moreover have "num_of info' d \<le> num_of info0 d" for d
    using new(6) [of d] ready(2) [of d] by simp
  ultimately show ?thesis using new(3) by (simp add: loop_inv_def)
qed

lemma loop_inv_skip:
  "loop_inv init info0 (t # stack) info ready \<Longrightarrow> hm_get info t = None \<Longrightarrow>
     loop_inv init info0 stack info ready"
  by (auto simp: loop_inv_def deps_of_def)

lemma resolve_loop_ok:
  "loop_inv init info0 stack info ready \<Longrightarrow>
     \<exists>info' ready'. resolve_loop stack info ready = Some (info', ready') \<and>
       loop_inv init info0 [] info' ready'"
proof (induction stack info ready rule: resolve_loop.induct)
  case (2 t stack info ready)
  show ?case
  proof (cases "hm_get info t")
    case None
    with 2 loop_inv_skip show ?thesis by auto
  next
    case (Some e)
    have ok: "graph_ok [] info" using "2.prems" by (simp add: loop_inv_def)
    from release_dependents_ok [OF graph_ok_take [OF ok Some], of stack ready]
    obtain info1 stack1 ready1 where step: "release_dependents (dependents e)
        (hm_insert t (e\<lparr>dependents := []\<rparr>) info, stack, ready) = Some (info1, stack1, ready1)"
      by blast
    from "2.IH"(2) [OF Some step refl refl loop_inv_step [OF "2.prems" Some step]] Some step
    show ?thesis by simp
  qed
qed auto

lemma released_in_orderD:
  assumes "released_in_order init info0 ready" and "e \<in> set ready" and "rt_id e \<in> set (deps_of info0 d)"
  obtains i where "i < length ready" "ready ! i = e" "d \<in> resolved_now init (take i ready)"
  using assms by (metis in_set_conv_nth released_in_order_def)

lemma resolved_now_take: "d \<in> resolved_now init (take i ready) \<Longrightarrow> d \<in> resolved_now init ready"
  by (auto simp: resolved_now_def dest: in_set_takeD)

text \<open>At the end of a round the released transactions are those with no dependency left.\<close>

lemma loop_inv_released:
  assumes inv: "loop_inv init info0 [] info ready"
  shows "rt_id ` set ready = {t. num_of info0 t > 0 \<and>
    (\<forall>d. t \<in> set (deps_of info0 d) \<longrightarrow> d \<in> resolved_now init ready)}"
proof (intro set_eqI iffI CollectI conjI allI impI)
  fix t assume "t \<in> rt_id ` set ready"
  then show "num_of info0 t > 0" using inv by (simp add: loop_inv_def)
next
  fix t d assume "t \<in> rt_id ` set ready" and d: "t \<in> set (deps_of info0 d)"
  then obtain e where "e \<in> set ready" "t = rt_id e" by blast
  moreover have "released_in_order init info0 ready" using inv by (simp add: loop_inv_def)
  ultimately show "d \<in> resolved_now init ready"
    using d by (metis released_in_orderD resolved_now_take)
next
  fix t assume t: "t \<in> {t. num_of info0 t > 0 \<and>
    (\<forall>d. t \<in> set (deps_of info0 d) \<longrightarrow> d \<in> resolved_now init ready)}"
  have "t \<notin> set (deps_of info d)" for d
    using inv t by (cases "d \<in> resolved_now init ready") (auto simp: loop_inv_def)
  then have "num_of info t = 0" using inv not_dependent [of info t] by (simp add: loop_inv_def)
  with t inv show "t \<in> rt_id ` set ready" by (simp add: loop_inv_def)
qed

lemma cycle_not_released:
  assumes order: "released_in_order init info0 ready"
    and cycle: "\<forall>x \<in> X. \<exists>d \<in> X. x \<in> set (deps_of info0 d)" and "X \<inter> set init = {}"
  shows "X \<inter> rt_id ` set ready = {}"
proof -
  have "rt_id (ready ! i) \<notin> X" if "i < length ready" for i
    using that
  proof (induction i rule: less_induct)
    case (less i)
    show ?case
    proof
      assume "rt_id (ready ! i) \<in> X"
      with cycle order less.prems obtain d where "d \<in> X" "d \<in> resolved_now init (take i ready)"
        by (metis released_in_order_def)
      with \<open>X \<inter> set init = {}\<close> obtain e where "e \<in> set (take i ready)" "rt_id e \<in> X"
        by (auto simp: resolved_now_def)
      then obtain j where "j < i" "j < length ready" "rt_id (ready ! j) \<in> X"
        by (auto simp: in_set_conv_nth)
      with less.IH show False by blast
    qed
  qed
  then show ?thesis by (auto simp: in_set_conv_nth)
qed

section \<open>Commit requests and the graph\<close>

lemma info_entry_deps: "dependents (info_entry d f info) = deps_of info d"
  by (simp add: info_entry_def deps_of_def tx_entry_default_def split: option.splits)

lemma info_entry_num: "num_dependencies (info_entry d f info) = num_of info d"
  by (simp add: info_entry_def num_of_def tx_entry_default_def split: option.splits)

lemma info_entry_id:
  "\<forall>k e. hm_get info k = Some e \<longrightarrow> rt_id e = k \<Longrightarrow> rt_id (info_entry d f info) = d"
  by (simp add: info_entry_def tx_entry_default_def split: option.splits)

lemma all_dependents_entry:
  assumes "mset (dependents e) = mset (deps_of info d) + M"
  shows "mset (all_dependents (hm_insert d e info)) = mset (all_dependents info) + M"
  using assms all_dependents_new [of info d e] all_dependents_update [of info d _ e]
  by (cases "hm_get info d") (auto simp: deps_of_def)

lemma add_dependency_ok:
  assumes "t \<notin> set (deps_of info d)"
    and "\<forall>k e. hm_get info k = Some e \<longrightarrow> rt_id e = k" and "distinct (hm_keys info)"
    and "add_dependency t f R d (info, n) = (info', n')"
  shows "n' = n + of_bool (d \<notin> R)"
    and "mset (all_dependents info') = mset (all_dependents info) + replicate_mset (of_bool (d \<notin> R)) t"
    and "num_of info' = num_of info"
    and "\<forall>k e. hm_get info' k = Some e \<longrightarrow> rt_id e = k" and "distinct (hm_keys info')"
    and "k \<noteq> d \<Longrightarrow> deps_of info' k = deps_of info k"
    and "set (deps_of info' d) = set (deps_of info d) \<union> (if d \<in> R then {} else {t})"
  using assms all_dependents_entry [of "info_entry d f info\<lparr>dependents := hs_insert t (deps_of info d)\<rparr>" info d "{#t#}"]
  by (auto simp: add_dependency_def Let_def info_entry_deps info_entry_num info_entry_id hs_insert_def
      distinct_hm_insert fun_eq_iff split: if_splits)

lemma add_dependencies_ok:
  assumes "distinct ds" and "\<forall>d \<in> set ds. t \<notin> set (deps_of info d)"
    and "\<forall>k e. hm_get info k = Some e \<longrightarrow> rt_id e = k" and "distinct (hm_keys info)"
    and "fold (add_dependency t f R) ds (info, n) = (info', n')"
  shows "n' = n + length (filter (\<lambda>d. d \<notin> R) ds) \<and>
    mset (all_dependents info') = mset (all_dependents info) + replicate_mset (n' - n) t \<and>
    num_of info' = num_of info \<and> (\<forall>k e. hm_get info' k = Some e \<longrightarrow> rt_id e = k) \<and>
    distinct (hm_keys info') \<and>
    (\<forall>k. set (deps_of info' k) = set (deps_of info k) \<union> (if k \<in> set ds - R then {t} else {}))"
  using assms
proof (induction ds arbitrary: info n)
  case (Cons d ds)
  obtain info1 n1 where 1: "add_dependency t f R d (info, n) = (info1, n1)" by force
  have "t \<notin> set (deps_of info d)" using Cons.prems(2) by simp
  note d = add_dependency_ok [OF this Cons.prems(3,4) 1]
  have IH: "n' = n1 + length (filter (\<lambda>d. d \<notin> R) ds) \<and>
    mset (all_dependents info') = mset (all_dependents info1) + replicate_mset (n' - n1) t \<and>
    num_of info' = num_of info1 \<and> (\<forall>k e. hm_get info' k = Some e \<longrightarrow> rt_id e = k) \<and>
    distinct (hm_keys info') \<and>
    (\<forall>k. set (deps_of info' k) = set (deps_of info1 k) \<union> (if k \<in> set ds - R then {t} else {}))"
  proof (rule Cons.IH [OF _ _ d(4,5)])
    show "\<forall>k \<in> set ds. t \<notin> set (deps_of info1 k)"
      using Cons.prems(1,2) d(6) by (metis distinct.simps(2) list.set_intros(2))
  qed (use Cons.prems(1,5) 1 in simp_all)
  have "mset (all_dependents info') = mset (all_dependents info) + replicate_mset (n' - n) t"
    using IH d(1,2) by (simp add: multiset_eq_iff)
  moreover have "set (deps_of info' k) = set (deps_of info k) \<union> (if k \<in> set (d # ds) - R then {t} else {})" for k
    using IH d(6,7) by (cases "k = d") (auto split: if_splits)
  ultimately show ?case using IH d(1,3) by (cases "d \<in> R") auto
qed auto

definition unresolved :: "resolver \<Rightarrow> uuid list \<Rightarrow> uuid set" where
  "unresolved rv ds = set ds - resolved_transactions rv"

lemma resolver_commit_ok:
  assumes ok: "graph_ok [] (info_per_transaction rv)" and fresh: "num_of (info_per_transaction rv) t = 0"
    and "distinct ds" and w: "\<exists>p \<in> set ps. pri_has_writes p"
    and commit: "resolver_commit ch t ds ps f rv = (rv', path)"
  shows "graph_ok [] (info_per_transaction rv')"
    and "num_of (info_per_transaction rv') t = card (unresolved rv ds)"
    and "set (deps_of (info_per_transaction rv') d) =
      set (deps_of (info_per_transaction rv) d) \<union> (if d \<in> unresolved rv ds then {t} else {})"
    and "path = Blocked \<longleftrightarrow> unresolved rv ds \<noteq> {}" and "path \<noteq> Read_Only"
proof -
  let ?R = "resolved_transactions rv"
  obtain info n where fold: "fold (add_dependency t f ?R) ds (info_per_transaction rv, 0) = (info, n)" by force
  have 1: "\<forall>d \<in> set ds. t \<notin> set (deps_of (info_per_transaction rv) d)"
    using not_dependent [OF ok] fresh by blast
  have 2: "\<forall>k e. hm_get (info_per_transaction rv) k = Some e \<longrightarrow> rt_id e = k"
    and 3: "distinct (hm_keys (info_per_transaction rv))"
    using ok by (simp_all add: graph_ok_def)
  from add_dependencies_ok [OF \<open>distinct ds\<close> 1 2 3 fold]
  have g: "n = length (filter (\<lambda>d. d \<notin> ?R) ds)"
    "mset (all_dependents info) = mset (all_dependents (info_per_transaction rv)) + replicate_mset n t"
    "num_of info = num_of (info_per_transaction rv)" "\<forall>k e. hm_get info k = Some e \<longrightarrow> rt_id e = k"
    "distinct (hm_keys info)"
    "\<And>k. set (deps_of info k) = set (deps_of (info_per_transaction rv) k) \<union> (if k \<in> set ds - ?R then {t} else {})"
    unfolding add_0 diff_zero by blast+
  have card: "n = card (unresolved rv ds)"
    using distinct_card [of "filter (\<lambda>d. d \<notin> ?R) ds"] \<open>distinct ds\<close>
    by (simp add: g(1) unresolved_def set_filter set_diff_eq)
  define e where "e = (info_entry t f info)\<lparr>num_dependencies := n, participant_ranges_info := ps\<rparr>"
  have info': "info_per_transaction rv' = hm_insert t e info"
    and path: "path = (if n = 0 then Ready e else Blocked)"
    using commit fold w by (auto simp: resolver_commit_def Let_def e_def split: if_splits)
  have all: "mset (all_dependents (hm_insert t e info)) = mset (all_dependents info)"
    using all_dependents_entry [of e info t "{#}"] by (simp add: e_def info_entry_deps)
  have "num_of (hm_insert t e info) k = count (mset (all_dependents (hm_insert t e info))) k" for k
    using graph_ok_count [OF ok, of k] fresh unfolding all g(2) num_of_insert g(3)
    by (cases "k = t") (simp_all add: e_def)
  then show "graph_ok [] (info_per_transaction rv')"
    using info_entry_id [OF g(4)] g(4,5) by (simp add: graph_ok_def info' distinct_hm_insert e_def)
  show "num_of (info_per_transaction rv') t = card (unresolved rv ds)"
    by (simp add: info' e_def card)
  show "set (deps_of (info_per_transaction rv') d) =
      set (deps_of (info_per_transaction rv) d) \<union> (if d \<in> unresolved rv ds then {t} else {})"
    using g(6) [of d] g(6) [of t] by (simp add: info' e_def info_entry_deps unresolved_def)
  show "path = Blocked \<longleftrightarrow> unresolved rv ds \<noteq> {}" "path \<noteq> Read_Only"
    using card by (auto simp: path unresolved_def)
qed

section \<open>Rounds\<close>

lemma register_ok:
  assumes "graph_ok [] (info_per_transaction rv)"
  shows "\<exists>rv' ready. register_committed_transactions ts rv = (rv', Ok ready) \<and>
    loop_inv ts (info_per_transaction rv) [] (info_per_transaction rv') ready"
  using resolve_loop_ok [OF loop_inv_start [OF assms, of ts]]
  by (auto simp: register_committed_transactions_def Let_def)

text \<open>
  Every way the resolver's table changes. A transaction is committed by one coordinator, once: its
  count is zero until its own commit request sets it.
\<close>

inductive rv_step :: "resolver \<Rightarrow> resolver \<Rightarrow> bool" where
  Commit: "distinct ds \<Longrightarrow> num_of (info_per_transaction rv) t = 0 \<Longrightarrow>
    rv_step rv (fst (resolver_commit ch t ds ps f rv))"
| Register: "rv_step rv (fst (register_committed_transactions ts rv))"
| Notify: "rv_step rv (fst (trigger_commit alive finished rv))"

lemma rv_step_graph_ok:
  "rv_step rv rv' \<Longrightarrow> graph_ok [] (info_per_transaction rv) \<Longrightarrow> graph_ok [] (info_per_transaction rv')"
proof (induction rule: rv_step.induct)
  case (Commit ds rv t ch ps f)
  show ?case
  proof (cases "\<exists>p \<in> set ps. pri_has_writes p")
    case True
    from resolver_commit_ok(1) [OF Commit(3,2,1) True prod.collapse [symmetric]] show ?thesis .
  next
    case False
    with Commit show ?thesis by (simp add: resolver_commit_def)
  qed
next
  case (Register rv ts)
  with register_ok [OF Register, of ts] show ?case by (auto simp: loop_inv_def)
next
  case (Notify rv alive finished)
  then show ?case
    by (auto simp: trigger_commit_def Let_def split: outcome.splits prod.splits)
qed

lemma rv_steps_graph_ok:
  "rv_step\<^sup>*\<^sup>* (resolver_new gc now) rv \<Longrightarrow> graph_ok [] (info_per_transaction rv)"
proof (induction rule: rtranclp_induct)
  case base
  show ?case by (simp add: resolver_new_def graph_ok_def num_of_def all_dependents_def)
qed (rule rv_step_graph_ok)

text \<open>A chain of three transactions.\<close>

definition wit_chain :: resolver where
  "wit_chain = (resolver_new gc_new 0)\<lparr>info_per_transaction :=
     [(1, (tx_entry_default 1 False)\<lparr>dependents := [2]\<rparr>),
      (2, (tx_entry_default 2 False)\<lparr>num_dependencies := 1, dependents := [3]\<rparr>),
      (3, (tx_entry_default 3 False)\<lparr>num_dependencies := 1\<rparr>)]\<rparr>"

lemma wit_chain_ok: "graph_ok [] (info_per_transaction wit_chain)"
  by (auto simp: graph_ok_def wit_chain_def num_of_def all_dependents_def tx_entry_default_def)

text \<open>
  C7: In every state the resolver can reach, each transaction's count of pending dependencies is
  the number of table entries that list it as a dependent. Registering any committed transactions
  then terminates without a missing entry and without the failed \<open>num_dependencies > 0\<close> assertion.
\<close>

theorem resolver_never_panics:
  assumes "rv_step\<^sup>*\<^sup>* (resolver_new gc now) rv"
  shows "num_of (info_per_transaction rv) t = count (mset (all_dependents (info_per_transaction rv))) t \<and>
    (\<exists>rv' ready. register_committed_transactions ts rv = (rv', Ok ready))"
  using rv_steps_graph_ok [OF assms] register_ok [of rv ts] graph_ok_count [of "[]" _ t] by auto

text \<open>Transaction 5 writes to a range and waits for 7.\<close>

definition wit_participant :: participant_range_info where
  "wit_participant = \<lparr>participant_range = \<lparr>keyspace_id = 1, range_id = 2\<rparr>, pri_has_writes = True\<rparr>"

definition wit_waiting :: resolver where
  "wit_waiting = fst (resolver_commit 1 5 [7] [wit_participant] False (resolver_new gc_new 0))"

lemma wit_waiting_reached: "rv_step\<^sup>*\<^sup>* (resolver_new gc_new 0) wit_waiting"
  unfolding wit_waiting_def
  by (rule r_into_rtranclp, rule rv_step.Commit) (simp_all add: resolver_new_def num_of_def)

theorem resolver_never_panics_witness:
  "num_of (info_per_transaction wit_waiting) 5 = 1 \<and>
   count (mset (all_dependents (info_per_transaction wit_waiting))) 5 = 1 \<and>
   (\<exists>rv' e. register_committed_transactions [7] wit_waiting = (rv', Ok [e]) \<and> rt_id e = 5 \<and>
     num_of (info_per_transaction rv') 5 = 0)"
proof -
  have n: "num_of (info_per_transaction wit_waiting) 5 = 1"
    by (simp add: wit_waiting_def resolver_commit_def wit_participant_def resolver_new_def add_dependency_def Let_def
        num_of_def info_entry_def tx_entry_default_def)
  obtain rv' ready where r: "register_committed_transactions [7] wit_waiting = (rv', Ok ready)"
    and c: "count (mset (all_dependents (info_per_transaction wit_waiting))) 5 = 1"
    using resolver_never_panics [OF wit_waiting_reached, of 5 "[7]"] n by auto
  have "map rt_id ready = [5] \<and> num_of (info_per_transaction rv') 5 = 0"
    using r by (auto simp: wit_waiting_def resolver_commit_def wit_participant_def resolver_new_def add_dependency_def
        Let_def num_of_def info_entry_def tx_entry_default_def register_committed_transactions_def hs_insert_def)
  with r c n show ?thesis by auto
qed

text \<open>
  C4: Registering committed transactions releases exactly the transactions whose pending
  dependencies are all among the committed ones or the released ones, each of them once. Each is
  put into the commit groups after every transaction it depends on.
\<close>

theorem register_releases_exactly:
  assumes "graph_ok [] (info_per_transaction rv)"
  shows "\<exists>rv' ready. register_committed_transactions ts rv = (rv', Ok ready) \<and>
    distinct (map rt_id ready) \<and> released_in_order ts (info_per_transaction rv) ready \<and>
    rt_id ` set ready = {t. num_of (info_per_transaction rv) t > 0 \<and>
      (\<forall>d. t \<in> set (deps_of (info_per_transaction rv) d) \<longrightarrow> d \<in> resolved_now ts ready)}"
proof -
  obtain rv' ready where r: "register_committed_transactions ts rv = (rv', Ok ready)"
    and inv: "loop_inv ts (info_per_transaction rv) [] (info_per_transaction rv') ready"
    using register_ok [OF assms, of ts] by blast
  have "rt_id ` set ready = {t. num_of (info_per_transaction rv) t > 0 \<and>
      (\<forall>d. t \<in> set (deps_of (info_per_transaction rv) d) \<longrightarrow> d \<in> resolved_now ts ready)}"
    using loop_inv_released [OF inv] .
  with r inv show ?thesis by (auto simp: loop_inv_def)
qed

theorem register_releases_exactly_witness:
  "graph_ok [] (info_per_transaction wit_chain) \<and>
   (\<exists>rv' ready. register_committed_transactions [1] wit_chain = (rv', Ok ready) \<and>
      distinct (map rt_id ready))"
  using wit_chain_ok register_releases_exactly [of wit_chain "[1]"] by blast

section \<open>Cycles\<close>

text \<open>
  A run of the resolver from a state on, with the transactions it hands to the group commit on the way.
  Only transactions that do not wait in the resolver are registered as committed: those that it has
  handed over, and those that their coordinator has committed itself.
\<close>

inductive rv_run :: "resolver \<Rightarrow> tx_entry list \<Rightarrow> resolver \<Rightarrow> bool" for rv where
  Run_Nil: "rv_run rv [] rv"
| Run_Commit: "rv_run rv out rv1 \<Longrightarrow> distinct ds \<Longrightarrow> num_of (info_per_transaction rv1) t = 0 \<Longrightarrow>
    resolver_commit ch t ds ps f rv1 = (rv2, path) \<Longrightarrow>
    rv_run rv (out @ (case path of Ready e \<Rightarrow> [e] | _ \<Rightarrow> [])) rv2"
| Run_Register: "rv_run rv out rv1 \<Longrightarrow> \<forall>t \<in> set ts. num_of (info_per_transaction rv1) t = 0 \<Longrightarrow>
    register_committed_transactions ts rv1 = (rv2, Ok ready) \<Longrightarrow> rv_run rv (out @ ready) rv2"
| Run_Notify: "rv_run rv out rv1 \<Longrightarrow> rv_run rv out (fst (trigger_commit alive finished rv1))"

text \<open>Each of the transactions \<open>X\<close> waits for one of them.\<close>

definition wait_cycle :: "uuid set \<Rightarrow> tx_info \<Rightarrow> bool" where
  "wait_cycle X info \<longleftrightarrow> (\<forall>x \<in> X. \<exists>d \<in> X. x \<in> set (deps_of info d))"

lemma wait_cycle_blocked:
  "graph_ok [] info \<Longrightarrow> wait_cycle X info \<Longrightarrow> x \<in> X \<Longrightarrow> num_of info x \<noteq> 0"
  using not_dependent [of info x] by (auto simp: wait_cycle_def)

lemma cycle_commit:
  assumes "graph_ok [] (info_per_transaction rv)" and "wait_cycle X (info_per_transaction rv)"
    and "distinct ds" and "num_of (info_per_transaction rv) t = 0" and "resolver_commit ch t ds ps f rv = (rv', path)"
  shows "wait_cycle X (info_per_transaction rv') \<and> (\<forall>e. path = Ready e \<longrightarrow> rt_id e \<notin> X)"
proof (cases "\<exists>p \<in> set ps. pri_has_writes p")
  case True
  note c = resolver_commit_ok [OF assms(1,4,3) True assms(5)]
  have "rt_id e = t" if "path = Ready e" for e
  proof -
    have "hm_get (info_per_transaction rv') t = Some e"
      using assms(5) True that by (auto simp: resolver_commit_def Let_def split: if_splits prod.splits)
    with c(1) show ?thesis by (simp add: graph_ok_def)
  qed
  moreover have "t \<notin> X" using wait_cycle_blocked [OF assms(1,2)] assms(4) by blast
  moreover have "set (deps_of (info_per_transaction rv) d) \<subseteq> set (deps_of (info_per_transaction rv') d)" for d
    using c(3) [of d] by blast
  then have "wait_cycle X (info_per_transaction rv')"
    using assms(2) unfolding wait_cycle_def by blast
  ultimately show ?thesis by blast
next
  case False
  with assms(2,5) show ?thesis by (auto simp: resolver_commit_def)
qed

lemma cycle_register:
  assumes "graph_ok [] (info_per_transaction rv)" and "wait_cycle X (info_per_transaction rv)"
    and "\<forall>t \<in> set ts. num_of (info_per_transaction rv) t = 0"
    and "register_committed_transactions ts rv = (rv', Ok ready)"
  shows "wait_cycle X (info_per_transaction rv') \<and> X \<inter> rt_id ` set ready = {}"
proof -
  have inv: "loop_inv ts (info_per_transaction rv) [] (info_per_transaction rv') ready"
    using register_ok [OF assms(1), of ts] assms(4) by auto
  then have order: "released_in_order ts (info_per_transaction rv) ready" by (simp add: loop_inv_def)
  have ts: "X \<inter> set ts = {}" using wait_cycle_blocked [OF assms(1,2)] assms(3) by blast
  from cycle_not_released [OF order _ ts] assms(2) have r: "X \<inter> rt_id ` set ready = {}"
    by (simp add: wait_cycle_def)
  with ts have "d \<notin> resolved_now ts ready" if "d \<in> X" for d
    using that by (auto simp: resolved_now_def)
  with inv assms(2) r show ?thesis by (auto simp: loop_inv_def wait_cycle_def)
qed

lemma cycle_run:
  assumes "rv_run rv out rv'" and "graph_ok [] (info_per_transaction rv)" and "wait_cycle X (info_per_transaction rv)"
  shows "graph_ok [] (info_per_transaction rv') \<and> wait_cycle X (info_per_transaction rv') \<and> X \<inter> rt_id ` set out = {}"
  using assms
proof (induction rule: rv_run.induct)
  case (Run_Commit out rv1 ds t ch ps f rv2 path)
  then have g: "graph_ok [] (info_per_transaction rv1)" and c: "wait_cycle X (info_per_transaction rv1)" by auto
  have "graph_ok [] (info_per_transaction rv2)"
    using rv_step_graph_ok [OF rv_step.Commit [OF Run_Commit.hyps(2,3), of ch ps f] g] Run_Commit.hyps(4) by simp
  with cycle_commit [OF g c Run_Commit.hyps(2,3,4)] Run_Commit show ?case by (auto split: commit_path.split)
next
  case (Run_Register out rv1 ts rv2 ready)
  then have g: "graph_ok [] (info_per_transaction rv1)" and c: "wait_cycle X (info_per_transaction rv1)" by auto
  have "graph_ok [] (info_per_transaction rv2)"
    using rv_step_graph_ok [OF rv_step.Register [of rv1 ts] g] Run_Register.hyps(3) by simp
  with cycle_register [OF g c Run_Register.hyps(2,3)] Run_Register show ?case by auto
next
  case (Run_Notify out rv1 alive finished)
  then have "graph_ok [] (info_per_transaction rv1)" by auto
  from rv_step_graph_ok [OF rv_step.Notify [of rv1 alive finished] this] Run_Notify show ?case
    by (auto simp: trigger_commit_def Let_def split: outcome.splits prod.splits)
qed simp

text \<open>
  C28: Transactions that wait for each other in a cycle wait forever. From any reachable state in which
  each of the transactions \<open>X\<close> waits for one of them, whatever is committed, registered and notified
  afterwards, none of them is ever handed to the group commit, and each of them still waits for one of
  them with a count that is not zero. Nothing in the resolver detects or breaks the cycle.
\<close>

theorem dependency_cycle_never_released:
  assumes "rv_step\<^sup>*\<^sup>* (resolver_new gc now) rv" and "wait_cycle X (info_per_transaction rv)"
    and "rv_run rv out rv'"
  shows "X \<inter> rt_id ` set out = {} \<and> wait_cycle X (info_per_transaction rv') \<and>
    (\<forall>x \<in> X. num_of (info_per_transaction rv') x \<noteq> 0)"
proof -
  note r = cycle_run [OF assms(3) rv_steps_graph_ok [OF assms(1)] assms(2)]
  with wait_cycle_blocked [of "info_per_transaction rv'" X] show ?thesis by blast
qed

text \<open>Transactions 5 and 7 wait for each other; a third one commits and is registered.\<close>

definition wit_cycle :: resolver where
  "wit_cycle = fst (resolver_commit 2 7 [5] [wit_participant] False wit_waiting)"

lemmas wit_cycle_defs = wit_cycle_def wit_waiting_def resolver_commit_def wit_participant_def resolver_new_def
  add_dependency_def Let_def num_of_def info_entry_def tx_entry_default_def hs_insert_def

theorem dependency_cycle_never_released_witness:
  "wait_cycle {5, 7} (info_per_transaction wit_cycle) \<and>
   (\<exists>rv' ready. register_committed_transactions [9] wit_cycle = (rv', Ok ready) \<and>
     {5, 7} \<inter> rt_id ` set ready = {} \<and> num_of (info_per_transaction rv') 5 \<noteq> 0)"
proof -
  have "rv_step wit_waiting wit_cycle"
    unfolding wit_cycle_def by (rule rv_step.Commit) (simp_all add: wit_cycle_defs)
  with wit_waiting_reached have r: "rv_step\<^sup>*\<^sup>* (resolver_new gc_new 0) wit_cycle"
    by (rule rtranclp.rtrancl_into_rtrancl)
  have c: "wait_cycle {5, 7} (info_per_transaction wit_cycle)"
    by (simp add: wait_cycle_def deps_of_def wit_cycle_defs)
  obtain rv' ready where reg: "register_committed_transactions [9] wit_cycle = (rv', Ok ready)"
    using register_ok [OF rv_steps_graph_ok [OF r], of "[9]"] by blast
  have "\<forall>t \<in> set [9]. num_of (info_per_transaction wit_cycle) t = 0" by (simp add: wit_cycle_defs)
  from Run_Register [OF Run_Nil this reg] have "rv_run wit_cycle ready rv'" by simp
  from dependency_cycle_never_released [OF r c this] c reg show ?thesis by auto
qed

end
