(* ===== verification/Tx_State_Store.thy ===== *)
theory Tx_State_Store
  imports Cql
begin

text \<open>
  The transaction state store: one database row per transaction, changed by four statements
  (\<open>tx_state_store/src/storage/cassandra.rs\<close>, \<open>storage.rs\<close> and \<open>client.rs\<close>). The database session is
  a parameter (theory \<open>Cql\<close>); \<open>cql_exec\<close> is the meaning of the statements' text.
\<close>

section \<open>Statements\<close>

datatype tx_status = Started | Committed_Status | Aborted_Status

record tx_row =
  row_status :: tx_status
  row_epoch :: "i64 option"

type_synonym tx_rows = "uuid \<rightharpoonup> tx_row"

datatype tx_query =
  START_TRANSACTION_QUERY uuid
| COMMIT_TRANSACTION_QUERY i64 uuid
| ABORT_TRANSACTION_QUERY uuid
| GET_COMMIT_EPOCH_QUERY uuid

text \<open>A result is absent for a plain update; a conditional update reports in its first column.\<close>

datatype cql_value = CQL_Boolean bool | CQL_Bigint i64

type_synonym cql_rows = "cql_value option list list option"

definition update_row :: "uuid \<Rightarrow> (tx_row \<Rightarrow> tx_row) \<Rightarrow> tx_rows \<Rightarrow> tx_rows" where
  "update_row t f rows = rows(t \<mapsto> f (case rows t of Some r \<Rightarrow> r
     | None \<Rightarrow> \<lparr>row_status = Started, row_epoch = None\<rparr>))"

fun cql_exec :: "tx_query \<Rightarrow> tx_rows \<Rightarrow> cql_rows \<times> tx_rows" where
  "cql_exec (START_TRANSACTION_QUERY t) rows =
     (case rows t of
        Some r \<Rightarrow> (Some [[Some (CQL_Boolean False)]], rows)
      | None \<Rightarrow> (Some [[Some (CQL_Boolean True)]], rows(t \<mapsto> \<lparr>row_status = Started, row_epoch = None\<rparr>)))"
| "cql_exec (COMMIT_TRANSACTION_QUERY epoch t) rows =
     (None, update_row t (\<lambda>r. r\<lparr>row_status := Committed_Status, row_epoch := Some epoch\<rparr>) rows)"
| "cql_exec (ABORT_TRANSACTION_QUERY t) rows =
     (case rows t of
        Some r \<Rightarrow>
          if row_status r \<in> {Started, Aborted_Status}
          then (Some [[Some (CQL_Boolean True)]], rows(t \<mapsto> r\<lparr>row_status := Aborted_Status\<rparr>))
          else (Some [[Some (CQL_Boolean False)]], rows)
      | None \<Rightarrow> (Some [[Some (CQL_Boolean False)]], rows))"
| "cql_exec (GET_COMMIT_EPOCH_QUERY t) rows =
     (Some (case rows t of
              Some r \<Rightarrow> if row_status r = Committed_Status then [[map_option CQL_Bigint (row_epoch r)]] else []
            | None \<Rightarrow> []), rows)"

section \<open>Sessions\<close>

datatype tx_store_error = Store_Timeout | Store_InternalError query_error

fun scylla_query_error_to_storage_error :: "query_error \<Rightarrow> tx_store_error" where
  "scylla_query_error_to_storage_error TimeoutError = Store_Timeout"
| "scylla_query_error_to_storage_error DbWriteTimeout = Store_Timeout"
| "scylla_query_error_to_storage_error qe = Store_InternalError qe"

type_synonym 'db session = "(tx_query, cql_rows, 'db) cql_session"

text \<open>A batch is applied as a whole.\<close>

type_synonym 'db batch_session = "(tx_query, 'db) cql_batch_session"

definition cql_batch :: "tx_query list \<Rightarrow> tx_rows \<Rightarrow> tx_rows" where
  "cql_batch qs rows = fold (\<lambda>q. snd \<circ> cql_exec q) qs rows"

abbreviation session_serves :: "'db session \<Rightarrow> 'db batch_session \<Rightarrow> ('db \<Rightarrow> tx_rows) \<Rightarrow> bool" where
  "session_serves query batch view \<equiv> serves cql_exec cql_batch query batch view"

section \<open>Operations\<close>

datatype op_result = TransactionIsAborted | TransactionIsCommitted u64

definition maybe_get_commit_epoch ::
    "'db session \<Rightarrow> uuid \<Rightarrow> 'db \<Rightarrow> 'db \<times> (tx_store_error, op_result) outcome" where
  "maybe_get_commit_epoch query t db =
     (case query (GET_COMMIT_EPOCH_QUERY t) db of
        (db, r) \<Rightarrow>
          (db, try_ok (map_err scylla_query_error_to_storage_error r) (\<lambda>query_result.
             case query_result of
               None \<Rightarrow> Ok TransactionIsAborted
             | Some rows \<Rightarrow>
                 if length rows > 1 then Panic
                 else
                   (case rows of
                      [] \<Rightarrow> Ok TransactionIsAborted
                    | row # _ \<Rightarrow>
                        (case row of
                           Some (CQL_Bigint epoch) # _ \<Rightarrow> Ok (TransactionIsCommitted epoch)
                         | _ \<Rightarrow> Panic)))))"

definition start_transaction :: "'db session \<Rightarrow> uuid \<Rightarrow> 'db \<Rightarrow> 'db \<times> (tx_store_error, unit) outcome" where
  "start_transaction query t db =
     (case query (START_TRANSACTION_QUERY t) db of
        (db, r) \<Rightarrow> (db, try_ok (map_err scylla_query_error_to_storage_error r) (\<lambda>_. Ok ())))"

definition commit_transaction ::
    "'db session \<Rightarrow> uuid \<Rightarrow> u64 \<Rightarrow> 'db \<Rightarrow> 'db \<times> (tx_store_error, op_result) outcome" where
  "commit_transaction query t epoch db =
     (case query (COMMIT_TRANSACTION_QUERY epoch t) db of
        (db, r) \<Rightarrow> (db, try_ok (map_err scylla_query_error_to_storage_error r)
          (\<lambda>_. Ok (TransactionIsCommitted epoch))))"

definition batch_commit_transactions ::
    "'db batch_session \<Rightarrow> uuid list \<Rightarrow> u64 \<Rightarrow> 'db \<Rightarrow> 'db \<times> (tx_store_error, op_result) outcome" where
  "batch_commit_transactions batch ts epoch db =
     (case batch (map (COMMIT_TRANSACTION_QUERY epoch) ts) db of
        (db, r) \<Rightarrow> (db, try_ok (map_err scylla_query_error_to_storage_error r)
          (\<lambda>_. Ok (TransactionIsCommitted epoch))))"

definition abort_transaction ::
    "'db session \<Rightarrow> uuid \<Rightarrow> 'db \<Rightarrow> 'db \<times> (tx_store_error, op_result) outcome" where
  "abort_transaction query t db =
     (case query (ABORT_TRANSACTION_QUERY t) db of
        (db, Ok query_result) \<Rightarrow>
          (case query_result of
             None \<Rightarrow> (db, Panic)
           | Some rows \<Rightarrow>
               (case rows of
                  [Some (CQL_Boolean applied) # _] \<Rightarrow>
                    if applied then (db, Ok TransactionIsAborted) else maybe_get_commit_epoch query t db
                | _ \<Rightarrow> (db, Panic)))
      | (db, Err e) \<Rightarrow> (db, Err (scylla_query_error_to_storage_error e))
      | (db, Panic) \<Rightarrow> (db, Panic))"

text \<open>The client's calls, as a sequence.\<close>

datatype tx_op = Start uuid | Try_Abort uuid | Try_Commit uuid u64 | Try_Batch_Commit "uuid list" u64

primrec run_op :: "'db session \<Rightarrow> 'db batch_session \<Rightarrow> tx_op \<Rightarrow> 'db \<Rightarrow> 'db" where
  "run_op query batch (Start t) db = fst (start_transaction query t db)"
| "run_op query batch (Try_Abort t) db = fst (abort_transaction query t db)"
| "run_op query batch (Try_Commit t epoch) db = fst (commit_transaction query t epoch db)"
| "run_op query batch (Try_Batch_Commit ts epoch) db = fst (batch_commit_transactions batch ts epoch db)"

section \<open>What is decided\<close>

definition decided_commit :: "tx_rows \<Rightarrow> uuid \<Rightarrow> u64 option" where
  "decided_commit rows t = (case rows t of
     Some r \<Rightarrow> if row_status r = Committed_Status then row_epoch r else None
   | None \<Rightarrow> None)"

text \<open>Committed rows have an epoch; the statements keep it so.\<close>

definition rows_ok :: "tx_rows \<Rightarrow> bool" where
  "rows_ok rows \<longleftrightarrow> (\<forall>t r. rows t = Some r \<longrightarrow> row_status r = Committed_Status \<longrightarrow> row_epoch r \<noteq> None)"

lemma cql_exec_rows_ok: "rows_ok rows \<Longrightarrow> rows_ok (snd (cql_exec q rows))"
  by (cases q) (auto simp: rows_ok_def update_row_def split: option.splits)

lemma cql_exec_decided:
  "rows_ok rows \<Longrightarrow> decided_commit rows t \<noteq> None \<Longrightarrow> decided_commit (snd (cql_exec q rows)) t \<noteq> None"
  by (cases q) (auto simp: decided_commit_def update_row_def split: option.splits if_splits)

lemma cql_batch_keeps:
  assumes "rows_ok rows" and "decided_commit rows t \<noteq> None"
  shows "rows_ok (cql_batch qs rows) \<and> decided_commit (cql_batch qs rows) t \<noteq> None"
  using assms by (induction qs arbitrary: rows)
    (simp_all add: cql_batch_def cql_exec_rows_ok cql_exec_decided del: not_None_eq)

text \<open>Both facts about a table, carried over a statement whatever the session answers.\<close>

definition keeps :: "tx_rows \<Rightarrow> uuid \<Rightarrow> bool" where
  "keeps rows t \<longleftrightarrow> rows_ok rows \<and> decided_commit rows t \<noteq> None"

lemmas session_query = serves_query [where exec = cql_exec and exec_batch = cql_batch]
lemmas session_batch = serves_batch [where exec = cql_exec and exec_batch = cql_batch]

lemma query_keeps:
  assumes "session_serves query batch view" and "keeps (view db) t" and "query q db = (db', r)"
  shows "keeps (view db') t"
  using assms(2) cql_exec_rows_ok [of "view db" q] cql_exec_decided [of "view db" t q]
  by (rule_tac session_query [OF assms(1,3)]) (auto simp: keeps_def)

lemma maybe_get_commit_epoch_keeps:
  assumes "session_serves query batch view" and "keeps (view db) t"
  shows "keeps (view (fst (maybe_get_commit_epoch query u db))) t"
  using query_keeps [OF assms] by (auto simp: maybe_get_commit_epoch_def split: prod.splits)

lemma run_op_keeps:
  assumes s: "session_serves query batch view" and k: "keeps (view db) t"
  shows "keeps (view (run_op query batch op db)) t"
proof (cases op)
  case (Start u)
  then show ?thesis using query_keeps [OF s k] by (auto simp: start_transaction_def split: prod.splits)
next
  case (Try_Abort u)
  then show ?thesis
    using query_keeps [OF s k] maybe_get_commit_epoch_keeps [OF s]
    by (auto simp: abort_transaction_def split: prod.splits outcome.splits option.splits list.splits
        cql_value.splits)
next
  case (Try_Commit u epoch)
  then show ?thesis using query_keeps [OF s k] by (auto simp: commit_transaction_def split: prod.splits)
next
  case (Try_Batch_Commit us epoch)
  obtain db' r where b: "batch (map (COMMIT_TRANSACTION_QUERY epoch) us) db = (db', r)" by force
  have "keeps (cql_batch (map (COMMIT_TRANSACTION_QUERY epoch) us) (view db)) t"
    using k cql_batch_keeps unfolding keeps_def by blast
  with k have "keeps (view db') t" by (rule_tac session_batch [OF s b]) auto
  with Try_Batch_Commit b show ?thesis by (simp add: batch_commit_transactions_def)
qed

lemma run_ops_keep:
  "session_serves query batch view \<Longrightarrow> keeps (view db) t \<Longrightarrow>
     keeps (view (fold (run_op query batch) ops db)) t"
  by (induction ops arbitrary: db) (auto simp: run_op_keeps)

lemma maybe_get_commit_epoch_decided:
  assumes s: "session_serves query batch view" and d: "decided_commit (view db) t = Some epoch"
  shows "snd (maybe_get_commit_epoch query t db) = Ok (TransactionIsCommitted epoch) \<or>
    (\<exists>e. snd (maybe_get_commit_epoch query t db) = Err e)"
proof -
  obtain db' r where q: "query (GET_COMMIT_EPOCH_QUERY t) db = (db', r)" by force
  obtain row where row: "view db t = Some row" "row_status row = Committed_Status" "row_epoch row = Some epoch"
    using d by (auto simp: decided_commit_def split: option.splits if_splits)
  show ?thesis
    by (rule session_query [OF s q]) (simp_all add: maybe_get_commit_epoch_def q row)
qed

lemma abort_decided:
  assumes s: "session_serves query batch view" and d: "decided_commit (view db) t = Some epoch"
  shows "snd (abort_transaction query t db) = Ok (TransactionIsCommitted epoch) \<or>
    (\<exists>e. snd (abort_transaction query t db) = Err e)"
proof -
  obtain db' r where q: "query (ABORT_TRANSACTION_QUERY t) db = (db', r)" by force
  obtain row where row: "view db t = Some row" "row_status row = Committed_Status"
    using d by (auto simp: decided_commit_def split: option.splits if_splits)
  show ?thesis
  proof (rule session_query [OF s q])
    assume r: "r = Ok (fst (cql_exec (ABORT_TRANSACTION_QUERY t) (view db)))"
      and "view db' = snd (cql_exec (ABORT_TRANSACTION_QUERY t) (view db))"
    then have "decided_commit (view db') t = Some epoch" using d row by simp
    with maybe_get_commit_epoch_decided [OF s] r row show ?thesis by (simp add: abort_transaction_def q)
  qed (simp_all add: abort_transaction_def q)
qed

text \<open>A session over the table itself.\<close>

abbreviation table_query :: "tx_rows session" where
  "table_query \<equiv> rows_query cql_exec"

abbreviation table_batch :: "tx_rows batch_session" where
  "table_batch \<equiv> rows_batch cql_batch"

lemmas table_session_serves = rows_session_serves [of cql_exec cql_batch]

lemmas table_session_simps = rows_query_def rows_batch_def cql_batch_def update_row_def
  start_transaction_def commit_transaction_def abort_transaction_def batch_commit_transactions_def
  maybe_get_commit_epoch_def

text \<open>
  C29: A commit that the store has acknowledged is final: after any later starts, aborts, commits
  and batch commits, of any transactions and whether or not the database reports an error, the
  transaction is still committed, and an attempt to abort it answers that it is committed (with
  the epoch of the row) or fails, and never panics.
\<close>

theorem acknowledged_commit_is_final:
  assumes "session_serves query batch view" and "rows_ok (view db)"
    and "commit_transaction query t epoch db = (db1, Ok res)"
    and "db2 = fold (run_op query batch) ops db1"
  shows "res = TransactionIsCommitted epoch \<and>
    (\<exists>e. decided_commit (view db2) t = Some e \<and>
       (snd (abort_transaction query t db2) = Ok (TransactionIsCommitted e) \<or>
        (\<exists>err. snd (abort_transaction query t db2) = Err err)))"
proof -
  obtain r where q: "query (COMMIT_TRANSACTION_QUERY epoch t) db = (db1, r)" and res: "res = TransactionIsCommitted epoch"
    and r: "r \<noteq> Panic" "\<forall>e. r \<noteq> Err e"
    using assms(3) by (cases "query (COMMIT_TRANSACTION_QUERY epoch t) db", cases "snd (query (COMMIT_TRANSACTION_QUERY epoch t) db)")
      (auto simp: commit_transaction_def)
  have "keeps (view db1) t"
    using assms(2) cql_exec_rows_ok [of "view db" "COMMIT_TRANSACTION_QUERY epoch t"] r
    by (rule_tac session_query [OF assms(1) q]) (auto simp: keeps_def decided_commit_def update_row_def)
  from run_ops_keep [OF assms(1) this, of ops] obtain e where "decided_commit (view db2) t = Some e"
    using assms(4) by (auto simp: keeps_def)
  with abort_decided [OF assms(1) this] res show ?thesis by blast
qed

theorem acknowledged_commit_is_final_witness:
  "session_serves table_query table_batch (\<lambda>rows. rows) \<and>
   (\<exists>e. decided_commit (fold (run_op table_query table_batch) [Try_Abort 7, Start 7]
      (fst (commit_transaction table_query 7 3 Map.empty))) 7 = Some e)"
proof -
  have "commit_transaction table_query 7 3 Map.empty =
      (fst (commit_transaction table_query 7 3 Map.empty), Ok (TransactionIsCommitted 3))"
    by (simp add: table_session_simps)
  from acknowledged_commit_is_final [OF table_session_serves _ this refl, of "[Try_Abort 7, Start 7]"]
  show ?thesis using table_session_serves by (auto simp: rows_ok_def)
qed

text \<open>
  C30: An abort that the store has acknowledged is not final: a commit of the same transaction
  after it never answers that the transaction is aborted, and when the database accepts the update
  the transaction is committed.
\<close>

theorem acknowledged_abort_is_overwritten:
  assumes "session_serves query batch view"
    and "abort_transaction query t db = (db1, Ok TransactionIsAborted)"
    and "commit_transaction query t epoch db1 = (db2, r)"
  shows "r \<noteq> Ok TransactionIsAborted \<and> r \<noteq> Panic \<and>
    (\<forall>res. r = Ok res \<longrightarrow> decided_commit (view db2) t = Some epoch)"
proof -
  obtain r' where q: "query (COMMIT_TRANSACTION_QUERY epoch t) db1 = (db2, r')"
    and r: "r = try_ok (map_err scylla_query_error_to_storage_error r') (\<lambda>_. Ok (TransactionIsCommitted epoch))"
    using assms(3) by (auto simp: commit_transaction_def split: prod.splits)
  show ?thesis
    by (rule session_query [OF assms(1) q]) (auto simp: r decided_commit_def update_row_def)
qed

theorem acknowledged_abort_is_overwritten_witness:
  "abort_transaction table_query 7 [7 \<mapsto> \<lparr>row_status = Started, row_epoch = None\<rparr>] =
     ([7 \<mapsto> \<lparr>row_status = Aborted_Status, row_epoch = None\<rparr>], Ok TransactionIsAborted) \<and>
   decided_commit (fst (commit_transaction table_query 7 3
     [7 \<mapsto> \<lparr>row_status = Aborted_Status, row_epoch = None\<rparr>])) 7 = Some 3"
proof -
  have abort: "abort_transaction table_query 7 [7 \<mapsto> \<lparr>row_status = Started, row_epoch = None\<rparr>] =
     ([7 \<mapsto> \<lparr>row_status = Aborted_Status, row_epoch = None\<rparr>], Ok TransactionIsAborted)"
    by (simp add: table_session_simps)
  have commit: "commit_transaction table_query 7 3 [7 \<mapsto> \<lparr>row_status = Aborted_Status, row_epoch = None\<rparr>] =
     (fst (commit_transaction table_query 7 3 [7 \<mapsto> \<lparr>row_status = Aborted_Status, row_epoch = None\<rparr>]),
      Ok (TransactionIsCommitted 3))"
    by (simp add: table_session_simps)
  from acknowledged_abort_is_overwritten [OF table_session_serves abort commit] abort
  show ?thesis by blast
qed

end
