(* ===== verification/Transaction.thy ===== *)
theory Transaction
  imports Resolver Tx_State_Store Errors
begin

text \<open>
  The coordinator's transaction (\<open>coordinator/src/transaction.rs\<close>): the buffered writes and deletes
  per participant range, reads that see them, and the two-phase commit. The answers of the range
  assignment oracle, of the ranges, of the transaction state store and of the resolver are
  arguments; what the handlers send is a list of messages, in order.
\<close>

section \<open>State\<close>

datatype tx_abort_reason =
  DeadlockPrevention | LockLost | RangeLeadershipChanged | RangeLeaseExpired
| RangePartitioningChanged | TransactionTimeout | PrepareFailed | Other

datatype transaction_error =
  KeyspaceDoesNotExist
| TransactionNoLongerRunning
| TransactionTimedOut
| TransactionDoneButStateUnknown
| Transaction_Aborted tx_abort_reason
| Transaction_InternalError string

datatype transaction_state = Running | Preparing | Aborted | Committed

record participant_range =
  readset :: "bytes set"
  writeset :: "(bytes, bytes) hmap"
  deleteset :: "bytes list"
  range_leader :: u64

record transaction =
  t_info :: transaction_info
  t_state :: transaction_state
  t_participants :: "(full_range_id, participant_range) hmap"
  t_dependencies :: "uuid list"
  t_commit_strategy :: commit_strategy
  t_keyspace :: keyspace

definition transaction_new :: "transaction_info \<Rightarrow> commit_strategy \<Rightarrow> keyspace \<Rightarrow> transaction" where
  "transaction_new info strategy ks = \<lparr>t_info = info, t_state = Running, t_participants = [],
     t_dependencies = [], t_commit_strategy = strategy, t_keyspace = ks\<rparr>"

record full_record_key =
  frk_range_id :: full_range_id
  frk_key :: bytes

text \<open>What the range client returns.\<close>

record client_get_result =
  cgr_vals :: "bytes option list"
  cgr_leader_sequence_number :: i64
  cgr_dependencies :: "uuid list"

record prepare_ok =
  po_highest_known_epoch :: u64
  po_epoch_lease :: "u64 \<times> u64"
  po_dependencies :: "uuid list"
  po_released_lock_early :: bool

datatype tx_message =
  Get_Range full_range_id bytes
| Prepare_Range full_range_id bool "(bytes \<times> bytes) list" "bytes list" f64 u32
| Abort_Range full_range_id
| Commit_Range full_range_id u64
| Store_Abort
| Store_Commit u64
| Resolver_Commit "uuid list" "participant_range_info list"
| Resolver_Register "uuid list"

type_synonym range_oracle = "keyspace \<Rightarrow> bytes \<Rightarrow> full_range_id option"
type_synonym store_answer = "(tx_store_error, op_result) outcome"
type_synonym 'a tx_result = "transaction \<times> tx_message list \<times> (transaction_error, 'a) outcome"

section \<open>Reads and writes\<close>

definition resolve_full_record_key ::
    "range_oracle \<Rightarrow> keyspace \<Rightarrow> bytes \<Rightarrow> (transaction_error, full_record_key) outcome" where
  "resolve_full_record_key oracle ks key =
     (case oracle ks key of
        None \<Rightarrow> Err KeyspaceDoesNotExist
      | Some i \<Rightarrow> Ok \<lparr>frk_range_id = i, frk_key = key\<rparr>)"

definition check_still_running :: "transaction \<Rightarrow> (transaction_error, unit) outcome" where
  "check_still_running tx =
     (case t_state tx of
        Running \<Rightarrow> Ok ()
      | Aborted \<Rightarrow> Err (Transaction_Aborted Other)
      | Preparing \<Rightarrow> Err TransactionNoLongerRunning
      | Committed \<Rightarrow> Err TransactionNoLongerRunning)"

definition empty_participant :: participant_range where
  "empty_participant = \<lparr>readset = {}, writeset = [], deleteset = [], range_leader = 0\<rparr>"

text \<open>The entry of the range, inserted if it is missing, and how a handler updates it.\<close>

definition get_participant_range :: "full_range_id \<Rightarrow> transaction \<Rightarrow> transaction \<times> participant_range" where
  "get_participant_range r tx =
     (case hm_get (t_participants tx) r of
        Some p \<Rightarrow> (tx, p)
      | None \<Rightarrow> (tx\<lparr>t_participants := hm_insert r empty_participant (t_participants tx)\<rparr>, empty_participant))"

definition set_participant_range :: "full_range_id \<Rightarrow> participant_range \<Rightarrow> transaction \<Rightarrow> transaction" where
  "set_participant_range r p tx = tx\<lparr>t_participants := hm_insert r p (t_participants tx)\<rparr>"

definition record_abort :: "store_answer \<Rightarrow> transaction \<Rightarrow> unit tx_result" where
  "record_abort answer tx =
     (tx\<lparr>t_state := Aborted\<rparr>, map Abort_Range (hm_keys (t_participants tx)) @ [Store_Abort],
      case answer of
        Ok TransactionIsAborted \<Rightarrow> Ok ()
      | Ok (TransactionIsCommitted _) \<Rightarrow> Panic
      | Err _ \<Rightarrow> Panic
      | Panic \<Rightarrow> Panic)"

text \<open>\<open>let _ = self.record_abort().await; return Err(...)\<close>: only a panic gets through.\<close>

definition abort_with :: "tx_abort_reason \<Rightarrow> store_answer \<Rightarrow> transaction \<Rightarrow> 'a tx_result" where
  "abort_with reason answer tx =
     (case record_abort answer tx of
        (tx, msgs, Panic) \<Rightarrow> (tx, msgs, Panic)
      | (tx, msgs, _) \<Rightarrow> (tx, msgs, Err (Transaction_Aborted reason)))"

definition extend_dependencies :: "uuid list \<Rightarrow> transaction \<Rightarrow> transaction" where
  "extend_dependencies ds tx = tx\<lparr>t_dependencies := fold hs_insert ds (t_dependencies tx)\<rparr>"

definition tx_get_answered ::
    "full_range_id \<Rightarrow> bytes \<Rightarrow> client_get_result \<Rightarrow> store_answer \<Rightarrow> transaction \<Rightarrow> bytes option tx_result" where
  "tx_get_answered r key res abort_answer tx =
     (let (tx, p) = get_participant_range r (extend_dependencies (cgr_dependencies res) tx);
          current = cgr_leader_sequence_number res;
          p = (if current \<noteq> INVALID_LEADER_SEQUENCE_NUMBER \<and> range_leader p = UNSET_LEADER_SEQUENCE_NUMBER
               then p\<lparr>range_leader := current\<rparr> else p);
          tx = set_participant_range r p tx
      in if current \<noteq> range_leader p then abort_with RangeLeadershipChanged abort_answer tx
         else
           (set_participant_range r (p\<lparr>readset := insert key (readset p)\<rparr>) tx, [],
            case cgr_vals res of [] \<Rightarrow> Panic | v # _ \<Rightarrow> Ok v))"

definition tx_get ::
    "range_oracle \<Rightarrow> (error, client_get_result) outcome \<Rightarrow> store_answer \<Rightarrow> keyspace \<Rightarrow> bytes \<Rightarrow> transaction \<Rightarrow>
      bytes option tx_result" where
  "tx_get oracle answer abort_answer ks key tx =
     (case try_ok (check_still_running tx) (\<lambda>_. resolve_full_record_key oracle ks key) of
        Ok frk \<Rightarrow>
          (let r = frk_range_id frk;
               (tx, p) = get_participant_range r tx
           in case hm_get (writeset p) key of
                Some v \<Rightarrow> (tx, [], Ok (Some v))
              | None \<Rightarrow>
                  if key \<in> set (deleteset p) then (tx, [], Ok None)
                  else
                    (case answer of
                       Ok res \<Rightarrow>
                         (case tx_get_answered r key res abort_answer tx of
                            (tx, msgs, v) \<Rightarrow> (tx, Get_Range r key # msgs, v))
                     | Err _ \<Rightarrow> (tx, [Get_Range r key], Panic)
                     | Panic \<Rightarrow> (tx, [Get_Range r key], Panic)))
      | Err e \<Rightarrow> (tx, [], Err e)
      | Panic \<Rightarrow> (tx, [], Panic))"

definition tx_put :: "range_oracle \<Rightarrow> keyspace \<Rightarrow> bytes \<Rightarrow> bytes \<Rightarrow> transaction \<Rightarrow> unit tx_result" where
  "tx_put oracle ks key val tx =
     (case try_ok (check_still_running tx) (\<lambda>_. resolve_full_record_key oracle ks key) of
        Ok frk \<Rightarrow>
          (let r = frk_range_id frk;
               (tx, p) = get_participant_range r tx;
               p = p\<lparr>deleteset := removeAll key (deleteset p)\<rparr>;
               p = p\<lparr>writeset := hm_insert key val (writeset p)\<rparr>
           in (set_participant_range r p tx, [], Ok ()))
      | Err e \<Rightarrow> (tx, [], Err e)
      | Panic \<Rightarrow> (tx, [], Panic))"

definition tx_del :: "range_oracle \<Rightarrow> keyspace \<Rightarrow> bytes \<Rightarrow> transaction \<Rightarrow> unit tx_result" where
  "tx_del oracle ks key tx =
     (case try_ok (check_still_running tx) (\<lambda>_. resolve_full_record_key oracle ks key) of
        Ok frk \<Rightarrow>
          (let r = frk_range_id frk;
               (tx, p) = get_participant_range r tx;
               p = p\<lparr>writeset := hm_remove key (writeset p)\<rparr>;
               p = p\<lparr>deleteset := hs_insert key (deleteset p)\<rparr>
           in (set_participant_range r p tx, [], Ok ()))
      | Err e \<Rightarrow> (tx, [], Err e)
      | Panic \<Rightarrow> (tx, [], Panic))"

definition tx_abort :: "store_answer \<Rightarrow> transaction \<Rightarrow> unit tx_result" where
  "tx_abort answer tx =
     (if t_state tx = Aborted then (tx, [], Ok ())
      else
        (case check_still_running tx of
           Ok _ \<Rightarrow> record_abort answer tx
         | Err e \<Rightarrow> (tx, [], Err e)
         | Panic \<Rightarrow> (tx, [], Panic)))"

section \<open>Commit\<close>

definition prepare_requests :: "f64 \<Rightarrow> u32 \<Rightarrow> transaction \<Rightarrow> tx_message list" where
  "prepare_requests load clients tx =
     map (\<lambda>(r, p). Prepare_Range r (readset p \<noteq> {}) (writeset p) (deleteset p) load clients)
       (t_participants tx)"

text \<open>
  The answers in the order in which the tasks finish; a task that panics is \<open>Panic\<close>. The result
  says whether some range released its lock early.
\<close>

fun collect_prepares ::
    "(full_range_id \<times> (error, prepare_ok) outcome) list \<Rightarrow> store_answer \<Rightarrow> bool \<Rightarrow> transaction \<Rightarrow>
      bool tx_result" where
  "collect_prepares [] abort_answer early tx = (tx, [], Ok early)"
| "collect_prepares ((r, Panic) # answers) abort_answer early tx = abort_with PrepareFailed abort_answer tx"
| "collect_prepares ((r, Err e) # answers) abort_answer early tx = (tx, [], Panic)"
| "collect_prepares ((r, Ok res) # answers) abort_answer early tx =
     collect_prepares answers abort_answer (early \<or> po_released_lock_early res)
       (extend_dependencies (po_dependencies res) tx)"

definition commit_notifications :: "u64 \<Rightarrow> transaction \<Rightarrow> tx_message list" where
  "commit_notifications epoch tx =
     map (\<lambda>(r, p). Commit_Range r epoch) (filter (\<lambda>(r, p). writeset p \<noteq> []) (t_participants tx))"

definition participants_info :: "transaction \<Rightarrow> participant_range_info list" where
  "participants_info tx =
     map (\<lambda>(r, p). \<lparr>participant_range = r, pri_has_writes = (writeset p \<noteq> [])\<rparr>) (t_participants tx)"

definition commit_traditional :: "store_answer \<Rightarrow> transaction \<Rightarrow> unit tx_result" where
  "commit_traditional answer tx =
     (case answer of
        Ok TransactionIsAborted \<Rightarrow> (tx, [Store_Commit 0], Err (Transaction_Aborted Other))
      | Ok (TransactionIsCommitted epoch) \<Rightarrow>
          if epoch = 0
          then (tx\<lparr>t_state := Committed\<rparr>, Store_Commit 0 # commit_notifications 0 tx, Ok ())
          else (tx, [Store_Commit 0], Panic)
      | Err _ \<Rightarrow> (tx, [Store_Commit 0], Panic)
      | Panic \<Rightarrow> (tx, [Store_Commit 0], Panic))"

definition commit_pipelined ::
    "bool \<Rightarrow> store_answer \<Rightarrow> (transaction_error, unit) outcome \<Rightarrow> transaction \<Rightarrow> unit tx_result" where
  "commit_pipelined early answer resolver_answer tx =
     (if t_dependencies tx \<noteq> []
      then (tx, [Resolver_Commit (t_dependencies tx) (participants_info tx)],
            try_ok resolver_answer (\<lambda>_. Ok ()))
      else
        (case answer of
           Ok _ \<Rightarrow>
             (tx\<lparr>t_state := Committed\<rparr>,
              Store_Commit 0 # commit_notifications 0 tx @
                (if early then [Resolver_Register [ti_id (t_info tx)]] else []), Ok ())
         | Err _ \<Rightarrow> (tx, [Store_Commit 0], Panic)
         | Panic \<Rightarrow> (tx, [Store_Commit 0], Panic)))"

definition tx_commit ::
    "f64 \<Rightarrow> u32 \<Rightarrow> (full_range_id \<times> (error, prepare_ok) outcome) list \<Rightarrow> store_answer \<Rightarrow> store_answer \<Rightarrow>
      (transaction_error, unit) outcome \<Rightarrow> transaction \<Rightarrow> unit tx_result" where
  "tx_commit load clients answers abort_answer answer resolver_answer tx =
     (case check_still_running tx of
        Ok _ \<Rightarrow>
          (let tx = tx\<lparr>t_state := Preparing\<rparr>;
               requests = prepare_requests load clients tx
           in case collect_prepares answers abort_answer False tx of
                (tx, msgs, Ok early) \<Rightarrow>
                  (case (case t_commit_strategy tx of
                           Traditional \<Rightarrow> commit_traditional answer tx
                         | Adaptive \<Rightarrow> commit_pipelined early answer resolver_answer tx
                         | Pipelined \<Rightarrow> commit_pipelined early answer resolver_answer tx) of
                     (tx, msgs, r) \<Rightarrow> (tx, requests @ msgs, r))
              | (tx, msgs, Err e) \<Rightarrow> (tx, requests @ msgs, Err e)
              | (tx, msgs, Panic) \<Rightarrow> (tx, requests @ msgs, Panic))
      | Err e \<Rightarrow> (tx, [], Err e)
      | Panic \<Rightarrow> (tx, [], Panic))"

section \<open>The buffered writes as an overlay\<close>

text \<open>
  What a client call does to the transaction, and the specification: a partial map from ranges and
  keys to the new value, where \<open>Some None\<close> is a delete.
\<close>

datatype tx_call =
  Call_Get bytes "(error, client_get_result) outcome" store_answer
| Call_Put bytes bytes
| Call_Del bytes

primrec run_call :: "range_oracle \<Rightarrow> keyspace \<Rightarrow> tx_call \<Rightarrow> transaction \<Rightarrow> transaction" where
  "run_call oracle ks (Call_Get k answer abort_answer) tx = fst (tx_get oracle answer abort_answer ks k tx)"
| "run_call oracle ks (Call_Put k v) tx = fst (tx_put oracle ks k v tx)"
| "run_call oracle ks (Call_Del k) tx = fst (tx_del oracle ks k tx)"

type_synonym write_overlay = "full_range_id \<times> bytes \<rightharpoonup> bytes option"

primrec spec_call :: "range_oracle \<Rightarrow> keyspace \<Rightarrow> tx_call \<Rightarrow> write_overlay \<Rightarrow> write_overlay" where
  "spec_call oracle ks (Call_Get k answer abort_answer) w = w"
| "spec_call oracle ks (Call_Put k v) w =
     (case oracle ks k of Some r \<Rightarrow> w((r, k) \<mapsto> Some v) | None \<Rightarrow> w)"
| "spec_call oracle ks (Call_Del k) w =
     (case oracle ks k of Some r \<Rightarrow> w((r, k) \<mapsto> None) | None \<Rightarrow> w)"

definition p_overlay :: "participant_range \<Rightarrow> bytes \<rightharpoonup> bytes option" where
  "p_overlay p k = (case hm_get (writeset p) k of
     Some v \<Rightarrow> Some (Some v)
   | None \<Rightarrow> if k \<in> set (deleteset p) then Some None else None)"

definition overlay :: "transaction \<Rightarrow> write_overlay" where
  "overlay tx rk = (case hm_get (t_participants tx) (fst rk) of Some p \<Rightarrow> p_overlay p (snd rk) | None \<Rightarrow> None)"

definition p_ok :: "participant_range \<Rightarrow> bool" where
  "p_ok p \<longleftrightarrow> distinct (hm_keys (writeset p)) \<and> distinct (deleteset p) \<and>
     set (hm_keys (writeset p)) \<inter> set (deleteset p) = {}"

definition tx_ok :: "transaction \<Rightarrow> bool" where
  "tx_ok tx \<longleftrightarrow> distinct (hm_keys (t_participants tx)) \<and> distinct (t_dependencies tx) \<and>
     (\<forall>r p. hm_get (t_participants tx) r = Some p \<longrightarrow> p_ok p)"

lemma p_overlay_empty [simp]: "p_overlay empty_participant = Map.empty" "p_ok empty_participant"
  by (auto simp: p_overlay_def empty_participant_def p_ok_def)

lemma p_other_fields [simp]:
  "p_overlay (p\<lparr>readset := x\<rparr>) = p_overlay p" "p_overlay (p\<lparr>range_leader := l\<rparr>) = p_overlay p"
  "p_ok (p\<lparr>readset := x\<rparr>) = p_ok p" "p_ok (p\<lparr>range_leader := l\<rparr>) = p_ok p"
  by (auto simp: p_overlay_def p_ok_def)

lemma set_participant_range_ok [simp]:
  "tx_ok tx \<Longrightarrow> p_ok p \<Longrightarrow> tx_ok (set_participant_range r p tx)"
  unfolding tx_ok_def set_participant_range_def by (simp add: distinct_hm_insert)

lemma set_participant_range_overlay [simp]:
  "overlay (set_participant_range r p tx) = (\<lambda>rk. if fst rk = r then p_overlay p (snd rk) else overlay tx rk)"
  by (auto simp: overlay_def set_participant_range_def)

lemma get_participant_rangeE:
  assumes "get_participant_range r tx = (tx', p)" and "tx_ok tx"
  obtains "tx_ok tx'" "p_ok p" "overlay tx' = overlay tx" "hm_get (t_participants tx') r = Some p"
    "p_overlay p = (\<lambda>k. overlay tx (r, k))" "t_state tx' = t_state tx" "t_dependencies tx' = t_dependencies tx"
    "hm_get (t_participants tx) r = Some p \<Longrightarrow> tx' = tx"
proof (cases "hm_get (t_participants tx) r")
  case None
  then have "tx' = set_participant_range r empty_participant tx" "p = empty_participant"
    using assms(1) by (auto simp: get_participant_range_def set_participant_range_def)
  with None assms(2) show ?thesis
    by (intro that) (auto simp: overlay_def fun_eq_iff, simp_all add: set_participant_range_def)
next
  case (Some q)
  with assms(1) have "tx' = tx" "p = q" by (auto simp: get_participant_range_def)
  with Some assms(2) show ?thesis by (intro that) (auto simp: tx_ok_def overlay_def fun_eq_iff)
qed

lemma p_put_ok:
  assumes "p_ok p" and "q = p\<lparr>deleteset := removeAll k (deleteset p), writeset := hm_insert k v (writeset p)\<rparr>"
  shows "p_ok q" "p_overlay q = (p_overlay p)(k \<mapsto> Some v)"
  using assms by (auto simp: p_ok_def p_overlay_def distinct_hm_insert fun_eq_iff distinct_removeAll split: option.splits)

lemma p_del_ok:
  assumes "p_ok p" and "q = p\<lparr>writeset := hm_remove k (writeset p), deleteset := hs_insert k (deleteset p)\<rparr>"
  shows "p_ok q" "p_overlay q = (p_overlay p)(k \<mapsto> None)"
  using assms by (auto simp: p_ok_def p_overlay_def distinct_hm_remove image_fst_hm_remove fun_eq_iff split: option.splits)

lemma check_still_running_Ok [simp]: "check_still_running tx = Ok u \<longleftrightarrow> t_state tx = Running"
  by (cases "t_state tx") (simp_all add: check_still_running_def)

lemma check_still_running_not_Panic [simp]: "check_still_running tx \<noteq> Panic"
  by (cases "t_state tx") (simp_all add: check_still_running_def)

lemma resolved_Ok:
  "try_ok (check_still_running tx) (\<lambda>_. resolve_full_record_key oracle ks key) = Ok frk \<longleftrightarrow>
     t_state tx = Running \<and> oracle ks key = Some (frk_range_id frk) \<and> frk_key frk = key"
  by (cases frk) (auto simp: resolve_full_record_key_def split: option.splits)

lemma record_abort_keeps:
  "record_abort answer tx = (tx', msgs, r) \<Longrightarrow>
     overlay tx' = overlay tx \<and> tx_ok tx' = tx_ok tx \<and> t_state tx' = Aborted"
  by (auto simp: record_abort_def overlay_def tx_ok_def)

lemma abort_with_keeps:
  "abort_with reason answer tx = (tx', msgs, r) \<Longrightarrow>
     overlay tx' = overlay tx \<and> tx_ok tx' = tx_ok tx \<and> t_state tx' = Aborted"
  using record_abort_keeps [of answer tx] by (auto simp: abort_with_def split: prod.splits outcome.splits)

lemma distinct_fold_hs_insert: "distinct xs \<Longrightarrow> distinct (fold hs_insert ys xs)"
  by (induction ys arbitrary: xs) auto

lemma extend_dependencies_keeps [simp]:
  "overlay (extend_dependencies ds tx) = overlay tx" "tx_ok tx \<Longrightarrow> tx_ok (extend_dependencies ds tx)"
  "t_state (extend_dependencies ds tx) = t_state tx"
  by (auto simp: extend_dependencies_def overlay_def tx_ok_def distinct_fold_hs_insert)

lemma set_participant_range_state [simp]:
  "t_state (set_participant_range r p tx) = t_state tx" "t_dependencies (set_participant_range r p tx) = t_dependencies tx"
  by (simp_all add: set_participant_range_def)

lemma tx_get_answered_keeps:
  assumes "tx_get_answered r key res abort_answer tx = (tx', msgs, v)" and "tx_ok tx"
  shows "tx_ok tx' \<and> overlay tx' = overlay tx \<and> t_state tx' \<in> {t_state tx, Aborted}"
proof -
  obtain tx1 p where 1: "get_participant_range r (extend_dependencies (cgr_dependencies res) tx) = (tx1, p)"
    by force
  from get_participant_rangeE [OF this] assms(2)
  have tx1: "tx_ok tx1" "p_ok p" "overlay tx1 = overlay tx" "p_overlay p = (\<lambda>k. overlay tx (r, k))"
    "t_state tx1 = t_state tx" by auto
  define p' where "p' = (if cgr_leader_sequence_number res \<noteq> INVALID_LEADER_SEQUENCE_NUMBER \<and>
      range_leader p = UNSET_LEADER_SEQUENCE_NUMBER
    then p\<lparr>range_leader := cgr_leader_sequence_number res\<rparr> else p)"
  have p': "p_ok p'" "p_overlay p' = (\<lambda>k. overlay tx (r, k))" using tx1 by (simp_all add: p'_def)
  show ?thesis
  proof (cases "cgr_leader_sequence_number res = range_leader p'")
    case False
    then have "abort_with RangeLeadershipChanged abort_answer (set_participant_range r p' tx1) = (tx', msgs, v)"
      using assms(1) by (simp add: tx_get_answered_def 1 p'_def Let_def split: if_splits)
    from abort_with_keeps [OF this] tx1 p' show ?thesis by (auto simp: fun_eq_iff)
  next
    case True
    then have "tx' = set_participant_range r (p'\<lparr>readset := insert key (readset p')\<rparr>) (set_participant_range r p' tx1)"
      using assms(1) by (simp add: tx_get_answered_def 1 p'_def Let_def split: if_splits)
    with tx1 p' show ?thesis by (auto simp: fun_eq_iff)
  qed
qed

lemma tx_get_keeps:
  assumes "tx_ok tx"
  shows "tx_ok (fst (tx_get oracle answer abort_answer ks key tx)) \<and>
    overlay (fst (tx_get oracle answer abort_answer ks key tx)) = overlay tx \<and>
    t_state (fst (tx_get oracle answer abort_answer ks key tx)) \<in> {t_state tx, Aborted}"
proof (cases "try_ok (check_still_running tx) (\<lambda>_. resolve_full_record_key oracle ks key)")
  case (Ok frk)
  obtain tx1 p where 1: "get_participant_range (frk_range_id frk) tx = (tx1, p)" by force
  from get_participant_rangeE [OF this assms] have tx1: "tx_ok tx1" "overlay tx1 = overlay tx" "t_state tx1 = t_state tx"
    by auto
  note answered = tx_get_answered_keeps [OF _ tx1(1), of "frk_range_id frk" key]
  show ?thesis
    using tx1 answered
    by (simp add: tx_get_def Ok 1 Let_def split: option.splits outcome.splits prod.splits)
qed (use assms in \<open>auto simp: tx_get_def\<close>)

lemma tx_put_keeps:
  assumes "tx_ok tx" and "t_state tx = Running"
  shows "tx_ok (fst (tx_put oracle ks key val tx)) \<and> t_state (fst (tx_put oracle ks key val tx)) = Running \<and>
    overlay (fst (tx_put oracle ks key val tx)) = spec_call oracle ks (Call_Put key val) (overlay tx)"
proof (cases "try_ok (check_still_running tx) (\<lambda>_. resolve_full_record_key oracle ks key)")
  case (Ok frk)
  then have r: "oracle ks key = Some (frk_range_id frk)" by (simp only: resolved_Ok)
  obtain tx1 p where 1: "get_participant_range (frk_range_id frk) tx = (tx1, p)" by force
  from get_participant_rangeE [OF this assms(1)]
  have tx1: "tx_ok tx1" "p_ok p" "overlay tx1 = overlay tx" "p_overlay p = (\<lambda>k. overlay tx (frk_range_id frk, k))"
    "t_state tx1 = Running" using assms(2) by auto
  from p_put_ok [OF tx1(2) refl, of key val] tx1 show ?thesis
    by (simp add: tx_put_def Ok 1 r Let_def fun_eq_iff)
qed (use assms in \<open>auto simp: tx_put_def resolve_full_record_key_def check_still_running_def split: option.splits\<close>)

lemma tx_del_keeps:
  assumes "tx_ok tx" and "t_state tx = Running"
  shows "tx_ok (fst (tx_del oracle ks key tx)) \<and> t_state (fst (tx_del oracle ks key tx)) = Running \<and>
    overlay (fst (tx_del oracle ks key tx)) = spec_call oracle ks (Call_Del key) (overlay tx)"
proof (cases "try_ok (check_still_running tx) (\<lambda>_. resolve_full_record_key oracle ks key)")
  case (Ok frk)
  then have r: "oracle ks key = Some (frk_range_id frk)" by (simp only: resolved_Ok)
  obtain tx1 p where 1: "get_participant_range (frk_range_id frk) tx = (tx1, p)" by force
  from get_participant_rangeE [OF this assms(1)]
  have tx1: "tx_ok tx1" "p_ok p" "overlay tx1 = overlay tx" "p_overlay p = (\<lambda>k. overlay tx (frk_range_id frk, k))"
    "t_state tx1 = Running" using assms(2) by auto
  from p_del_ok [OF tx1(2) refl, of key] tx1 show ?thesis
    by (simp add: tx_del_def Ok 1 r Let_def fun_eq_iff)
qed (use assms in \<open>auto simp: tx_del_def resolve_full_record_key_def check_still_running_def split: option.splits\<close>)

lemma not_running_unchanged:
  assumes "t_state tx \<noteq> Running"
  shows "run_call oracle ks c tx = tx"
  using assms by (cases c; cases "t_state tx")
    (simp_all add: tx_get_def tx_put_def tx_del_def check_still_running_def)

lemma not_running_stays: "t_state tx \<noteq> Running \<Longrightarrow> fold (run_call oracle ks) calls tx = tx"
  by (induction calls arbitrary: tx) (auto simp: not_running_unchanged)

lemma run_call_refines:
  assumes "tx_ok tx" and "t_state tx = Running"
  shows "tx_ok (run_call oracle ks c tx) \<and> overlay (run_call oracle ks c tx) = spec_call oracle ks c (overlay tx)"
  using assms tx_put_keeps tx_del_keeps tx_get_keeps by (cases c) auto

lemma run_calls_refine:
  assumes "tx_ok tx" and "t_state (fold (run_call oracle ks) calls tx) = Running"
  shows "tx_ok (fold (run_call oracle ks) calls tx) \<and>
    overlay (fold (run_call oracle ks) calls tx) = fold (spec_call oracle ks) calls (overlay tx)"
  using assms
proof (induction calls arbitrary: tx)
  case (Cons c calls)
  have "t_state tx = Running"
    using Cons.prems(2) not_running_stays by metis
  with run_call_refines [OF Cons.prems(1) this] Cons show ?case by simp
qed simp

lemma tx_get_reads_overlay:
  assumes "tx_ok tx" and "t_state tx = Running" and "oracle ks k = Some r" and "overlay tx (r, k) = Some v"
  shows "tx_get oracle answer abort_answer ks k tx = (tx, [], Ok v)"
proof -
  obtain p where p: "hm_get (t_participants tx) r = Some p" "p_overlay p k = Some v"
    using assms(4) by (auto simp: overlay_def split: option.splits)
  then show ?thesis
    using assms(2,3)
    by (auto simp: tx_get_def check_still_running_def resolve_full_record_key_def
        get_participant_range_def p_overlay_def split: option.splits if_splits)
qed

lemma prepare_requests_overlay:
  assumes "tx_ok tx" and "Prepare_Range r reads writes deletes load' clients' \<in> set (prepare_requests load clients tx)"
  shows "((k, v) \<in> set writes \<longleftrightarrow> overlay tx (r, k) = Some (Some v)) \<and>
    (k \<in> set deletes \<longleftrightarrow> overlay tx (r, k) = Some None)"
proof -
  obtain p where p: "(r, p) \<in> set (t_participants tx)" "writes = writeset p" "deletes = deleteset p"
    using assms(2) by (auto simp: prepare_requests_def)
  then have r: "hm_get (t_participants tx) r = Some p" using assms(1) by (simp add: tx_ok_def)
  then have ok: "p_ok p" using assms(1) unfolding tx_ok_def by blast
  then have "(k, v) \<in> set writes \<longleftrightarrow> hm_get (writeset p) k = Some v"
    using p by (simp add: p_ok_def)
  moreover have "k \<in> set deletes \<longrightarrow> hm_get (writeset p) k = None"
    using ok p by (auto simp: p_ok_def map_of_eq_None_iff)
  ultimately show ?thesis using r p by (auto simp: overlay_def p_overlay_def split: option.splits if_splits)
qed

lemma prepare_requests_complete:
  assumes "overlay tx (r, k) = Some v"
  shows "\<exists>reads writes deletes. Prepare_Range r reads writes deletes load clients \<in> set (prepare_requests load clients tx)"
  using assms by (force simp: overlay_def prepare_requests_def split: option.splits dest: map_of_SomeD)

definition wit_info :: transaction_info where
  "wit_info = \<lparr>ti_id = 9, started = 0, overall_timeout = 10\<rparr>"

definition wit_keyspace :: keyspace where
  "wit_keyspace = \<lparr>namespace = ''n'', ks_name = ''k''\<rparr>"

text \<open>
  C9: A transaction's buffer implements a map of pending changes. After any sequence of reads,
  puts and deletes that leaves it running, a later read of a changed key returns the last value
  put or nothing after a delete, without asking the range. The prepare requests carry exactly the
  changes of the map, each to the range of its key.
\<close>

theorem transaction_buffer_refines:
  assumes "tx = fold (run_call oracle ks) calls (transaction_new info strategy ks)" and "t_state tx = Running"
  defines "w \<equiv> fold (spec_call oracle ks) calls Map.empty"
  shows "(\<forall>r k v. oracle ks k = Some r \<longrightarrow> w (r, k) = Some v \<longrightarrow>
      tx_get oracle answer abort_answer ks k tx = (tx, [], Ok v)) \<and>
    (\<forall>r reads writes deletes. Prepare_Range r reads writes deletes load clients \<in> set (prepare_requests load clients tx) \<longrightarrow>
      (\<forall>k v. ((k, v) \<in> set writes \<longleftrightarrow> w (r, k) = Some (Some v)) \<and>
             (k \<in> set deletes \<longleftrightarrow> w (r, k) = Some None))) \<and>
    (\<forall>r k. w (r, k) \<noteq> None \<longrightarrow> (\<exists>reads writes deletes.
      Prepare_Range r reads writes deletes load clients \<in> set (prepare_requests load clients tx)))"
proof -
  have new: "tx_ok (transaction_new info strategy ks)" "overlay (transaction_new info strategy ks) = Map.empty"
    by (auto simp: transaction_new_def tx_ok_def overlay_def)
  from run_calls_refine [OF new(1)] assms have ok: "tx_ok tx" and w: "overlay tx = w" by (auto simp: new(2))
  show ?thesis
    unfolding w [symmetric]
    by (intro conjI allI impI)
      (use tx_get_reads_overlay [OF ok assms(2)] prepare_requests_overlay [OF ok] prepare_requests_complete
       in \<open>force+\<close>)
qed

theorem transaction_buffer_refines_witness:
  "tx_get (\<lambda>ks k. Some wit_range) Panic Panic wit_keyspace [1]
     (fst (tx_del (\<lambda>ks k. Some wit_range) wit_keyspace [1] (transaction_new wit_info Traditional wit_keyspace))) =
   (fst (tx_del (\<lambda>ks k. Some wit_range) wit_keyspace [1] (transaction_new wit_info Traditional wit_keyspace)), [], Ok None)"
proof -
  let ?o = "\<lambda>(ks :: keyspace) (k :: bytes). Some wit_range"
  let ?tx = "fst (tx_del ?o wit_keyspace [1] (transaction_new wit_info Traditional wit_keyspace))"
  have "t_state ?tx = Running"
    by (simp add: tx_del_def check_still_running_def resolve_full_record_key_def transaction_new_def
        get_participant_range_def set_participant_range_def)
  with transaction_buffer_refines [of ?tx ?o wit_keyspace "[Call_Del [1]]" wit_info Traditional Panic Panic]
  show ?thesis by simp
qed

section \<open>Two-phase commit\<close>

fun is_commit_message :: "tx_message \<Rightarrow> bool" where
  "is_commit_message (Commit_Range r e) = True"
| "is_commit_message (Store_Commit e) = True"
| "is_commit_message (Resolver_Commit ds ps) = True"
| "is_commit_message (Resolver_Register ts) = True"
| "is_commit_message _ = False"

fun is_abort_message :: "tx_message \<Rightarrow> bool" where
  "is_abort_message (Abort_Range r) = True"
| "is_abort_message Store_Abort = True"
| "is_abort_message _ = False"

lemma commit_not_abort: "is_commit_message m \<Longrightarrow> \<not> is_abort_message m"
  by (cases m) auto

lemma set_fold_hs_insert [simp]: "set (fold hs_insert ys xs) = set xs \<union> set ys"
  by (induction ys arbitrary: xs) auto

lemma collect_prepares_Ok:
  assumes "collect_prepares answers abort_answer early tx = (tx', msgs, Ok e)"
  shows "msgs = [] \<and> (\<forall>a \<in> set answers. \<exists>res. snd a = Ok res) \<and>
    tx' = tx\<lparr>t_dependencies := t_dependencies tx'\<rparr> \<and>
    set (t_dependencies tx) \<subseteq> set (t_dependencies tx') \<and>
    (\<forall>r res. (r, Ok res) \<in> set answers \<longrightarrow> set (po_dependencies res) \<subseteq> set (t_dependencies tx'))"
  using assms
proof (induction answers abort_answer early tx rule: collect_prepares.induct)
  case (4 r res answers abort_answer early tx)
  then show ?case by (auto simp: extend_dependencies_def)
qed (auto simp: abort_with_def split: prod.splits outcome.splits)

lemma abort_with_messages:
  assumes "abort_with reason answer tx = (tx', msgs, r)"
  shows "(\<forall>m \<in> set msgs. is_abort_message m) \<and> r \<noteq> Ok x"
  using assms by (auto simp: abort_with_def record_abort_def split: prod.splits outcome.splits)

lemma collect_prepares_fails:
  assumes "collect_prepares answers abort_answer early tx = (tx', msgs, r)" and "\<forall>e. r \<noteq> Ok e"
  shows "\<forall>m \<in> set msgs. is_abort_message m"
  using assms
proof (induction answers abort_answer early tx rule: collect_prepares.induct)
  case (2 r answers abort_answer early tx)
  then show ?case using abort_with_messages by fastforce
qed auto

text \<open>How a commit can go: refused, failed in the first phase, or prepared everywhere.\<close>

lemma tx_commit_cases:
  assumes "tx_commit load clients answers abort_answer answer resolver_answer tx = (tx', msgs, r)"
  obtains (refused) e where "t_state tx \<noteq> Running" "tx' = tx" "msgs = []" "r = Err e"
  | (unprepared) aborts where "msgs = prepare_requests load clients tx @ aborts"
      "\<forall>m \<in> set aborts. is_abort_message m" "r \<noteq> Ok ()"
  | (prepared) ds decision early where "\<forall>a \<in> set answers. \<exists>res. snd a = Ok res"
      "set (t_dependencies tx) \<subseteq> set ds"
      "\<forall>r res. (r, Ok res) \<in> set answers \<longrightarrow> set (po_dependencies res) \<subseteq> set ds"
      "msgs = prepare_requests load clients tx @ decision"
      "(if t_commit_strategy tx = Traditional
        then commit_traditional answer (tx\<lparr>t_state := Preparing, t_dependencies := ds\<rparr>)
        else commit_pipelined early answer resolver_answer (tx\<lparr>t_state := Preparing, t_dependencies := ds\<rparr>)) =
       (tx', decision, r)"
proof (cases "check_still_running tx")
  case (Ok u)
  have req: "prepare_requests load clients (tx\<lparr>t_state := Preparing\<rparr>) = prepare_requests load clients tx"
    by (simp add: prepare_requests_def)
  obtain tx1 m c where c: "collect_prepares answers abort_answer False (tx\<lparr>t_state := Preparing\<rparr>) = (tx1, m, c)"
    by (rule prod_cases3)
  show ?thesis
  proof (cases c)
    case (Ok early)
    note p = collect_prepares_Ok [OF c [unfolded Ok]]
    then obtain ds where tx1: "tx1 = tx\<lparr>t_state := Preparing, t_dependencies := ds\<rparr>" by metis
    have "\<exists>decision. msgs = prepare_requests load clients tx @ decision \<and>
      (if t_commit_strategy tx = Traditional then commit_traditional answer tx1
       else commit_pipelined early answer resolver_answer tx1) = (tx', decision, r)"
      using assms Ok \<open>check_still_running tx = _\<close> c p
      by (cases "t_commit_strategy tx") (auto simp: tx_commit_def req tx1 Let_def split: prod.splits)
    with p show ?thesis by (elim exE conjE) (rule prepared, auto simp: tx1)
  next
    case (Err e)
    with assms \<open>check_still_running tx = _\<close> c collect_prepares_fails [OF c] show ?thesis
      by (intro unprepared [of m]) (auto simp: tx_commit_def req Let_def)
  next
    case Panic
    with assms \<open>check_still_running tx = _\<close> c collect_prepares_fails [OF c] show ?thesis
      by (intro unprepared [of m]) (auto simp: tx_commit_def req Let_def)
  qed
next
  case (Err e)
  with assms have "t_state tx \<noteq> Running" by (cases "t_state tx") (auto simp: check_still_running_def)
  with Err assms show ?thesis by (intro refused [of e]) (auto simp: tx_commit_def)
qed simp

text \<open>
  The answer of the store with which the ranges are told to commit: under \<open>Traditional\<close> that the
  transaction is committed, otherwise any answer at all, since the code does not look at it.
\<close>

definition store_accepts :: "commit_strategy \<Rightarrow> store_answer \<Rightarrow> bool" where
  "store_accepts strategy answer \<longleftrightarrow>
     (if strategy = Traditional then answer = Ok (TransactionIsCommitted 0) else (\<exists>res. answer = Ok res))"

text \<open>What the second phase sends and returns.\<close>

definition decision_ok ::
    "commit_strategy \<Rightarrow> store_answer \<Rightarrow> transaction \<Rightarrow> tx_message list \<Rightarrow> (transaction_error, unit) outcome \<Rightarrow> bool" where
  "decision_ok strategy answer tx decision r \<longleftrightarrow>
     (\<forall>m \<in> set decision. is_commit_message m) \<and>
     (\<forall>i < length decision. \<forall>rid e. decision ! i = Commit_Range rid e \<longrightarrow>
        0 < i \<and> decision ! 0 = Store_Commit 0 \<and> store_accepts strategy answer) \<and>
     (\<forall>ds ps. Resolver_Commit ds ps \<in> set decision \<longrightarrow>
        strategy \<noteq> Traditional \<and> ds = t_dependencies tx \<and> ds \<noteq> [] \<and> decision = [Resolver_Commit ds ps]) \<and>
     (r = Ok () \<longrightarrow> (\<forall>rid p. (rid, p) \<in> set (t_participants tx) \<longrightarrow> writeset p \<noteq> [] \<longrightarrow>
        Commit_Range rid 0 \<in> set decision \<or>
        (\<exists>ps. Resolver_Commit (t_dependencies tx) ps \<in> set decision \<and>
          \<lparr>participant_range = rid, pri_has_writes = True\<rparr> \<in> set ps)))"

lemma commit_notifications_members:
  "m \<in> set (commit_notifications e tx) \<Longrightarrow> is_commit_message m"
  "(rid, p) \<in> set (t_participants tx) \<Longrightarrow> writeset p \<noteq> [] \<Longrightarrow> Commit_Range rid e \<in> set (commit_notifications e tx)"
  by (force simp: commit_notifications_def)+

lemma commit_traditional_ok:
  assumes "commit_traditional answer tx = (tx', decision, r)"
  shows "decision_ok Traditional answer tx decision r"
  using assms commit_notifications_members
  by (auto simp: commit_traditional_def decision_ok_def store_accepts_def nth_Cons' commit_notifications_def split: outcome.splits op_result.splits if_splits)

lemma participants_info_members:
  "(rid, p) \<in> set (t_participants tx) \<Longrightarrow> writeset p \<noteq> [] \<Longrightarrow>
     \<lparr>participant_range = rid, pri_has_writes = True\<rparr> \<in> set (participants_info tx)"
  by (force simp: participants_info_def)

lemma commit_pipelined_ok:
  assumes "commit_pipelined early answer resolver_answer tx = (tx', decision, r)" and "strategy \<noteq> Traditional"
  shows "decision_ok strategy answer tx decision r"
proof (cases "t_dependencies tx = []")
  case True
  with assms commit_notifications_members show ?thesis
    by (auto simp: commit_pipelined_def decision_ok_def store_accepts_def nth_Cons' commit_notifications_def
        split: outcome.splits if_splits)
next
  case False
  with assms participants_info_members show ?thesis
    by (auto simp: commit_pipelined_def decision_ok_def nth_Cons')
qed

lemma prepare_requests_messages:
  "m \<in> set (prepare_requests load clients tx) \<Longrightarrow> \<not> is_commit_message m \<and> \<not> is_abort_message m"
  by (auto simp: prepare_requests_def)

lemma decision_after_store:
  assumes d: "decision_ok strategy answer tx decision r" and reqs: "\<And>m. m \<in> set reqs \<Longrightarrow> \<not> is_commit_message m"
    and i: "i < length (reqs @ decision)" "(reqs @ decision) ! i = Commit_Range rid e"
  shows "(\<exists>j < i. (reqs @ decision) ! j = Store_Commit 0) \<and> store_accepts strategy answer"
proof -
  have n: "\<not> i < length reqs"
    using i(2) reqs nth_mem by (fastforce simp: nth_append)
  then have "decision ! (i - length reqs) = Commit_Range rid e" "i - length reqs < length decision"
    using i by (simp_all add: nth_append)
  with d have "0 < i - length reqs \<and> decision ! 0 = Store_Commit 0 \<and> store_accepts strategy answer"
    unfolding decision_ok_def by blast
  then show ?thesis by (intro conjI exI [of _ "length reqs"]) (auto simp: nth_append)
qed

lemma pipelined_ignores_answer:
  assumes "t_commit_strategy tx \<noteq> Traditional"
  shows "tx_commit load clients answers aa (Ok a) ra tx = tx_commit load clients answers aa (Ok b) ra tx"
proof -
  have p: "commit_pipelined early (Ok a) ra tx = commit_pipelined early (Ok b) ra tx" for early tx
    by (simp add: commit_pipelined_def)
  have k: "collect_prepares answers aa early tx' = (tx1, m, r) \<Longrightarrow> t_commit_strategy tx1 = t_commit_strategy tx'"
    for early tx' tx1 m r
    by (induction answers aa early tx' rule: collect_prepares.induct)
      (auto simp: abort_with_def record_abort_def extend_dependencies_def split: outcome.splits op_result.splits)
  obtain tx1 m r where c: "collect_prepares answers aa False (tx\<lparr>t_state := Preparing\<rparr>) = (tx1, m, r)"
    by (rule prod_cases3)
  with k [OF c] assms show ?thesis
    by (cases "t_commit_strategy tx"; cases "t_state tx"; cases r)
      (simp_all add: tx_commit_def check_still_running_def Let_def p)
qed

text \<open>
  C5: Commit is a two-phase commit. A message of the second phase is sent only if every
  participant range has answered its prepare request with success, and then nothing is aborted. A
  range is told to commit only after the transaction state store has been asked to commit and has
  answered; under the strategy \<open>Traditional\<close> only if it answered that the transaction is committed at
  epoch 0. The other strategies do not look at the answer: they go on in the same way when the store
  answers that the transaction is aborted. The resolver is given the decision only under those
  strategies, only for a transaction with dependencies, and then no range and not the store is told
  to commit. If commit returns success, every range with puts has been told to commit, or the
  resolver has been given the range together with every dependency that the ranges reported.
\<close>

theorem commit_is_two_phase:
  assumes "tx_commit load clients answers abort_answer answer resolver_answer tx = (tx', msgs, r)"
    and "fst ` set answers = fst ` set (t_participants tx)"
  shows "((\<exists>m \<in> set msgs. is_commit_message m) \<longrightarrow>
      (\<forall>rid \<in> fst ` set (t_participants tx). \<exists>res. (rid, Ok res) \<in> set answers) \<and>
      (\<forall>m \<in> set msgs. \<not> is_abort_message m)) \<and>
    (\<forall>i < length msgs. \<forall>rid e. msgs ! i = Commit_Range rid e \<longrightarrow>
      (\<exists>j < i. msgs ! j = Store_Commit 0) \<and>
      (if t_commit_strategy tx = Traditional then answer = Ok (TransactionIsCommitted 0) else (\<exists>res. answer = Ok res))) \<and>
    (t_commit_strategy tx \<noteq> Traditional \<and> answer = Ok TransactionIsAborted \<longrightarrow>
      tx_commit load clients answers abort_answer (Ok (TransactionIsCommitted 0)) resolver_answer tx = (tx', msgs, r)) \<and>
    (\<forall>ds ps. Resolver_Commit ds ps \<in> set msgs \<longrightarrow> t_commit_strategy tx \<noteq> Traditional \<and> ds \<noteq> [] \<and>
      (\<forall>m \<in> set msgs. is_commit_message m \<longrightarrow> m = Resolver_Commit ds ps)) \<and>
    (r = Ok () \<longrightarrow> (\<forall>rid p. (rid, p) \<in> set (t_participants tx) \<longrightarrow> writeset p \<noteq> [] \<longrightarrow>
      Commit_Range rid 0 \<in> set msgs \<or>
      (\<exists>ds ps. Resolver_Commit ds ps \<in> set msgs \<and> \<lparr>participant_range = rid, pri_has_writes = True\<rparr> \<in> set ps \<and>
        (\<forall>rid' res. (rid', Ok res) \<in> set answers \<longrightarrow> set (po_dependencies res) \<subseteq> set ds))))"
proof -
  have same: "tx_commit load clients answers abort_answer (Ok (TransactionIsCommitted 0)) resolver_answer tx = (tx', msgs, r)"
    if "t_commit_strategy tx \<noteq> Traditional \<and> answer = Ok TransactionIsAborted"
    using assms(1) that pipelined_ignores_answer [of tx load clients answers abort_answer TransactionIsAborted resolver_answer]
    by metis
  from assms(1) show ?thesis
  proof (cases rule: tx_commit_cases)
    case (refused e)
    with same show ?thesis by simp
  next
    case (unprepared aborts)
    have "\<not> is_commit_message m" if "m \<in> set msgs" for m
      using that unprepared(1,2) prepare_requests_messages commit_not_abort by auto
    then have "\<not> (\<exists>m \<in> set msgs. is_commit_message m)" "\<forall>i < length msgs. \<forall>rid e. msgs ! i \<noteq> Commit_Range rid e"
      "\<forall>ds ps. Resolver_Commit ds ps \<notin> set msgs"
      using nth_mem by (blast, metis is_commit_message.simps(1) nth_mem, metis is_commit_message.simps(3))
    with unprepared(3) same show ?thesis by blast
  next
    case (prepared ds decision early)
    let ?tx = "tx\<lparr>t_state := Preparing, t_dependencies := ds\<rparr>"
    have d: "decision_ok (t_commit_strategy tx) answer ?tx decision r"
      using prepared(5) commit_traditional_ok commit_pipelined_ok by (metis (full_types))
    then have dm: "\<forall>m \<in> set decision. is_commit_message m" unfolding decision_ok_def by blast
    have "\<forall>rid \<in> fst ` set (t_participants tx). \<exists>res. (rid, Ok res) \<in> set answers"
      unfolding assms(2) [symmetric] using prepared(1) by force
    moreover have "\<not> is_abort_message m" if "m \<in> set msgs" for m
      using that dm prepare_requests_messages commit_not_abort unfolding prepared(4) by auto
    moreover have "(\<exists>j < i. msgs ! j = Store_Commit 0) \<and>
        (if t_commit_strategy tx = Traditional then answer = Ok (TransactionIsCommitted 0) else (\<exists>res. answer = Ok res))"
      if "i < length msgs" and "msgs ! i = Commit_Range rid e" for i rid e
      using that decision_after_store [OF d, of "prepare_requests load clients tx"] prepare_requests_messages
      unfolding prepared(4) store_accepts_def by blast
    moreover have "t_commit_strategy tx \<noteq> Traditional \<and> ds' \<noteq> [] \<and>
        (\<forall>m \<in> set msgs. is_commit_message m \<longrightarrow> m = Resolver_Commit ds' ps)" if "Resolver_Commit ds' ps \<in> set msgs" for ds' ps
    proof -
      have "Resolver_Commit ds' ps \<in> set decision"
        using that prepare_requests_messages unfolding prepared(4) by fastforce
      with d have "t_commit_strategy tx \<noteq> Traditional" "ds' \<noteq> []" "decision = [Resolver_Commit ds' ps]"
        unfolding decision_ok_def by blast+
      with prepare_requests_messages show ?thesis unfolding prepared(4) by auto
    qed
    moreover have "Commit_Range rid 0 \<in> set msgs \<or>
        (\<exists>ds ps. Resolver_Commit ds ps \<in> set msgs \<and> \<lparr>participant_range = rid, pri_has_writes = True\<rparr> \<in> set ps \<and>
          (\<forall>rid' res. (rid', Ok res) \<in> set answers \<longrightarrow> set (po_dependencies res) \<subseteq> set ds))"
      if "r = Ok ()" "(rid, p) \<in> set (t_participants tx)" "writeset p \<noteq> []" for rid p
    proof -
      from d that have "Commit_Range rid 0 \<in> set decision \<or>
          (\<exists>ps. Resolver_Commit ds ps \<in> set decision \<and> \<lparr>participant_range = rid, pri_has_writes = True\<rparr> \<in> set ps)"
        by (auto simp: decision_ok_def)
      with prepared(3) show ?thesis unfolding prepared(4) by auto
    qed
    ultimately show ?thesis using same by blast
  qed
qed

definition wit_writer :: transaction where
  "wit_writer = (transaction_new wit_info Traditional wit_keyspace)\<lparr>
     t_participants := [(wit_range, empty_participant\<lparr>writeset := [([1], [2])]\<rparr>)]\<rparr>"

definition wit_prepared :: prepare_ok where
  "wit_prepared = \<lparr>po_highest_known_epoch = 0, po_epoch_lease = (0, 9), po_dependencies = [],
     po_released_lock_early = False\<rparr>"

theorem commit_is_two_phase_witness:
  "(\<exists>tx' msgs. tx_commit (Fin 0) 0 [(wit_range, Ok wit_prepared)] Panic (Ok (TransactionIsCommitted 0)) Panic wit_writer =
     (tx', msgs, Ok ()) \<and> Commit_Range wit_range 0 \<in> set msgs)"
proof -
  obtain tx' msgs where c: "tx_commit (Fin 0) 0 [(wit_range, Ok wit_prepared)] Panic
      (Ok (TransactionIsCommitted 0)) Panic wit_writer = (tx', msgs, Ok ())"
    and m: "\<forall>ds ps. Resolver_Commit ds ps \<notin> set msgs"
    by (auto simp: tx_commit_def wit_writer_def transaction_new_def check_still_running_def Let_def
        commit_traditional_def extend_dependencies_def wit_prepared_def commit_notifications_def
        prepare_requests_def empty_participant_def)
  have "fst ` set [(wit_range, Ok wit_prepared :: (error, prepare_ok) outcome)] = fst ` set (t_participants wit_writer)"
    by (simp add: wit_writer_def)
  from commit_is_two_phase [OF c this] m
  have "Commit_Range wit_range 0 \<in> set msgs" by (auto simp: wit_writer_def)
  with c show ?thesis by blast
qed

end
