(* ===== verification/Range_Client.thy ===== *)
theory Range_Client
  imports Range_Server Transaction
begin

text \<open>
  \<open>rangeclient/src/client.rs\<close>: the client of one range server. A call builds a request, sends it over
  the network and reads the response. The network (\<open>common/src/network/fast_network.rs\<close>) is a
  function \<open>send\<close> on a state, with \<open>None\<close> for an error or a missing response, which the client unwraps;
  the fresh request identifier is an argument.
\<close>

section \<open>State\<close>

datatype client_state = Client_NotStarted | Client_Started "(uuid, nat) hmap" | Client_Stopped

record range_client =
  rc_host_info :: host_info
  rc_state :: client_state

definition client_new :: "host_info \<Rightarrow> range_client" where
  "client_new h = \<lparr>rc_host_info = h, rc_state = Client_NotStarted\<rparr>"

definition client_start :: "range_client \<Rightarrow> range_client" where
  "client_start rc =
     (case rc_state rc of
        Client_Started _ \<Rightarrow> rc
      | Client_Stopped \<Rightarrow> rc
      | Client_NotStarted \<Rightarrow> rc\<lparr>rc_state := Client_Started []\<rparr>)"

definition client_is_stopped :: "range_client \<Rightarrow> bool" where
  "client_is_stopped rc =
     (case rc_state rc of Client_Stopped \<Rightarrow> True | Client_NotStarted \<Rightarrow> False | Client_Started _ \<Rightarrow> False)"

section \<open>Calls\<close>

type_synonym ('b, 'n) network = "'b \<Rightarrow> 'n \<Rightarrow> 'n \<times> 'b option"

definition create_msg_envelope :: "'b flatbuf \<Rightarrow> message_type \<Rightarrow> 'b \<Rightarrow> 'b" where
  "create_msg_envelope fb msg_type bytes = fb_finish fb (RequestEnvelope (Envelope msg_type (Some bytes)))"

text \<open>
  Reading a response: everything unreadable is unwrapped, a response of another type is an error.
\<close>

definition read_response ::
    "'b flatbuf \<Rightarrow> message_type \<Rightarrow> ('b \<Rightarrow> 'r option) \<Rightarrow> ('r \<Rightarrow> (error, 'a) outcome) \<Rightarrow> 'b option \<Rightarrow> (error, 'a) outcome" where
  "read_response fb t read result response =
     (case response of
        None \<Rightarrow> Panic
      | Some msg \<Rightarrow>
          (case root_response_envelope fb msg of
             None \<Rightarrow> Panic
           | Some (Envelope t' payload) \<Rightarrow>
               if t' = t then
                 (case payload of
                    None \<Rightarrow> Panic
                  | Some b \<Rightarrow> (case read b of None \<Rightarrow> Panic | Some rsp \<Rightarrow> result rsp))
               else Err InvalidRequestFormat))"

definition dependency_list :: "(128 word \<Rightarrow> uuid) \<Rightarrow> uuidu128 list option \<Rightarrow> uuid list" where
  "dependency_list from_le ds = (case ds of Some ds \<Rightarrow> map (deserialize_uuid from_le) ds | None \<Rightarrow> [])"

definition client_get ::
    "'b flatbuf \<Rightarrow> (uuid \<Rightarrow> 128 word) \<Rightarrow> (128 word \<Rightarrow> uuid) \<Rightarrow> ('b, 'n) network \<Rightarrow> uuid \<Rightarrow> transaction_info \<Rightarrow>
     full_range_id \<Rightarrow> bytes list \<Rightarrow> 'n \<Rightarrow> 'n \<times> (error, client_get_result) outcome" where
  "client_get fb to_le from_le send req_id tx i keys net =
     (let request = \<lparr>greq_request_id = Some (serialize_uuid to_le req_id),
            greq_transaction_id = Some (serialize_uuid to_le (ti_id tx)),
            greq_transaction_info = Some (of_nat (overall_timeout tx div 1000)),
            greq_range_id = Some (serialize_range_id to_le i), greq_keys = Some (map Some keys)\<rparr>
      in case send (create_msg_envelope fb MT_Get (fb_finish fb (GetRequest request))) net of
           (net, response) \<Rightarrow>
             (net, read_response fb MT_Get (root_get_response fb)
                (\<lambda>rsp. try_ok (from_flatbuf_status (grsp_status rsp)) (\<lambda>_.
                   Ok \<lparr>cgr_vals = map snd (case grsp_records rsp of Some rs \<Rightarrow> rs | None \<Rightarrow> []),
                       cgr_leader_sequence_number = grsp_leader_sequence_number rsp,
                       cgr_dependencies = dependency_list from_le (grsp_dependencies rsp)\<rparr>)) response))"

definition client_prepare_request ::
    "(uuid \<Rightarrow> 128 word) \<Rightarrow> uuid \<Rightarrow> uuid \<Rightarrow> full_range_id \<Rightarrow> bool \<Rightarrow> (bytes \<times> bytes) list \<Rightarrow> bytes list \<Rightarrow> f64 \<Rightarrow> u32 \<Rightarrow>
     prepare_request" where
  "client_prepare_request to_le req_id t i reads writes dels load clients =
     \<lparr>preq_request_id = Some (serialize_uuid to_le req_id), preq_transaction_id = Some (serialize_uuid to_le t),
      preq_range_id = Some (serialize_range_id to_le i), has_reads = reads,
      puts = Some (map (\<lambda>(k, v). (Some k, Some v)) writes), deletes = Some (map Some dels),
      resolver_average_load = load, num_open_clients = clients\<rparr>"

definition client_prepare_transaction ::
    "'b flatbuf \<Rightarrow> (uuid \<Rightarrow> 128 word) \<Rightarrow> (128 word \<Rightarrow> uuid) \<Rightarrow> ('b, 'n) network \<Rightarrow> uuid \<Rightarrow> transaction_info \<Rightarrow>
     full_range_id \<Rightarrow> bool \<Rightarrow> (bytes \<times> bytes) list \<Rightarrow> bytes list \<Rightarrow> f64 \<Rightarrow> u32 \<Rightarrow> 'n \<Rightarrow> 'n \<times> (error, prepare_ok) outcome" where
  "client_prepare_transaction fb to_le from_le send req_id tx i reads writes dels load clients net =
     (let request = client_prepare_request to_le req_id (ti_id tx) i reads writes dels load clients
      in case send (create_msg_envelope fb MT_Prepare (fb_finish fb (PrepareRequest request))) net of
           (net, response) \<Rightarrow>
             (net, read_response fb MT_Prepare (root_prepare_response fb)
                (\<lambda>rsp. try_ok (from_flatbuf_status (prsp_status rsp)) (\<lambda>_.
                   case prsp_epoch_lease rsp of
                     None \<Rightarrow> Panic
                   | Some lease \<Rightarrow>
                       Ok \<lparr>po_highest_known_epoch = prsp_highest_known_epoch rsp, po_epoch_lease = lease,
                           po_dependencies = dependency_list from_le (prsp_dependencies rsp),
                           po_released_lock_early = prsp_released_lock_early rsp\<rparr>)) response))"

definition client_abort_transaction ::
    "'b flatbuf \<Rightarrow> (uuid \<Rightarrow> 128 word) \<Rightarrow> ('b, 'n) network \<Rightarrow> uuid \<Rightarrow> transaction_info \<Rightarrow> full_range_id \<Rightarrow> 'n \<Rightarrow>
     'n \<times> (error, unit) outcome" where
  "client_abort_transaction fb to_le send req_id tx i net =
     (let request = \<lparr>areq_request_id = Some (serialize_uuid to_le req_id),
            areq_transaction_id = Some (serialize_uuid to_le (ti_id tx)),
            areq_range_id = Some (serialize_range_id to_le i)\<rparr>
      in case send (create_msg_envelope fb MT_Abort (fb_finish fb (AbortRequest request))) net of
           (net, response) \<Rightarrow>
             (net, read_response fb MT_Abort (root_abort_response fb)
                (\<lambda>rsp. from_flatbuf_status (arsp_status rsp)) response))"

definition client_commit_transactions ::
    "'b flatbuf \<Rightarrow> (uuid \<Rightarrow> 128 word) \<Rightarrow> ('b, 'n) network \<Rightarrow> uuid \<Rightarrow> uuid list \<Rightarrow> full_range_id \<Rightarrow> u64 \<Rightarrow> 'n \<Rightarrow>
     'n \<times> (error, unit) outcome" where
  "client_commit_transactions fb to_le send req_id transactions i epoch net =
     (let request = \<lparr>creq_request_id = Some (serialize_uuid to_le req_id),
            creq_transaction_ids = Some (map (serialize_uuid to_le) transactions),
            creq_range_id = Some (serialize_range_id to_le i), creq_epoch = epoch, vid = 0\<rparr>
      in case send (create_msg_envelope fb MT_Commit (fb_finish fb (CommitRequest request))) net of
           (net, response) \<Rightarrow>
             (net, read_response fb MT_Commit (root_commit_response fb)
                (\<lambda>rsp. from_flatbuf_status (crsp_status rsp)) response))"

text \<open>The prefetch call; without the other protocol's client it does nothing.\<close>

definition client_prefetch ::
    "(uuid \<Rightarrow> string) \<Rightarrow> (prefetch_request \<Rightarrow> 'n \<Rightarrow> 'n \<times> (string, string) outcome) option \<Rightarrow> transaction_info \<Rightarrow>
     full_range_id \<Rightarrow> bytes list \<Rightarrow> 'n \<Rightarrow> 'n \<times> (error, unit) outcome" where
  "client_prefetch show_uuid proto_client tx i keys net =
     (case proto_client of
        None \<Rightarrow> (net, Ok ())
      | Some call \<Rightarrow>
          (let range = (show_uuid (keyspace_id i), show_uuid (range_id i));
               request = \<lparr>pf_transaction_id = show_uuid (ti_id tx),
                          pf_range_key = map (\<lambda>key. \<lparr>rk_range = Some range, rk_key = key\<rparr>) keys\<rparr>
           in case call request net of
                (net, Ok _) \<Rightarrow> (net, Ok ())
              | (net, _) \<Rightarrow> (net, Err PrefetchError)))"

section \<open>Remote calls are local calls\<close>

text \<open>The operations of the server on decoded arguments.\<close>

definition local_get ::
    "('m, 's) rm_ops \<Rightarrow> time \<Rightarrow> uuid \<Rightarrow> u32 \<Rightarrow> full_range_id \<Rightarrow> bytes list \<Rightarrow> ('m, 's) server \<Rightarrow>
     ('m, 's) server \<times> (error, i64 \<times> reads \<times> uuid list) outcome" where
  "local_get ops now t timeout i keys sv =
     (case maybe_load_and_get_range ops i (maybe_start_transaction now t (Some timeout) sv) of
        (sv, Ok r) \<Rightarrow>
          (case get_transaction_info t sv of
             Ok tx \<Rightarrow> get_keys ops r tx (map Some keys) (UNSET_LEADER_SEQUENCE_NUMBER, [], []) sv
           | Err e \<Rightarrow> (sv, Err e)
           | Panic \<Rightarrow> (sv, Panic))
      | (sv, Err e) \<Rightarrow> (sv, Err e)
      | (sv, Panic) \<Rightarrow> (sv, Panic))"

definition local_call ::
    "('m, 's) rm_ops \<Rightarrow> uuid \<Rightarrow> full_range_id \<Rightarrow> (transaction_info \<Rightarrow> 'm \<Rightarrow> 's \<Rightarrow> 'm \<times> 's \<times> (error, 'a) outcome) \<Rightarrow>
     ('m, 's) server \<Rightarrow> ('m, 's) server \<times> (error, 'a) outcome" where
  "local_call ops t i call sv =
     (case maybe_load_and_get_range ops i sv of
        (sv, Ok r) \<Rightarrow>
          (case get_transaction_info t sv of
             Ok tx \<Rightarrow> call_manager r (call tx) sv
           | Err e \<Rightarrow> (sv, Err e)
           | Panic \<Rightarrow> (sv, Panic))
      | (sv, Err e) \<Rightarrow> (sv, Err e)
      | (sv, Panic) \<Rightarrow> (sv, Panic))"

definition local_commit ::
    "('m, 's) rm_ops \<Rightarrow> uuid list \<Rightarrow> full_range_id \<Rightarrow> commit_request \<Rightarrow> ('m, 's) server \<Rightarrow>
     ('m, 's) server \<times> (error, unit) outcome" where
  "local_commit ops ts i req sv =
     (case maybe_load_and_get_range ops i sv of
        (sv, Ok r) \<Rightarrow>
          (case call_manager r (rmo_commit ops ts req) sv of
             (sv, Ok _) \<Rightarrow> (remove_transactions ts sv, Ok ())
           | (sv, res) \<Rightarrow> (sv, res))
      | (sv, Err e) \<Rightarrow> (sv, Err e)
      | (sv, Panic) \<Rightarrow> (sv, Panic))"

lemma from_to_status: "from_flatbuf_status (to_flatbuf_status e) = Err (wire_view e)"
  by (cases e) auto

lemma read_sent:
  assumes "flatbuf_ok fb"
  shows "read_response fb t read result (fst (send_response fb True t b)) =
    (case read b of None \<Rightarrow> Panic | Some rsp \<Rightarrow> result rsp)"
  using assms by (simp add: read_response_def send_response_def)

lemma map_deserialize_serialize:
  "(\<And>x. from_le (to_le x) = x) \<Longrightarrow> map (deserialize_uuid from_le) (map (serialize_uuid to_le) xs) = xs"
  by (induction xs) (simp_all add: deserialize_serialize_uuid)

lemma message_sent:
  assumes "flatbuf_ok fb"
  shows "handle_message fb to_le from_le ops now alive (create_msg_envelope fb MT_Get (fb_finish fb (GetRequest a))) sv =
      server_get fb to_le from_le ops now alive a sv"
    "handle_message fb to_le from_le ops now alive (create_msg_envelope fb MT_Prepare (fb_finish fb (PrepareRequest b))) sv =
      server_prepare fb to_le from_le ops alive b sv"
    "handle_message fb to_le from_le ops now alive (create_msg_envelope fb MT_Commit (fb_finish fb (CommitRequest c))) sv =
      server_commit fb to_le from_le ops alive c sv"
    "handle_message fb to_le from_le ops now alive (create_msg_envelope fb MT_Abort (fb_finish fb (AbortRequest d))) sv =
      server_abort fb to_le from_le ops alive d sv"
  using assms by (simp_all add: handle_message_def create_msg_envelope_def with_payload_def)

text \<open>What the client makes of a result of the server.\<close>

definition client_view_get :: "(error, i64 \<times> reads \<times> uuid list) outcome \<Rightarrow> (error, client_get_result) outcome" where
  "client_view_get r =
     try_ok (map_err wire_view r) (\<lambda>(leader, reads, deps).
       Ok \<lparr>cgr_vals = map snd reads, cgr_leader_sequence_number = leader, cgr_dependencies = deps\<rparr>)"

definition client_view_prepare :: "(error, prepare_result) outcome \<Rightarrow> (error, prepare_ok) outcome" where
  "client_view_prepare r =
     try_ok (map_err wire_view r) (\<lambda>res.
       Ok \<lparr>po_highest_known_epoch = pr_highest_known_epoch res, po_epoch_lease = pr_epoch_lease res,
           po_dependencies = pr_dependencies res, po_released_lock_early = released_lock_early res\<rparr>)"

lemma range_id_sent: "(\<And>x. from_le (to_le x) = x) \<Longrightarrow> deserialize_range_id from_le (serialize_range_id to_le i) = Some i"
  by (cases i) (simp add: deserialize_range_id_def serialize_range_id_def deserialize_serialize_uuid)

lemma get_reply_read:
  assumes "flatbuf_ok fb" and le: "\<And>x. from_le (to_le x) = x"
  shows "(case get_reply to_le i r of
      Some reply \<Rightarrow> read_response fb MT_Get (root_get_response fb)
        (\<lambda>rsp. try_ok (from_flatbuf_status (grsp_status rsp)) (\<lambda>_.
           Ok \<lparr>cgr_vals = map snd (case grsp_records rsp of Some rs \<Rightarrow> rs | None \<Rightarrow> []),
               cgr_leader_sequence_number = grsp_leader_sequence_number rsp,
               cgr_dependencies = dependency_list from_le (grsp_dependencies rsp)\<rparr>))
        (fst (send_response fb True MT_Get (fb_finish fb (GetResponse reply))))
    | None \<Rightarrow> Panic) = client_view_get r"
proof -
  have "map (snd \<circ> (\<lambda>(k, v). (Some k, v))) xs = map snd xs" for xs :: reads
    by (induction xs) auto
  then show ?thesis
    using assms(1) by (cases r) (auto simp: get_reply_def read_sent client_view_get_def dependency_list_def
        from_to_status map_deserialize_serialize [where to_le = to_le and from_le = from_le, OF le, simplified])
qed

lemma prepare_reply_read:
  assumes "flatbuf_ok fb" and le: "\<And>x. from_le (to_le x) = x"
  shows "(case prepare_reply to_le i r of
      Some reply \<Rightarrow> read_response fb MT_Prepare (root_prepare_response fb)
        (\<lambda>rsp. try_ok (from_flatbuf_status (prsp_status rsp)) (\<lambda>_.
           case prsp_epoch_lease rsp of
             None \<Rightarrow> Panic
           | Some lease \<Rightarrow>
               Ok \<lparr>po_highest_known_epoch = prsp_highest_known_epoch rsp, po_epoch_lease = lease,
                   po_dependencies = dependency_list from_le (prsp_dependencies rsp),
                   po_released_lock_early = prsp_released_lock_early rsp\<rparr>))
        (fst (send_response fb True MT_Prepare (fb_finish fb (PrepareResponse reply))))
    | None \<Rightarrow> Panic) = client_view_prepare r"
  using assms(1) by (cases r) (auto simp: prepare_reply_def read_sent client_view_prepare_def dependency_list_def
      from_to_status map_deserialize_serialize [where to_le = to_le and from_le = from_le, OF le, simplified])

lemma status_reply_read:
  "(case status_reply r of Some status \<Rightarrow> from_flatbuf_status status | None \<Rightarrow> Panic) = map_err wire_view r"
  by (cases r) (simp_all add: status_reply_def from_to_status)

lemma read_none [simp]: "read_response fb t read result None = Panic"
  by (simp add: read_response_def)

lemma remote_get:
  assumes "flatbuf_ok fb" and le: "\<And>x. from_le (to_le x) = x"
  shows "client_get fb to_le from_le (network_turn fb to_le from_le ops now True) req_id tx i keys sv =
    (case local_get ops now (ti_id tx) (of_nat (overall_timeout tx div 1000)) i keys sv of
       (sv, r) \<Rightarrow> (sv, client_view_get r))"
proof -
  let ?req = "\<lparr>greq_request_id = Some (serialize_uuid to_le req_id),
      greq_transaction_id = Some (serialize_uuid to_le (ti_id tx)),
      greq_transaction_info = Some (of_nat (overall_timeout tx div 1000)),
      greq_range_id = Some (serialize_range_id to_le i), greq_keys = Some (map Some keys)\<rparr>"
  have inner: "get_inner from_le ops now ?req sv =
      local_get ops now (ti_id tx) (of_nat (overall_timeout tx div 1000)) i keys sv"
    by (simp add: get_inner_def local_get_def opt_ok_def range_id_sent [where from_le = from_le and to_le = to_le, OF le]
        deserialize_serialize_uuid [where from_le = from_le and to_le = to_le, OF le]
        cong: prod.case_cong outcome.case_cong)
  obtain sv' r where r: "local_get ops now (ti_id tx) (of_nat (overall_timeout tx div 1000)) i keys sv = (sv', r)" by force
  show ?thesis
    using get_reply_read [where from_le = from_le and to_le = to_le, OF assms(1) le,
        of "deserialize_uuid from_le (serialize_uuid to_le req_id)" r]
    by (cases "get_reply to_le (deserialize_uuid from_le (serialize_uuid to_le req_id)) r")
      (simp_all add: client_get_def network_turn_def message_sent [OF assms(1)] server_get_def inner r split_beta)
qed

lemma remote_prepare:
  assumes "flatbuf_ok fb" and le: "\<And>x. from_le (to_le x) = x"
  shows "client_prepare_transaction fb to_le from_le (network_turn fb to_le from_le ops now True) req_id tx i
      reads writes dels load clients sv =
    (case local_call ops (ti_id tx) i (\<lambda>info. rmo_prepare ops info
         (client_prepare_request to_le req_id (ti_id tx) i reads writes dels load clients)) sv of
       (sv, r) \<Rightarrow> (sv, client_view_prepare r))"
proof -
  let ?req = "client_prepare_request to_le req_id (ti_id tx) i reads writes dels load clients"
  have inner: "prepare_inner from_le ops ?req sv = local_call ops (ti_id tx) i (\<lambda>info. rmo_prepare ops info ?req) sv"
    by (simp add: prepare_inner_def local_call_def opt_ok_def range_id_sent [where from_le = from_le and to_le = to_le, OF le]
        deserialize_serialize_uuid [where from_le = from_le and to_le = to_le, OF le] client_prepare_request_def)
  have id: "preq_request_id ?req = Some (serialize_uuid to_le req_id)"
    by (simp add: client_prepare_request_def)
  obtain sv' r where r: "local_call ops (ti_id tx) i (\<lambda>info. rmo_prepare ops info ?req) sv = (sv', r)" by force
  show ?thesis
    using prepare_reply_read [where from_le = from_le and to_le = to_le, OF assms(1) le,
        of "deserialize_uuid from_le (serialize_uuid to_le req_id)" r]
    by (cases "prepare_reply to_le (deserialize_uuid from_le (serialize_uuid to_le req_id)) r")
      (simp_all add: client_prepare_transaction_def network_turn_def message_sent [OF assms(1)] server_prepare_def
        inner id r split_beta)
qed

lemma remote_abort:
  assumes "flatbuf_ok fb" and le: "\<And>x. from_le (to_le x) = x"
  shows "client_abort_transaction fb to_le (network_turn fb to_le from_le ops now True) req_id tx i sv =
    (case local_call ops (ti_id tx) i (\<lambda>info. rmo_abort ops info
         \<lparr>areq_request_id = Some (serialize_uuid to_le req_id), areq_transaction_id = Some (serialize_uuid to_le (ti_id tx)),
          areq_range_id = Some (serialize_range_id to_le i)\<rparr>) sv of
       (sv, r) \<Rightarrow> (sv, map_err wire_view r))"
proof -
  let ?req = "\<lparr>areq_request_id = Some (serialize_uuid to_le req_id),
    areq_transaction_id = Some (serialize_uuid to_le (ti_id tx)), areq_range_id = Some (serialize_range_id to_le i)\<rparr>"
  have inner: "abort_inner from_le ops ?req sv = local_call ops (ti_id tx) i (\<lambda>info. rmo_abort ops info ?req) sv"
    by (simp add: abort_inner_def local_call_def opt_ok_def range_id_sent [where from_le = from_le and to_le = to_le, OF le]
        deserialize_serialize_uuid [where from_le = from_le and to_le = to_le, OF le])
  obtain sv' r where r: "local_call ops (ti_id tx) i (\<lambda>info. rmo_abort ops info ?req) sv = (sv', r)" by force
  show ?thesis
    using status_reply_read [of r] assms(1)
    by (cases "status_reply r")
      (simp_all add: client_abort_transaction_def network_turn_def message_sent [OF assms(1)] server_abort_def
        inner r split_beta read_sent [OF assms(1)])
qed

lemma remote_commit:
  assumes "flatbuf_ok fb" and le: "\<And>x. from_le (to_le x) = x"
  shows "client_commit_transactions fb to_le (network_turn fb to_le from_le ops now True) req_id ts i epoch sv =
    (case local_commit ops ts i
         \<lparr>creq_request_id = Some (serialize_uuid to_le req_id), creq_transaction_ids = Some (map (serialize_uuid to_le) ts),
          creq_range_id = Some (serialize_range_id to_le i), creq_epoch = epoch, vid = 0\<rparr> sv of
       (sv, r) \<Rightarrow> (sv, map_err wire_view r))"
proof -
  let ?req = "\<lparr>creq_request_id = Some (serialize_uuid to_le req_id),
    creq_transaction_ids = Some (map (serialize_uuid to_le) ts), creq_range_id = Some (serialize_range_id to_le i),
    creq_epoch = epoch, vid = 0\<rparr>"
  have inner: "commit_inner from_le ops ?req sv = local_commit ops ts i ?req sv"
    by (simp add: commit_inner_def local_commit_def opt_ok_def range_id_sent [where from_le = from_le and to_le = to_le, OF le]
        map_deserialize_serialize [where from_le = from_le and to_le = to_le, OF le, simplified] comp_def
        deserialize_serialize_uuid [where from_le = from_le and to_le = to_le, OF le])
  obtain sv' r where r: "local_commit ops ts i ?req sv = (sv', r)" by force
  show ?thesis
    using status_reply_read [of r] assms(1)
    by (cases "status_reply r")
      (simp_all add: client_commit_transactions_def network_turn_def message_sent [OF assms(1)] server_commit_def
        inner r split_beta read_sent [OF assms(1)])
qed

text \<open>
  C2: A call over the network is a call of the server. When the encoding and the network work, each
  of the four calls of the client does to the server exactly what the operation does on the decoded
  arguments and returns its result, with an error as the client sees it (up to the reason of an abort
  and the description of an internal error); where the server panics, the client does.
\<close>

theorem remote_calls_are_local:
  assumes "flatbuf_ok fb" and "\<And>x. from_le (to_le x) = x"
  shows "client_get fb to_le from_le (network_turn fb to_le from_le ops now True) req_id tx i keys sv =
      (case local_get ops now (ti_id tx) (of_nat (overall_timeout tx div 1000)) i keys sv of
         (sv, r) \<Rightarrow> (sv, client_view_get r)) \<and>
    client_prepare_transaction fb to_le from_le (network_turn fb to_le from_le ops now True) req_id tx i
        reads writes dels load clients sv =
      (case local_call ops (ti_id tx) i (\<lambda>info. rmo_prepare ops info
           (client_prepare_request to_le req_id (ti_id tx) i reads writes dels load clients)) sv of
         (sv, r) \<Rightarrow> (sv, client_view_prepare r)) \<and>
    client_abort_transaction fb to_le (network_turn fb to_le from_le ops now True) req_id tx i sv =
      (case local_call ops (ti_id tx) i (\<lambda>info. rmo_abort ops info
           \<lparr>areq_request_id = Some (serialize_uuid to_le req_id), areq_transaction_id = Some (serialize_uuid to_le (ti_id tx)),
            areq_range_id = Some (serialize_range_id to_le i)\<rparr>) sv of
         (sv, r) \<Rightarrow> (sv, map_err wire_view r)) \<and>
    client_commit_transactions fb to_le (network_turn fb to_le from_le ops now True) req_id ts i epoch sv =
      (case local_commit ops ts i
           \<lparr>creq_request_id = Some (serialize_uuid to_le req_id), creq_transaction_ids = Some (map (serialize_uuid to_le) ts),
            creq_range_id = Some (serialize_range_id to_le i), creq_epoch = epoch, vid = 0\<rparr> sv of
         (sv, r) \<Rightarrow> (sv, map_err wire_view r))"
  by (intro conjI remote_get remote_prepare remote_abort remote_commit assms)

definition wit_client_info :: transaction_info where
  "wit_client_info = \<lparr>ti_id = 9, started = 0, overall_timeout = 50000\<rparr>"

theorem remote_calls_are_local_witness:
  "flatbuf_ok table_flatbuf \<and>
   client_get table_flatbuf (\<lambda>x. x) (\<lambda>x. x) (network_turn table_flatbuf (\<lambda>x. x) (\<lambda>x. x) (wit_ops wit_env) 0 True) 7
     wit_client_info wit_assigned_range [[1]] (wit_sv True) =
   (case local_get (wit_ops wit_env) 0 9 50 wit_assigned_range [[1]] (wit_sv True) of (sv, r) \<Rightarrow> (sv, client_view_get r))"
  using remote_calls_are_local [where to_le = "\<lambda>x. x" and from_le = "\<lambda>x. x" and ops = "wit_ops wit_env" and now = 0
      and req_id = 7 and tx = wit_client_info and i = wit_assigned_range and keys = "[[1]]" and sv = "wit_sv True",
      OF table_flatbuf_ok refl, THEN conjunct1] table_flatbuf_ok
  by (simp add: wit_client_info_def)

section \<open>Blind writes\<close>

lemma collect_prepares_refused:
  assumes "(i, Err e) \<in> set answers" and "\<forall>a \<in> set answers. snd a \<noteq> Panic"
  shows "snd (snd (collect_prepares answers abort_answer early tx)) = Panic"
  using assms by (induction answers abort_answer early tx rule: collect_prepares.induct) auto

text \<open>
  C37: A transaction that writes to a range server without having read from it cannot commit. Whatever
  a server has handled since it was started, as long as there was no get request for the
  transaction among it, its prepare request for a range the server loads is refused as one of an
  unknown transaction, without any effect besides loading the range. With that answer among those of
  the ranges, in any order, the commit of the coordinator does not succeed and tells nobody to commit;
  it panics, unless the task of another range panicked, in which case it may abort instead.
\<close>

theorem blind_write_cannot_commit:
  assumes "flatbuf_ok fb" and "\<And>x. from_le (to_le x) = x"
    and "(unread_step fb to_le from_le (ti_id (t_info tx)))\<^sup>*\<^sup>* (server_new s) sv"
    and "maybe_load_and_get_range ops i sv = (sv1, Ok r)" and "t_state tx = Running"
    and "client_prepare_transaction fb to_le from_le (network_turn fb to_le from_le ops now True) req_id (t_info tx) i
      False writes dels load clients sv = (sv2, answer)"
    and "(i, answer) \<in> set answers"
    and "tx_commit load clients answers abort_answer store_answer resolver_answer tx = (tx', msgs, res)"
  shows "answer = Err UnknownTransaction \<and> sv2 = sv1 \<and> res \<noteq> Ok () \<and> (\<forall>m \<in> set msgs. \<not> is_commit_message m) \<and>
    ((\<forall>a \<in> set answers. snd a \<noteq> Panic) \<longrightarrow> res = Panic)"
proof -
  have "unread (ti_id (t_info tx)) sv"
    by (rule unread_steps [OF assms(3)]) (simp add: unread_def server_new_def)
  then have "hm_get (transaction_table sv1) (ti_id (t_info tx)) = None"
    using load_transactions [of ops i sv] assms(4) by (simp add: unread_def)
  then have refused: "answer = Err UnknownTransaction" "sv2 = sv1"
    using assms(6) remote_prepare [OF assms(1), of from_le to_le ops now req_id "t_info tx" i False writes dels load clients sv,
        OF assms(2)] assms(4)
    by (auto simp: local_call_def get_transaction_info_def client_view_prepare_def)
  have "res \<noteq> Ok () \<and> (\<forall>m \<in> set msgs. \<not> is_commit_message m)"
    using assms(8)
  proof (cases rule: tx_commit_cases)
    case (unprepared aborts)
    then show ?thesis using prepare_requests_messages commit_not_abort by auto
  next
    case (prepared ds decision early)
    with assms(7) refused(1) show ?thesis by force
  qed simp
  moreover have "res = Panic" if "\<forall>a \<in> set answers. snd a \<noteq> Panic"
  proof -
    obtain tx1 m r1 where c: "collect_prepares answers abort_answer False (tx\<lparr>t_state := Preparing\<rparr>) = (tx1, m, r1)"
      by (rule prod_cases3)
    have "r1 = Panic"
      using collect_prepares_refused [of i UnknownTransaction answers, OF _ that] assms(7) refused(1) c by (metis snd_conv)
    with assms(5,8) c show ?thesis by (simp add: tx_commit_def check_still_running_def Let_def)
  qed
  ultimately show ?thesis using refused by blast
qed

definition wit_blind :: transaction where
  "wit_blind = fst (tx_put (\<lambda>_ _. Some wit_assigned_range) \<lparr>namespace = ''n'', ks_name = ''k''\<rparr> [1] [2]
     (transaction_new wit_client_info Traditional \<lparr>namespace = ''n'', ks_name = ''k''\<rparr>))"

lemma wit_blind_put: "t_info wit_blind = wit_client_info" "t_state wit_blind = Running"
  by (simp_all add: wit_blind_def tx_put_def transaction_new_def check_still_running_def resolve_full_record_key_def
      get_participant_range_def set_participant_range_def Let_def)

text \<open>
  A server that is assigned a range and has had a get request of another transaction, for a range it is not
  assigned; the transaction that only puts a key there is refused, and its commit panics.
\<close>

definition wit_other_get :: table_buffer where
  "wit_other_get = Buffer (RequestEnvelope (Envelope MT_Get (Some (Buffer (GetRequest
     (wit_get\<lparr>greq_transaction_id := Some \<lparr>lower = 8, upper = 0\<rparr>,
        greq_range_id := Some (serialize_range_id (\<lambda>x. x) \<lparr>keyspace_id = 1, range_id = 3\<rparr>)\<rparr>))))))"

definition wit_busy :: "((bool, unit) range_manager, bool) server" where
  "wit_busy = fst (handle_message table_flatbuf (\<lambda>x. x) (\<lambda>x. x) (wit_ops wit_env) 0 True wit_other_get (wit_sv True))"

lemma wit_busy_eq: "wit_busy = (wit_sv True)\<lparr>transaction_table := [(8, \<lparr>ti_id = 8, started = 0, overall_timeout = 50000\<rparr>)]\<rparr>"
proof -
  have i: "deserialize_range_id (\<lambda>x. x) (serialize_range_id (\<lambda>x. x) \<lparr>keyspace_id = 1, range_id = 3\<rparr>) =
      Some \<lparr>keyspace_id = 1, range_id = 3\<rparr>"
    "deserialize_uuid (\<lambda>x. x) \<lparr>lower = 8, upper = 0\<rparr> = 8"
    by code_simp+
  show ?thesis
    by (simp add: wit_busy_def wit_other_get_def handle_message_def root_request_envelope_def table_flatbuf_def with_payload_def
        root_get_request_def server_get_def wit_get_def get_inner_def opt_ok_def i maybe_start_transaction_def
        maybe_load_and_get_range_def maybe_load_and_get_range_inner_def load_fast_path_def hm_contains_def
        wit_sv_def server_new_def is_assigned_def wit_assigned_range_def get_reply_def)
qed

lemma wit_busy_unread: "(unread_step table_flatbuf (\<lambda>x. x) (\<lambda>x. x) 9)\<^sup>*\<^sup>* (server_new True) wit_busy"
proof -
  have "unread_step table_flatbuf (\<lambda>x. x) (\<lambda>x. x) 9 (server_new True) (wit_sv True)"
    unfolding wit_sv_def by (rule Unread_Assign)
  moreover have "read_for table_flatbuf (\<lambda>x. x) wit_other_get \<noteq> Some 9"
    by code_simp
  then have "unread_step table_flatbuf (\<lambda>x. x) (\<lambda>x. x) 9 (wit_sv True) wit_busy"
    unfolding wit_busy_def by (rule Unread_Message)
  ultimately show ?thesis by (meson converse_rtranclp_into_rtranclp rtranclp.rtrancl_refl)
qed

theorem blind_write_cannot_commit_witness:
  "hm_keys (transaction_table wit_busy) = [8] \<and>
   (\<exists>sv. client_prepare_transaction table_flatbuf (\<lambda>x. x) (\<lambda>x. x)
      (network_turn table_flatbuf (\<lambda>x. x) (\<lambda>x. x) (wit_ops wit_env) 0 True) 7 wit_client_info wit_assigned_range False [([1], [2])] []
      (Fin 0) 1 wit_busy = (sv, Err UnknownTransaction)) \<and>
   snd (snd (tx_commit (Fin 0) 1 [(wit_assigned_range, Err UnknownTransaction)] Panic Panic Panic wit_blind)) = Panic"
proof -
  have k: "hm_keys (transaction_table wit_busy) = [8]" by (simp add: wit_busy_eq)
  have t: "(unread_step table_flatbuf (\<lambda>x. x) (\<lambda>x. x) (ti_id (t_info wit_blind)))\<^sup>*\<^sup>* (server_new True) wit_busy"
    using wit_busy_unread by (simp add: wit_blind_put(1) wit_client_info_def)
  have l: "snd (maybe_load_and_get_range (wit_ops wit_env) wit_assigned_range wit_busy) = Ok (range_id wit_assigned_range)"
    by (simp add: wit_busy_eq maybe_load_and_get_range_def maybe_load_and_get_range_inner_def load_fast_path_def load_slow_path_def
      call_manager_def put_manager_def hm_contains_def range_manager_ops_def on_storage_def load_call_def load_enter_def
      rm_new_def load_finish_def load_inner_def num_epochs_per_lease_def wit_config_def wit_storage_def wit_wal_def
      wit_sv_def server_new_def is_assigned_def Let_def)
  obtain sv answer where p: "client_prepare_transaction table_flatbuf (\<lambda>x. x) (\<lambda>x. x)
      (network_turn table_flatbuf (\<lambda>x. x) (\<lambda>x. x) (wit_ops wit_env) 0 True) 7 (t_info wit_blind) wit_assigned_range False
      [([1], [2])] [] (Fin 0) 1 wit_busy = (sv, answer)" by force
  obtain tx' msgs res where c: "tx_commit (Fin 0) 1 [(wit_assigned_range, answer)] Panic Panic Panic wit_blind = (tx', msgs, res)"
    by (rule prod_cases3)
  from blind_write_cannot_commit [where to_le = "\<lambda>x. x" and from_le = "\<lambda>x. x" and tx = wit_blind, OF table_flatbuf_ok refl
      t _ wit_blind_put(2) p _ c] l
  have "answer = Err UnknownTransaction" "res = Panic" by (auto simp: prod_eq_iff)
  with k p c show ?thesis by (simp add: wit_blind_put(1))
qed

end
