(* ===== verification/Range_Routing.thy ===== *)
theory Range_Routing
  imports Range_Client
begin

text \<open>
  How the coordinator finds the server of a key: the range assignment oracle
  (\<open>coordinator-rangeclient/src/range_assignment_oracle.rs\<close>), which asks the universe service for the
  ranges of a keyspace and caches what it learns, and the range client on top of it
  (\<open>coordinator-rangeclient/src/rangeclient.rs\<close>). The hexadecimal encoding of a key is code of
  another package (\<open>hex\<close>), as is the parsing of identifiers.
\<close>

section \<open>The oracle\<close>

record range_assignment_oracle =
  key_to_full_range_id :: "(string, full_range_id) hmap"
  keyspace_to_keyspace_info :: "(string, keyspace_listing) hmap"

definition oracle_new :: range_assignment_oracle where
  "oracle_new = \<lparr>key_to_full_range_id = [], keyspace_to_keyspace_info = []\<rparr>"

text \<open>The search in the ranges of a keyspace; identifiers that do not parse are unwrapped.\<close>

fun find_range ::
    "(string \<Rightarrow> uuid option) \<Rightarrow> uuid \<Rightarrow> bytes \<Rightarrow> proto_key_range list \<Rightarrow> (unit, full_range_id option) outcome" where
  "find_range parse ks key [] = Ok None"
| "find_range parse ks key (p # ps) =
     (if kr_includes (key_range_from_proto p) key
      then (case parse (base_range_uuid p) of
              None \<Rightarrow> Panic
            | Some r \<Rightarrow> Ok (Some \<lparr>keyspace_id = ks, range_id = r\<rparr>))
      else find_range parse ks key ps)"

definition search_keyspace ::
    "(string \<Rightarrow> uuid option) \<Rightarrow> keyspace_listing \<Rightarrow> bytes \<Rightarrow> (unit, full_range_id option) outcome" where
  "search_keyspace parse info key =
     (case parse (kl_keyspace_id info) of
        None \<Rightarrow> Panic
      | Some ks \<Rightarrow> find_range parse ks key (kl_base_key_ranges info))"

text \<open>\<open>answer\<close> is what the universe service answers if it is asked: an error, or maybe the keyspace.\<close>

definition full_range_id_of_key ::
    "(bytes \<Rightarrow> string) \<Rightarrow> (string \<Rightarrow> uuid option) \<Rightarrow> (string, keyspace_listing option) outcome \<Rightarrow> keyspace \<Rightarrow> bytes \<Rightarrow>
     range_assignment_oracle \<Rightarrow> range_assignment_oracle \<times> (unit, full_range_id option) outcome" where
  "full_range_id_of_key hex parse answer ks key orc =
     (let key_str = hex key;
          key_to_full_range_id_cache_key = namespace ks @ ks_name ks @ key_str;
          keyspace_info_cache_key = namespace ks @ ks_name ks
      in case hm_get (key_to_full_range_id orc) key_to_full_range_id_cache_key of
           Some i \<Rightarrow> (orc, Ok (Some i))
         | None \<Rightarrow>
             (case (case hm_get (keyspace_to_keyspace_info orc) keyspace_info_cache_key of
                      Some _ \<Rightarrow> Some orc
                    | None \<Rightarrow>
                        (case answer of
                           Ok (Some info) \<Rightarrow>
                             Some (orc\<lparr>keyspace_to_keyspace_info :=
                               hm_insert keyspace_info_cache_key info (keyspace_to_keyspace_info orc)\<rparr>)
                         | _ \<Rightarrow> None)) of
                None \<Rightarrow> (orc, Panic)
              | Some orc \<Rightarrow>
                  (case hm_get (keyspace_to_keyspace_info orc) keyspace_info_cache_key of
                     None \<Rightarrow> (orc, Panic)
                   | Some info \<Rightarrow>
                       (case search_keyspace parse info key of
                          Ok (Some i) \<Rightarrow>
                            (orc\<lparr>key_to_full_range_id := hm_insert key_str i (key_to_full_range_id orc)\<rparr>, Ok (Some i))
                        | r \<Rightarrow> (orc, r)))))"

definition host_of_range :: "full_range_id \<Rightarrow> host_info option" where
  "host_of_range i =
     Some \<lparr>hi_identity = \<lparr>hi_name = ''test_server'',
             hi_zone = \<lparr>zone_region = \<lparr>reg_cloud = None, reg_name = ''test-region''\<rparr>, zone_name = ''a''\<rparr>\<rparr>,
           hi_address = ''127.0.0.1:50055'', warden_connection_epoch = 0\<rparr>"

text \<open>\<open>todo!()\<close>\<close>

definition maybe_refresh_host_of_range :: "full_range_id \<Rightarrow> (unit, unit) outcome" where
  "maybe_refresh_host_of_range i = Panic"

section \<open>The range client of the coordinator\<close>

type_synonym range_clients = "(host_identity, range_client) hmap"

definition get_range_client ::
    "full_range_id \<Rightarrow> range_clients \<Rightarrow> range_clients \<times> (error, range_client) outcome" where
  "get_range_client i clients =
     (case host_of_range i of
        None \<Rightarrow> (clients, Err RangeIsNotLoaded)
      | Some h \<Rightarrow>
          (let existing = (case hm_get clients (hi_identity h) of
                 None \<Rightarrow> None
               | Some c \<Rightarrow> if rc_host_info c = h \<and> \<not> client_is_stopped c then Some c else None);
               started = (\<lambda>c clients. (hm_insert (hi_identity h) (client_start c) clients, Ok (client_start c)))
           in case existing of
                Some c \<Rightarrow> started c clients
              | None \<Rightarrow>
                  (case hm_get clients (hi_identity h) of
                     Some c \<Rightarrow>
                       if rc_host_info c = h then (clients, Ok c)
                       else started (client_new h) (hm_remove (hi_identity h) clients)
                   | None \<Rightarrow> started (client_new h) clients)))"

definition handle_rangeserver_err :: "full_range_id \<Rightarrow> error \<Rightarrow> (error, 'a) outcome" where
  "handle_rangeserver_err i e =
     (case e of
        RangeIsNotLoaded \<Rightarrow> (case maybe_refresh_host_of_range i of Ok _ \<Rightarrow> Err e | _ \<Rightarrow> Panic)
      | RangeOwnershipLost \<Rightarrow> (case maybe_refresh_host_of_range i of Ok _ \<Rightarrow> Err e | _ \<Rightarrow> Panic)
      | _ \<Rightarrow> Err e)"

text \<open>
  A call of the coordinator's client: find the client, call it, look at the error. The network takes
  the address of the server; \<open>call\<close> is one of the calls of theory \<open>Range_Client\<close>.
\<close>

definition routed ::
    "(('b, 'n) network \<Rightarrow> 'n \<Rightarrow> 'n \<times> (error, 'a) outcome) \<Rightarrow> (string \<Rightarrow> ('b, 'n) network) \<Rightarrow> full_range_id \<Rightarrow>
     range_clients \<times> 'n \<Rightarrow> (range_clients \<times> 'n) \<times> (error, 'a) outcome" where
  "routed call send i st =
     (case get_range_client i (fst st) of
        (clients, Ok c) \<Rightarrow>
          (case call (send (hi_address (rc_host_info c))) (snd st) of
             (net, Err e) \<Rightarrow> ((clients, net), handle_rangeserver_err i e)
           | (net, r) \<Rightarrow> ((clients, net), r))
      | (clients, Err e) \<Rightarrow> ((clients, snd st), Err e)
      | (clients, Panic) \<Rightarrow> ((clients, snd st), Panic))"

definition routed_get ::
    "'b flatbuf \<Rightarrow> (uuid \<Rightarrow> 128 word) \<Rightarrow> (128 word \<Rightarrow> uuid) \<Rightarrow> (string \<Rightarrow> ('b, 'n) network) \<Rightarrow> uuid \<Rightarrow> transaction_info \<Rightarrow>
     full_range_id \<Rightarrow> bytes list \<Rightarrow> range_clients \<times> 'n \<Rightarrow> (range_clients \<times> 'n) \<times> (error, client_get_result) outcome" where
  "routed_get fb to_le from_le send req_id tx i keys =
     routed (\<lambda>send. client_get fb to_le from_le send req_id tx i keys) send i"

definition routed_prepare_transaction ::
    "'b flatbuf \<Rightarrow> (uuid \<Rightarrow> 128 word) \<Rightarrow> (128 word \<Rightarrow> uuid) \<Rightarrow> (string \<Rightarrow> ('b, 'n) network) \<Rightarrow> uuid \<Rightarrow> transaction_info \<Rightarrow>
     full_range_id \<Rightarrow> bool \<Rightarrow> (bytes \<times> bytes) list \<Rightarrow> bytes list \<Rightarrow> f64 \<Rightarrow> u32 \<Rightarrow> range_clients \<times> 'n \<Rightarrow>
     (range_clients \<times> 'n) \<times> (error, prepare_ok) outcome" where
  "routed_prepare_transaction fb to_le from_le send req_id tx i reads writes dels load clients =
     routed (\<lambda>send. client_prepare_transaction fb to_le from_le send req_id tx i reads writes dels load clients) send i"

definition routed_abort_transaction ::
    "'b flatbuf \<Rightarrow> (uuid \<Rightarrow> 128 word) \<Rightarrow> (string \<Rightarrow> ('b, 'n) network) \<Rightarrow> uuid \<Rightarrow> transaction_info \<Rightarrow> full_range_id \<Rightarrow>
     range_clients \<times> 'n \<Rightarrow> (range_clients \<times> 'n) \<times> (error, unit) outcome" where
  "routed_abort_transaction fb to_le send req_id tx i =
     routed (\<lambda>send. client_abort_transaction fb to_le send req_id tx i) send i"

definition routed_commit_transactions ::
    "'b flatbuf \<Rightarrow> (uuid \<Rightarrow> 128 word) \<Rightarrow> (string \<Rightarrow> ('b, 'n) network) \<Rightarrow> uuid \<Rightarrow> uuid list \<Rightarrow> full_range_id \<Rightarrow> u64 \<Rightarrow>
     range_clients \<times> 'n \<Rightarrow> (range_clients \<times> 'n) \<times> (error, unit) outcome" where
  "routed_commit_transactions fb to_le send req_id transactions i epoch =
     routed (\<lambda>send. client_commit_transactions fb to_le send req_id transactions i epoch) send i"

section \<open>The caches of the oracle\<close>

text \<open>
  The range of a key as the universe service describes the keyspace: the first of its ranges with the key
  between its bounds, where an empty upper bound is below every key.
\<close>

definition first_range ::
    "(string \<Rightarrow> uuid option) \<Rightarrow> keyspace_listing \<Rightarrow> bytes \<Rightarrow> full_range_id option" where
  "first_range parse info key =
     (case find (\<lambda>p. proto_lower_bound_inclusive p \<le> key \<and> key < proto_upper_bound_exclusive p) (kl_base_key_ranges info) of
        None \<Rightarrow> None
      | Some p \<Rightarrow> Some \<lparr>keyspace_id = the (parse (kl_keyspace_id info)), range_id = the (parse (base_range_uuid p))\<rparr>)"

definition ids_parse :: "(string \<Rightarrow> uuid option) \<Rightarrow> keyspace_listing \<Rightarrow> bool" where
  "ids_parse parse info \<longleftrightarrow> parse (kl_keyspace_id info) \<noteq> None \<and>
     list_all (\<lambda>p. parse (base_range_uuid p) \<noteq> None) (kl_base_key_ranges info)"

lemma find_range_first:
  assumes "list_all (\<lambda>p. parse (base_range_uuid p) \<noteq> None) ps"
  shows "find_range parse k key ps =
    Ok (map_option (\<lambda>p. \<lparr>keyspace_id = k, range_id = the (parse (base_range_uuid p))\<rparr>)
      (find (\<lambda>p. proto_lower_bound_inclusive p \<le> key \<and> key < proto_upper_bound_exclusive p) ps))"
  using assms by (induction ps) (auto simp: kr_includes_def key_range_from_proto_def)

lemma search_keyspace_first: "ids_parse parse info \<Longrightarrow> search_keyspace parse info key = Ok (first_range parse info key)"
  by (auto simp: search_keyspace_def ids_parse_def first_range_def find_range_first split: option.split)

text \<open>
  Lookups, with the keyspaces and keys that were looked up, while the universe service describes each
  keyspace in one way.
\<close>

inductive oracle_run ::
    "(bytes \<Rightarrow> string) \<Rightarrow> (string \<Rightarrow> uuid option) \<Rightarrow> (keyspace \<Rightarrow> keyspace_listing) \<Rightarrow> (keyspace \<times> bytes) list \<Rightarrow>
     range_assignment_oracle \<Rightarrow> bool" for hex parse universe where
  New: "oracle_run hex parse universe [] oracle_new"
| Lookup: "oracle_run hex parse universe lookups orc \<Longrightarrow>
    oracle_run hex parse universe (lookups @ [(ks, key)])
      (fst (full_range_id_of_key hex parse (Ok (Some (universe ks))) ks key orc))"

text \<open>What the caches hold: descriptions of keyspaces looked up, and ranges of keys looked up.\<close>

definition cache_ok ::
    "(bytes \<Rightarrow> string) \<Rightarrow> (string \<Rightarrow> uuid option) \<Rightarrow> (keyspace \<Rightarrow> keyspace_listing) \<Rightarrow> (keyspace \<times> bytes) list \<Rightarrow>
     range_assignment_oracle \<Rightarrow> bool" where
  "cache_ok hex parse universe lookups orc \<longleftrightarrow>
     (\<forall>c info. hm_get (keyspace_to_keyspace_info orc) c = Some info \<longrightarrow>
        (\<exists>ks \<in> fst ` set lookups. c = namespace ks @ ks_name ks \<and> info = universe ks)) \<and>
     (\<forall>c i. hm_get (key_to_full_range_id orc) c = Some i \<longrightarrow>
        (\<exists>(ks, key) \<in> set lookups. c = hex key \<and> first_range parse (universe ks) key = Some i))"

text \<open>A lookup that misses the cache of ranges.\<close>

lemma lookup_miss:
  assumes "cache_ok hex parse universe lookups orc" and "inj_on (\<lambda>ks. namespace ks @ ks_name ks) (insert ks (fst ` set lookups))"
    and "ids_parse parse (universe ks)"
    and miss: "hm_get (key_to_full_range_id orc) (namespace ks @ ks_name ks @ hex key) = None"
  obtains orc' where "cache_ok hex parse universe (lookups @ [(ks, key)]) orc'"
    and "full_range_id_of_key hex parse (Ok (Some (universe ks))) ks key orc =
      ((case first_range parse (universe ks) key of
          Some i \<Rightarrow> orc'\<lparr>key_to_full_range_id := hm_insert (hex key) i (key_to_full_range_id orc')\<rparr>
        | None \<Rightarrow> orc'), Ok (first_range parse (universe ks) key))"
proof -
  let ?c = "namespace ks @ ks_name ks"
  define orc' where "orc' = (case hm_get (keyspace_to_keyspace_info orc) ?c of
      Some _ \<Rightarrow> orc
    | None \<Rightarrow> orc\<lparr>keyspace_to_keyspace_info := hm_insert ?c (universe ks) (keyspace_to_keyspace_info orc)\<rparr>)"
  have "info = universe ks" if some: "hm_get (keyspace_to_keyspace_info orc) ?c = Some info" for info
  proof -
    obtain ks' where k: "ks' \<in> fst ` set lookups" "?c = namespace ks' @ ks_name ks'" "info = universe ks'"
      using assms(1) some unfolding cache_ok_def by blast
    with assms(2) have "ks' = ks" by (auto dest!: inj_onD [of _ _ ks ks'])
    with k(3) show ?thesis by simp
  qed
  then have info: "hm_get (keyspace_to_keyspace_info orc') ?c = Some (universe ks)"
    by (auto simp: orc'_def split: option.splits)
  have ok: "cache_ok hex parse universe (lookups @ [(ks, key)]) orc'"
    using assms(1) by (fastforce simp: orc'_def cache_ok_def split: option.splits if_splits)
  show ?thesis
  proof (rule that [OF ok])
    show "full_range_id_of_key hex parse (Ok (Some (universe ks))) ks key orc =
      ((case first_range parse (universe ks) key of
          Some i \<Rightarrow> orc'\<lparr>key_to_full_range_id := hm_insert (hex key) i (key_to_full_range_id orc')\<rparr>
        | None \<Rightarrow> orc'), Ok (first_range parse (universe ks) key))"
      using miss info search_keyspace_first [OF assms(3), of key]
      by (cases "hm_get (keyspace_to_keyspace_info orc) ?c")
        (simp_all add: full_range_id_of_key_def Let_def orc'_def split: option.split)
  qed
qed

lemma lookup_hit:
  "hm_get (key_to_full_range_id orc) (namespace ks @ ks_name ks @ hex key) = Some i \<Longrightarrow>
    full_range_id_of_key hex parse answer ks key orc = (orc, Ok (Some i))"
  by (simp add: full_range_id_of_key_def Let_def)

lemma oracle_run_cache_ok:
  assumes "oracle_run hex parse universe lookups orc" and "inj_on (\<lambda>ks. namespace ks @ ks_name ks) (fst ` set lookups)"
    and "\<forall>ks. ids_parse parse (universe ks)"
  shows "cache_ok hex parse universe lookups orc"
  using assms(1,2)
proof induction
  case New
  show ?case by (simp add: cache_ok_def oracle_new_def)
next
  case (Lookup lookups orc ks key)
  then have ok: "cache_ok hex parse universe lookups orc" and i: "inj_on (\<lambda>ks. namespace ks @ ks_name ks) (insert ks (fst ` set lookups))"
    by (auto intro: inj_on_subset)
  show ?case
  proof (cases "hm_get (key_to_full_range_id orc) (namespace ks @ ks_name ks @ hex key)")
    case None
    obtain orc' where "cache_ok hex parse universe (lookups @ [(ks, key)]) orc'"
      "full_range_id_of_key hex parse (Ok (Some (universe ks))) ks key orc =
      ((case first_range parse (universe ks) key of
          Some i \<Rightarrow> orc'\<lparr>key_to_full_range_id := hm_insert (hex key) i (key_to_full_range_id orc')\<rparr>
        | None \<Rightarrow> orc'), Ok (first_range parse (universe ks) key))"
      by (rule lookup_miss [OF ok i _ None]) (use assms(3) in auto)
    then show ?thesis by (auto simp: cache_ok_def split: option.split)
  next
    case (Some i)
    with ok show ?thesis by (fastforce simp: lookup_hit cache_ok_def)
  qed
qed

text \<open>
  C38: The answers of the oracle, after any lookups. If its cache of ranges has no entry under the
  names of the keyspace followed by the encoded key, the answer is the first range of the keyspace with
  the key between its bounds, as the universe service describes the keyspace, or no range if there is
  none, and a range that was found is put in the cache under the encoded key alone. If there is an
  entry, it is the answer, and it is the range of a key that was looked up earlier, in some keyspace, and
  whose encoding is the names followed by the encoded key. So names that do not make an encoded key
  always give the first range. Keyspaces are assumed not to have the same concatenated names, and
  identifiers to parse.
\<close>

theorem oracle_finds_first_range:
  assumes "oracle_run hex parse universe lookups orc"
    and "inj_on (\<lambda>ks. namespace ks @ ks_name ks) (insert ks (fst ` set lookups))"
    and "\<forall>ks. ids_parse parse (universe ks)"
    and "full_range_id_of_key hex parse (Ok (Some (universe ks))) ks key orc = (orc', r)"
  shows "(case hm_get (key_to_full_range_id orc) (namespace ks @ ks_name ks @ hex key) of
       None \<Rightarrow> r = Ok (first_range parse (universe ks) key) \<and>
         (\<forall>i. r = Ok (Some i) \<longrightarrow> hm_get (key_to_full_range_id orc') (hex key) = Some i)
     | Some i \<Rightarrow> r = Ok (Some i) \<and> (\<exists>(ks', key') \<in> set lookups. hex key' = namespace ks @ ks_name ks @ hex key \<and>
         first_range parse (universe ks') key' = Some i)) \<and>
    (namespace ks @ ks_name ks @ hex key \<notin> range hex \<longrightarrow> r = Ok (first_range parse (universe ks) key))"
proof -
  have ok: "cache_ok hex parse universe lookups orc"
    using oracle_run_cache_ok [OF assms(1) _ assms(3)] assms(2) by (auto intro: inj_on_subset)
  show ?thesis
  proof (cases "hm_get (key_to_full_range_id orc) (namespace ks @ ks_name ks @ hex key)")
    case None
    obtain orc1 where "full_range_id_of_key hex parse (Ok (Some (universe ks))) ks key orc =
      ((case first_range parse (universe ks) key of
          Some i \<Rightarrow> orc1\<lparr>key_to_full_range_id := hm_insert (hex key) i (key_to_full_range_id orc1)\<rparr>
        | None \<Rightarrow> orc1), Ok (first_range parse (universe ks) key))"
      by (rule lookup_miss [OF ok assms(2) _ None]) (use assms(3) in auto)
    with None assms(4) show ?thesis by auto
  next
    case (Some i)
    with ok obtain ks' key' where k: "(ks', key') \<in> set lookups" "namespace ks @ ks_name ks @ hex key = hex key'"
        "first_range parse (universe ks') key' = Some i"
      unfolding cache_ok_def by blast
    with Some assms(4) lookup_hit [of orc ks hex key i] show ?thesis by auto
  qed
qed

text \<open>A hexadecimal encoding for examples.\<close>

definition wit_digit :: "nat \<Rightarrow> char" where
  "wit_digit n = ''0123456789abcdef'' ! n"

definition wit_hex :: "bytes \<Rightarrow> string" where
  "wit_hex bs = concat (map (\<lambda>b. [wit_digit (unat b div 16), wit_digit (unat b mod 16)]) bs)"

definition wit_ks :: "string \<Rightarrow> keyspace" where
  "wit_ks name = \<lparr>namespace = ''n'', ks_name = name\<rparr>"

definition wit_base_ranges :: keyspace_listing where
  "wit_base_ranges = \<lparr>kl_keyspace_id = ''111'', kl_base_key_ranges =
     [\<lparr>base_range_uuid = ''1'', proto_lower_bound_inclusive = [], proto_upper_bound_exclusive = [5]\<rparr>,
      \<lparr>base_range_uuid = ''11'', proto_lower_bound_inclusive = [5], proto_upper_bound_exclusive = []\<rparr>]\<rparr>"

lemma wit_digit_in: "n < 16 \<Longrightarrow> wit_digit n \<in> set ''0123456789abcdef''"
  unfolding wit_digit_def by (rule nth_mem) simp

lemma wit_hex_chars: "c \<in> set (wit_hex bs) \<Longrightarrow> c \<in> set ''0123456789abcdef''"
proof (induction bs)
  case (Cons b bs)
  have "unat b < 2 ^ LENGTH(8)" by (rule unsigned_less)
  then have b: "unat b div 16 < 16" "unat b mod 16 < 16" by simp_all
  have "wit_hex (b # bs) = wit_digit (unat b div 16) # wit_digit (unat b mod 16) # wit_hex bs"
    by (simp add: wit_hex_def)
  then consider "c = wit_digit (unat b div 16)" | "c = wit_digit (unat b mod 16)" | "c \<in> set (wit_hex bs)"
    using Cons.prems by auto
  then show ?case using wit_digit_in [OF b(1)] wit_digit_in [OF b(2)] Cons.IH by cases blast+
qed (simp add: wit_hex_def)

lemma wit_not_hex: "CHR ''n'' # s \<noteq> wit_hex bs"
proof
  assume "CHR ''n'' # s = wit_hex bs"
  then have "CHR ''n'' \<in> set (wit_hex bs)" by (metis list.set_intros(1))
  from wit_hex_chars [OF this] show False by simp
qed

definition wit_universe :: "keyspace \<Rightarrow> keyspace_listing" where
  "wit_universe ks = (if ks_name ks = ''02'' then wit_base_ranges\<lparr>kl_keyspace_id := ''1''\<rparr> else wit_base_ranges)"

definition wit_looked_up :: range_assignment_oracle where
  "wit_looked_up = fst (full_range_id_of_key wit_hex wit_read (Ok (Some wit_base_ranges)) (wit_ks ''k'') [1, 2, 4] oracle_new)"

lemma wit_looked_up_run: "oracle_run wit_hex wit_read wit_universe [(wit_ks ''k'', [1, 2, 4])] wit_looked_up"
  using oracle_run.Lookup [OF oracle_run.New, of wit_hex wit_read wit_universe "wit_ks ''k''" "[1, 2, 4]"]
  by (simp add: wit_looked_up_def wit_universe_def wit_ks_def)

text \<open>
  Another keyspace with ordinary names gets its own range; the keyspace with the names \<open>01\<close> and \<open>02\<close> gets
  the range that was found in the first lookup.
\<close>

theorem oracle_finds_first_range_witness:
  "snd (full_range_id_of_key wit_hex wit_read (Ok (Some (wit_universe (wit_ks ''l'')))) (wit_ks ''l'') [4] wit_looked_up) =
     Ok (Some \<lparr>keyspace_id = 3, range_id = 1\<rparr>) \<and>
   (let ks = \<lparr>namespace = ''01'', ks_name = ''02''\<rparr>
    in first_range wit_read (wit_universe ks) [4] = Some \<lparr>keyspace_id = 1, range_id = 1\<rparr> \<and>
       snd (full_range_id_of_key wit_hex wit_read (Ok (Some (wit_universe ks))) ks [4] wit_looked_up) =
         Ok (Some \<lparr>keyspace_id = 3, range_id = 1\<rparr>))"
proof -
  have ids: "\<forall>ks. ids_parse wit_read (wit_universe ks)"
    by (simp add: ids_parse_def wit_universe_def wit_read_def wit_base_ranges_def)
  have l: "inj_on (\<lambda>ks. namespace ks @ ks_name ks) (insert (wit_ks ''l'') (fst ` set [(wit_ks ''k'', [1, 2, 4])]))"
    "inj_on (\<lambda>ks. namespace ks @ ks_name ks)
       (insert \<lparr>namespace = ''01'', ks_name = ''02''\<rparr> (fst ` set [(wit_ks ''k'', [1, 2, 4 :: u8])]))"
    by (auto simp: inj_on_def wit_ks_def)
  have n: "namespace (wit_ks ''l'') @ ks_name (wit_ks ''l'') @ wit_hex [4] \<notin> range wit_hex"
    using wit_not_hex by (auto simp: wit_ks_def)
  have f: "first_range wit_read (wit_universe (wit_ks ''l'')) [4] = Some \<lparr>keyspace_id = 3, range_id = 1\<rparr>"
    "first_range wit_read (wit_universe \<lparr>namespace = ''01'', ks_name = ''02''\<rparr>) [4] = Some \<lparr>keyspace_id = 1, range_id = 1\<rparr>"
    "hm_get (key_to_full_range_id wit_looked_up) (''01'' @ ''02'' @ wit_hex [4]) = Some \<lparr>keyspace_id = 3, range_id = 1\<rparr>"
    by code_simp+
  show ?thesis
    using oracle_finds_first_range [OF wit_looked_up_run l(1) ids prod.collapse [symmetric], THEN conjunct2] n f
      oracle_finds_first_range [OF wit_looked_up_run l(2) ids prod.collapse [symmetric], THEN conjunct1, of "[4]"]
    by (simp add: Let_def)
qed

text \<open>
  The oracle can send a key of one keyspace to a range of another. The cache is filled under the
  encoded key alone and read under the names of the keyspace followed by the encoded key: if the names
  happen to be hexadecimal digits, a key that was looked up in another keyspace answers for them,
  whatever the universe service says about this keyspace. The encoding is assumed to encode byte by
  byte.
\<close>

theorem oracle_confuses_keyspaces:
  assumes "\<And>a b. hex (a @ b) = hex a @ hex b" and "namespace ks @ ks_name ks = hex prefix"
    and "search_keyspace parse info (prefix @ key) = Ok (Some i)"
    and "full_range_id_of_key hex parse (Ok (Some info)) ks' (prefix @ key) oracle_new = (orc, r)"
  shows "r = Ok (Some i) \<and> full_range_id_of_key hex parse answer ks key orc = (orc, Ok (Some i))"
proof -
  have "r = Ok (Some i)" and c: "hm_get (key_to_full_range_id orc) (hex (prefix @ key)) = Some i"
    using assms(3,4) by (auto simp: full_range_id_of_key_def Let_def oracle_new_def)
  moreover have "namespace ks @ ks_name ks @ hex key = hex (prefix @ key)"
    using assms(1,2) by (metis append.assoc)
  with c have "full_range_id_of_key hex parse answer ks key orc = (orc, Ok (Some i))"
    by (simp add: full_range_id_of_key_def Let_def)
  ultimately show ?thesis by simp
qed

theorem oracle_confuses_keyspaces_witness:
  "snd (full_range_id_of_key wit_hex wit_read (Err ''no such keyspace'') \<lparr>namespace = ''01'', ks_name = ''02''\<rparr> [7]
     (fst (full_range_id_of_key wit_hex wit_read (Ok (Some wit_base_ranges)) (wit_ks ''k'') [1, 2, 7] oracle_new))) =
     Ok (Some \<lparr>keyspace_id = 3, range_id = 1\<rparr>)"
proof -
  have h: "wit_hex (a @ b) = wit_hex a @ wit_hex b" for a b
    by (simp add: wit_hex_def)
  have n: "namespace \<lparr>namespace = ''01'', ks_name = ''02''\<rparr> @ ks_name \<lparr>namespace = ''01'', ks_name = ''02''\<rparr> = wit_hex [1, 2]"
    by code_simp
  have s: "search_keyspace wit_read wit_base_ranges ([1, 2] @ [7]) = Ok (Some \<lparr>keyspace_id = 3, range_id = 1\<rparr>)"
    by code_simp
  from oracle_confuses_keyspaces [where hex = wit_hex, OF h n s prod.collapse [symmetric], of "wit_ks ''k''"]
  show ?thesis by simp
qed

section \<open>Unbounded ranges\<close>

lemma from_proto_included:
  assumes "kr_includes (key_range_from_proto q) key"
  shows "proto_upper_bound_exclusive q \<noteq> []" and "kr_includes (warden_key_range q) key"
  using assms by (auto simp: kr_includes_def key_range_from_proto_def warden_key_range_def)

lemma find_range_None:
  "(\<And>q. q \<in> set ps \<Longrightarrow> \<not> kr_includes (key_range_from_proto q) key) \<Longrightarrow> find_range parse k key ps = Ok None"
  by (induction ps) auto

text \<open>
  A key of a range without an upper bound is not found. The warden takes an empty upper bound of a
  range for an unbounded one and assigns the range to a server, but the oracle takes it for a bound
  below every key. A key that belongs to such a range and to no other one has no range for the
  oracle, and a transaction that reads, writes or deletes it is told that its keyspace does not exist.
\<close>

theorem unbounded_range_is_unroutable:
  assumes "p \<in> set (kl_base_key_ranges info)" and "proto_upper_bound_exclusive p = []"
    and "kr_includes (warden_key_range p) key"
    and "\<forall>q\<in>set (kl_base_key_ranges info). q \<noteq> p \<longrightarrow> \<not> kr_includes (warden_key_range q) key"
    and "parse (kl_keyspace_id info) = Some k"
    and "\<And>ks key. lookup ks key =
      (case snd (full_range_id_of_key hex parse (Ok (Some info)) ks key oracle_new) of Ok i \<Rightarrow> i | _ \<Rightarrow> None)"
    and "t_state tx = Running"
  shows "search_keyspace parse info key = Ok None \<and>
    snd (snd (tx_get lookup answer abort_answer ks key tx)) = Err KeyspaceDoesNotExist \<and>
    snd (snd (tx_put lookup ks key val tx)) = Err KeyspaceDoesNotExist \<and>
    snd (snd (tx_del lookup ks key tx)) = Err KeyspaceDoesNotExist"
proof -
  have "\<not> kr_includes (key_range_from_proto q) key" if "q \<in> set (kl_base_key_ranges info)" for q
    using from_proto_included [of q key] assms(2,4) that by (cases "q = p") blast+
  then have "find_range parse k key (kl_base_key_ranges info) = Ok None"
    by (simp add: find_range_None)
  then have s: "search_keyspace parse info key = Ok None"
    by (simp add: search_keyspace_def assms(5))
  then have "snd (full_range_id_of_key hex parse (Ok (Some info)) ks key oracle_new) = Ok None"
    by (simp add: full_range_id_of_key_def Let_def oracle_new_def)
  then have "lookup ks key = None"
    by (subst assms(6)) simp
  with s assms(7) show ?thesis
    by (simp add: tx_get_def tx_put_def tx_del_def check_still_running_def resolve_full_record_key_def)
qed

theorem unbounded_range_is_unroutable_witness:
  "kr_includes (warden_key_range (kl_base_key_ranges wit_base_ranges ! 1)) [9] \<and>
   snd (snd (tx_put (\<lambda>ks key. case snd (full_range_id_of_key wit_hex wit_read (Ok (Some wit_base_ranges)) ks key oracle_new)
     of Ok i \<Rightarrow> i | _ \<Rightarrow> None) (wit_ks ''k'') [9] [1] (transaction_new wit_client_info Traditional (wit_ks ''k'')))) =
   Err KeyspaceDoesNotExist"
proof -
  let ?p = "\<lparr>base_range_uuid = ''11'', proto_lower_bound_inclusive = [5], proto_upper_bound_exclusive = []\<rparr>"
  have "?p \<in> set (kl_base_key_ranges wit_base_ranges)" "proto_upper_bound_exclusive ?p = []"
    "wit_read (kl_keyspace_id wit_base_ranges) = Some 3"
    "t_state (transaction_new wit_client_info Traditional (wit_ks ''k'')) = Running"
    by (simp_all add: wit_base_ranges_def wit_read_def transaction_new_def)
  moreover have i: "kr_includes (warden_key_range ?p) [9]" by code_simp
  moreover have "\<forall>q\<in>set (kl_base_key_ranges wit_base_ranges). q \<noteq> ?p \<longrightarrow> \<not> kr_includes (warden_key_range q) [9]"
    by code_simp
  ultimately show ?thesis
    using unbounded_range_is_unroutable [of ?p wit_base_ranges "[9]" wit_read 3 _ wit_hex
        "transaction_new wit_client_info Traditional (wit_ks ''k'')", OF _ _ _ _ _ refl]
    by (simp add: wit_base_ranges_def)
qed

section \<open>Ranges that are not loaded\<close>

lemma get_range_client_ok: "\<exists>clients' c. get_range_client i clients = (clients', Ok c)"
  by (auto simp: get_range_client_def host_of_range_def Let_def split: option.split)

lemma routed_not_loaded:
  assumes "\<And>addr. \<exists>net'. call (send addr) net = (net', Err RangeIsNotLoaded)"
  shows "snd (routed call send i (clients, net)) = Panic"
proof -
  obtain clients' c where c: "get_range_client i clients = (clients', Ok c)"
    using get_range_client_ok by blast
  obtain net' where "call (send (hi_address (rc_host_info c))) net = (net', Err RangeIsNotLoaded)"
    using assms by blast
  with c show ?thesis
    by (simp add: routed_def handle_rangeserver_err_def maybe_refresh_host_of_range_def)
qed

lemma stuck_calls:
  assumes "stuck (range_manager_ops cfg so wo wal_of s0 env) (range_id i) sv"
  shows "\<exists>sv'. local_get (range_manager_ops cfg so wo wal_of s0 env) now t timeout i keys sv = (sv', Err RangeIsNotLoaded)"
    and "\<exists>sv'. local_call (range_manager_ops cfg so wo wal_of s0 env) t i call sv = (sv', Err RangeIsNotLoaded)"
    and "\<exists>sv'. local_commit (range_manager_ops cfg so wo wal_of s0 env) ts i req sv = (sv', Err RangeIsNotLoaded)"
  using manager_loads.stuck_load [OF manager_loads.stuck.start [OF assms, of now t "Some timeout"] refl]
    manager_loads.stuck_load [OF assms refl]
  by (auto simp: local_get_def local_call_def local_commit_def)

text \<open>
  C39: When a range is not loaded, the coordinator panics instead of failing. A server with a range
  whose load has failed answers every get, prepare, abort and commit for it with the error that the
  range is not loaded; the client of the coordinator then asks the oracle to look the host up again,
  which is not implemented.
\<close>

theorem unloaded_range_panics_coordinator:
  assumes "flatbuf_ok fb" and "\<And>x. from_le (to_le x) = x"
    and "stuck (range_manager_ops cfg so wo wal_of s0 env) (range_id i) sv"
    and "\<And>addr. send addr = network_turn fb to_le from_le (range_manager_ops cfg so wo wal_of s0 env) now True"
  shows "snd (routed_get fb to_le from_le send req_id tx i keys (clients, sv)) = Panic \<and>
    snd (routed_prepare_transaction fb to_le from_le send req_id tx i reads writes dels load n (clients, sv)) = Panic \<and>
    snd (routed_abort_transaction fb to_le send req_id tx i (clients, sv)) = Panic \<and>
    snd (routed_commit_transactions fb to_le send req_id ts i epoch (clients, sv)) = Panic"
proof -
  note s = stuck_calls [OF assms(3)]
  have "\<exists>sv'. client_get fb to_le from_le (send addr) req_id tx i keys sv = (sv', Err RangeIsNotLoaded)" for addr
    using s(1) [of now "ti_id tx" "of_nat (overall_timeout tx div 1000)" keys]
    by (auto simp: assms(4) remote_get [of fb from_le to_le, OF assms(1,2)] client_view_get_def)
  moreover have "\<exists>sv'. client_prepare_transaction fb to_le from_le (send addr) req_id tx i reads writes dels load n sv =
      (sv', Err RangeIsNotLoaded)" for addr
    using s(2) [of "ti_id tx" "\<lambda>info. rmo_prepare (range_manager_ops cfg so wo wal_of s0 env) info
        (client_prepare_request to_le req_id (ti_id tx) i reads writes dels load n)"]
    by (auto simp: assms(4) remote_prepare [of fb from_le to_le, OF assms(1,2)] client_view_prepare_def)
  moreover have "\<exists>sv'. client_abort_transaction fb to_le (send addr) req_id tx i sv = (sv', Err RangeIsNotLoaded)" for addr
    unfolding assms(4) remote_abort [of fb from_le to_le, OF assms(1,2)]
    using s(2) [of "ti_id tx"] by (metis (no_types, lifting) case_prod_conv map_err.simps(2) wire_view.simps(6))
  moreover have "\<exists>sv'. client_commit_transactions fb to_le (send addr) req_id ts i epoch sv =
      (sv', Err RangeIsNotLoaded)" for addr
    unfolding assms(4) remote_commit [of fb from_le to_le, OF assms(1,2)]
    using s(3) [of ts] by (metis (no_types, lifting) case_prod_conv map_err.simps(2) wire_view.simps(6))
  ultimately show ?thesis
    unfolding routed_get_def routed_prepare_transaction_def routed_abort_transaction_def routed_commit_transactions_def
    by (intro conjI routed_not_loaded)
qed

definition wit_failed :: "((bool, unit) range_manager, bool) server" where
  "wit_failed = fst (maybe_load_and_get_range (wit_ops wit_env) wit_assigned_range (wit_sv False))"

lemma wit_failed_stuck: "stuck (wit_ops wit_env) (range_id wit_assigned_range) wit_failed"
  by (simp add: wit_failed_def maybe_load_and_get_range_def maybe_load_and_get_range_inner_def load_fast_path_def
      load_slow_path_def call_manager_def put_manager_def hm_contains_def range_manager_ops_def on_storage_def load_call_def
      load_enter_def rm_new_def load_finish_def load_inner_def num_epochs_per_lease_def wit_config_def wit_storage_def
      wit_sv_def server_new_def is_assigned_def Let_def stuck_def is_unloaded_def wit_env_def)

theorem unloaded_range_panics_coordinator_witness:
  "snd (routed_get table_flatbuf (\<lambda>x. x) (\<lambda>x. x)
     (\<lambda>_. network_turn table_flatbuf (\<lambda>x. x) (\<lambda>x. x) (wit_ops wit_env) 0 True) 7 wit_client_info wit_assigned_range [[1]]
     ([], wit_failed)) = Panic"
  by (rule unloaded_range_panics_coordinator [where to_le = "\<lambda>x. x" and from_le = "\<lambda>x. x",
      OF table_flatbuf_ok refl wit_failed_stuck refl, THEN conjunct1])

end
