(* ===== verification/Universe.thy ===== *)
theory Universe
  imports Cql Region Range_Routing
begin

text \<open>
  The universe service, which keeps the keyspaces (\<open>universe/src/server.rs\<close>, \<open>universe/src/storage.rs\<close>,
  \<open>universe/src/storage/cassandra.rs\<close>). The database session is a parameter (theory \<open>Cql\<close>) and so are
  the parsing and printing of identifiers; \<open>uni_exec\<close> is the meaning of the statements' text. Fresh
  identifiers are arguments.
\<close>

section \<open>Data\<close>

datatype universe_error =
  UniverseTimeout | UniverseKeyspaceAlreadyExists | UniverseInternalError "string option" | UniverseKeyspaceDoesNotExist

datatype keyspace_info_search_field = Search_Keyspace string string | Search_KeyspaceId string

record keyspace_info =
  ki_keyspace_id :: string
  ki_namespace :: string
  ki_name :: string
  ki_primary_zone :: "proto_zone option"
  ki_base_key_ranges :: "proto_key_range list"

record create_keyspace_request =
  ckr_namespace :: string
  ckr_name :: string
  ckr_primary_zone :: "proto_zone option"
  ckr_base_key_ranges :: "(bytes \<times> bytes) list"

record serialized_region =
  sr_name :: string
  sr_cloud :: "string option"

record serialized_zone =
  sz_region :: "serialized_region option"
  sz_name :: string

record serialized_key_range =
  sk_base_range_uuid :: uuid
  sk_lower_bound_inclusive :: "bytes option"
  sk_upper_bound_exclusive :: "bytes option"

record serialized_keyspace_info =
  ski_keyspace_id :: uuid
  ski_name :: string
  ski_namespace :: string
  ski_primary_zone :: serialized_zone
  ski_base_key_ranges :: "serialized_key_range list"

section \<open>Conversions\<close>

text \<open>\<open>Cloud::try_from\<close> and \<open>as_str_name\<close> of the generated enumeration (\<open>proto/src/universe.proto\<close>).\<close>

definition cloud_name :: "nat \<Rightarrow> string option" where
  "cloud_name n = (if n = 0 then Some ''AWS'' else if n = 1 then Some ''AZURE'' else if n = 2 then Some ''GCP'' else None)"

definition serialize_cloud :: "proto_cloud \<Rightarrow> string option" where
  "serialize_cloud c = (case c of PublicCloud n \<Rightarrow> cloud_name n | OtherCloud other \<Rightarrow> Some other)"

text \<open>\<open>None\<close> is a panic: an unknown cloud or an identifier that does not parse.\<close>

fun serialize_region :: "proto_region \<Rightarrow> serialized_region option" where
  "serialize_region r =
     (case pr_cloud r of
        None \<Rightarrow> Some \<lparr>sr_name = pr_name r, sr_cloud = None\<rparr>
      | Some c \<Rightarrow>
          (case serialize_cloud c of
             None \<Rightarrow> None
           | Some s \<Rightarrow> Some \<lparr>sr_name = pr_name r, sr_cloud = Some s\<rparr>))"

definition serialize_zone :: "proto_zone \<Rightarrow> serialized_zone option" where
  "serialize_zone z =
     (case pz_region z of
        None \<Rightarrow> Some \<lparr>sz_region = None, sz_name = pz_name z\<rparr>
      | Some r \<Rightarrow>
          (case serialize_region r of
             None \<Rightarrow> None
           | Some r \<Rightarrow> Some \<lparr>sz_region = Some r, sz_name = pz_name z\<rparr>))"

fun serialize_ranges :: "(string \<Rightarrow> uuid option) \<Rightarrow> proto_key_range list \<Rightarrow> serialized_key_range list option" where
  "serialize_ranges parse [] = Some []"
| "serialize_ranges parse (p # ps) =
     (case parse (base_range_uuid p) of
        None \<Rightarrow> None
      | Some u \<Rightarrow>
          map_option ((#) \<lparr>sk_base_range_uuid = u, sk_lower_bound_inclusive = Some (proto_lower_bound_inclusive p),
            sk_upper_bound_exclusive = Some (proto_upper_bound_exclusive p)\<rparr>) (serialize_ranges parse ps))"

definition construct_from_parts ::
    "(string \<Rightarrow> uuid option) \<Rightarrow> uuid \<Rightarrow> string \<Rightarrow> string \<Rightarrow> proto_zone \<Rightarrow> proto_key_range list \<Rightarrow>
     serialized_keyspace_info option" where
  "construct_from_parts parse kid name ns primary_zone base_key_range_requests =
     (case serialize_zone primary_zone of
        None \<Rightarrow> None
      | Some z \<Rightarrow>
          (case serialize_ranges parse base_key_range_requests of
             None \<Rightarrow> None
           | Some rs \<Rightarrow>
               Some \<lparr>ski_keyspace_id = kid, ski_name = name, ski_namespace = ns, ski_primary_zone = z,
                     ski_base_key_ranges = rs\<rparr>))"

definition deserialize_cloud :: "string \<Rightarrow> proto_cloud" where
  "deserialize_cloud s =
     (if s = ''AWS'' then PublicCloud 0 else if s = ''AZURE'' then PublicCloud 1
      else if s = ''GCP'' then PublicCloud 2 else OtherCloud s)"

definition read_range :: "(uuid \<Rightarrow> string) \<Rightarrow> serialized_key_range \<Rightarrow> proto_key_range" where
  "read_range show_uuid r =
     \<lparr>base_range_uuid = show_uuid (sk_base_range_uuid r),
      proto_lower_bound_inclusive = (case sk_lower_bound_inclusive r of Some b \<Rightarrow> b | None \<Rightarrow> []),
      proto_upper_bound_exclusive = (case sk_upper_bound_exclusive r of Some b \<Rightarrow> b | None \<Rightarrow> [])\<rparr>"

definition into_keyspace_info :: "(uuid \<Rightarrow> string) \<Rightarrow> serialized_keyspace_info \<Rightarrow> keyspace_info" where
  "into_keyspace_info show_uuid s =
     \<lparr>ki_keyspace_id = show_uuid (ski_keyspace_id s), ki_namespace = ski_namespace s, ki_name = ski_name s,
      ki_primary_zone = Some
        \<lparr>pz_region = map_option (\<lambda>r. \<lparr>pr_cloud = map_option deserialize_cloud (sr_cloud r), pr_name = sr_name r\<rparr>)
           (sz_region (ski_primary_zone s)),
         pz_name = sz_name (ski_primary_zone s)\<rparr>,
      ki_base_key_ranges = map (read_range show_uuid) (ski_base_key_ranges s)\<rparr>"

section \<open>Statements\<close>

text \<open>The rows of the table \<open>keyspaces\<close>, whose primary key is the namespace and the name.\<close>

datatype uni_query =
  CREATE_KEYSPACE_QUERY serialized_keyspace_info
| LIST_KEYSPACES_QUERY
| GET_KEYSPACE_INFO_BY_KEYSPACE_QUERY string string
| GET_KEYSPACE_INFO_BY_KEYSPACE_ID_QUERY uuid

datatype uni_result = Uni_Applied bool | Uni_Rows "serialized_keyspace_info list"

definition same_keyspace :: "string \<Rightarrow> string \<Rightarrow> serialized_keyspace_info \<Rightarrow> bool" where
  "same_keyspace ns name s \<longleftrightarrow> ski_namespace s = ns \<and> ski_name s = name"

fun uni_exec :: "uni_query \<Rightarrow> serialized_keyspace_info list \<Rightarrow> uni_result \<times> serialized_keyspace_info list" where
  "uni_exec (CREATE_KEYSPACE_QUERY s) rows =
     (if \<exists>s' \<in> set rows. same_keyspace (ski_namespace s) (ski_name s) s' then (Uni_Applied False, rows)
      else (Uni_Applied True, rows @ [s]))"
| "uni_exec LIST_KEYSPACES_QUERY rows = (Uni_Rows rows, rows)"
| "uni_exec (GET_KEYSPACE_INFO_BY_KEYSPACE_QUERY ns name) rows = (Uni_Rows (filter (same_keyspace ns name) rows), rows)"
| "uni_exec (GET_KEYSPACE_INFO_BY_KEYSPACE_ID_QUERY k) rows = (Uni_Rows (filter (\<lambda>s. ski_keyspace_id s = k) rows), rows)"

text \<open>Batches are not used.\<close>

definition uni_batch :: "uni_query list \<Rightarrow> serialized_keyspace_info list \<Rightarrow> serialized_keyspace_info list" where
  "uni_batch qs rows = fold (\<lambda>q rows. snd (uni_exec q rows)) qs rows"

type_synonym 'db uni_session = "(uni_query, uni_result, 'db) cql_session"

text \<open>\<open>into_typed\<close>: the database has no empty lists, and a row without ranges cannot be read.\<close>

definition into_typed :: "serialized_keyspace_info \<Rightarrow> serialized_keyspace_info option" where
  "into_typed s = (if ski_base_key_ranges s = [] then None else Some s)"

section \<open>Storage\<close>

fun scylla_query_error_to_universe_error :: "query_error \<Rightarrow> universe_error" where
  "scylla_query_error_to_universe_error TimeoutError = UniverseTimeout"
| "scylla_query_error_to_universe_error DbWriteTimeout = UniverseTimeout"
| "scylla_query_error_to_universe_error (OtherQueryError e) = UniverseInternalError (Some e)"

definition storage_create_keyspace ::
    "'db uni_session \<Rightarrow> (string \<Rightarrow> uuid option) \<Rightarrow> string \<Rightarrow> string \<Rightarrow> string \<Rightarrow> proto_zone \<Rightarrow> proto_key_range list \<Rightarrow>
     'db \<Rightarrow> 'db \<times> (universe_error, string) outcome" where
  "storage_create_keyspace query parse kid name ns primary_zone base_key_ranges db =
     (case parse kid of
        None \<Rightarrow> (db, Panic)
      | Some k \<Rightarrow>
          (case construct_from_parts parse k name ns primary_zone base_key_ranges of
             None \<Rightarrow> (db, Panic)
           | Some serialized_info \<Rightarrow>
               (case query (CREATE_KEYSPACE_QUERY serialized_info) db of
                  (db, r) \<Rightarrow>
                    (db, try_ok (map_err scylla_query_error_to_universe_error r) (\<lambda>res.
                       case res of
                         Uni_Applied insert_succeeded \<Rightarrow>
                           if insert_succeeded then Ok kid else Err UniverseKeyspaceAlreadyExists
                       | Uni_Rows _ \<Rightarrow> Panic)))))"

fun read_rows :: "(uuid \<Rightarrow> string) \<Rightarrow> serialized_keyspace_info list \<Rightarrow> (universe_error, keyspace_info list) outcome" where
  "read_rows show_uuid [] = Ok []"
| "read_rows show_uuid (s # rows) =
     (case into_typed s of
        None \<Rightarrow> Err (UniverseInternalError (Some ''row''))
      | Some s \<Rightarrow> try_ok (read_rows show_uuid rows) (\<lambda>infos. Ok (into_keyspace_info show_uuid s # infos)))"

definition rows_of :: "uni_result \<Rightarrow> serialized_keyspace_info list" where
  "rows_of r = (case r of Uni_Rows rows \<Rightarrow> rows | Uni_Applied _ \<Rightarrow> [])"

definition storage_list_keyspaces ::
    "'db uni_session \<Rightarrow> (uuid \<Rightarrow> string) \<Rightarrow> proto_region option \<Rightarrow> 'db \<Rightarrow> 'db \<times> (universe_error, keyspace_info list) outcome" where
  "storage_list_keyspaces query show_uuid region db =
     (case query LIST_KEYSPACES_QUERY db of
        (db, r) \<Rightarrow>
          (db, try_ok (map_err scylla_query_error_to_universe_error r) (\<lambda>res.
             try_ok (read_rows show_uuid (rows_of res)) (\<lambda>keyspaces.
               Ok (case region of
                     None \<Rightarrow> keyspaces
                   | Some filter_region \<Rightarrow>
                       filter (\<lambda>k. Option.bind (ki_primary_zone k) pz_region = Some filter_region) keyspaces)))))"

definition storage_get_keyspace_info ::
    "'db uni_session \<Rightarrow> (uuid \<Rightarrow> string) \<Rightarrow> (string \<Rightarrow> uuid option) \<Rightarrow> keyspace_info_search_field \<Rightarrow> 'db \<Rightarrow>
     'db \<times> (universe_error, keyspace_info) outcome" where
  "storage_get_keyspace_info query show_uuid parse field db =
     (let answer = (\<lambda>(db, r). (db, try_ok (map_err scylla_query_error_to_universe_error r) (\<lambda>res.
            case rows_of res of
              [] \<Rightarrow> Err UniverseKeyspaceDoesNotExist
            | first_row # _ \<Rightarrow>
                (case into_typed first_row of None \<Rightarrow> Panic | Some s \<Rightarrow> Ok (into_keyspace_info show_uuid s)))))
      in case field of
           Search_Keyspace ns name \<Rightarrow> answer (query (GET_KEYSPACE_INFO_BY_KEYSPACE_QUERY ns name) db)
         | Search_KeyspaceId k \<Rightarrow>
             (case parse k of
                None \<Rightarrow> (db, Panic)
              | Some k \<Rightarrow> answer (query (GET_KEYSPACE_INFO_BY_KEYSPACE_ID_QUERY k) db)))"

section \<open>Server\<close>

text \<open>\<open>k\<close> is the new keyspace's identifier and \<open>us\<close> are those of its ranges: one for each, and one at least.\<close>

definition requested_ranges :: "(uuid \<Rightarrow> string) \<Rightarrow> uuid list \<Rightarrow> (bytes \<times> bytes) list \<Rightarrow> proto_key_range list" where
  "requested_ranges show_uuid us requested =
     (let base_key_ranges = map2 (\<lambda>u kr. \<lparr>base_range_uuid = show_uuid u, proto_lower_bound_inclusive = fst kr,
            proto_upper_bound_exclusive = snd kr\<rparr>) us requested
      in if requested = [] then [\<lparr>base_range_uuid = show_uuid (hd us), proto_lower_bound_inclusive = [],
                                   proto_upper_bound_exclusive = []\<rparr>]
         else base_key_ranges)"

fun universe_error_text :: "universe_error \<Rightarrow> string" where
  "universe_error_text UniverseTimeout = ''Timeout Error''"
| "universe_error_text UniverseKeyspaceAlreadyExists = ''Keyspace already exists''"
| "universe_error_text (UniverseInternalError e) =
     ''Storage Layer error: '' @ (case e of Some e \<Rightarrow> e | None \<Rightarrow> ''Unknown error'')"
| "universe_error_text UniverseKeyspaceDoesNotExist = ''Keyspace does not exist''"

definition universe_create_keyspace ::
    "'db uni_session \<Rightarrow> (uuid \<Rightarrow> string) \<Rightarrow> (string \<Rightarrow> uuid option) \<Rightarrow> uuid \<Rightarrow> uuid list \<Rightarrow> create_keyspace_request \<Rightarrow>
     'db \<Rightarrow> 'db \<times> (string, string) outcome" where
  "universe_create_keyspace query show_uuid parse k us req db =
     (case ckr_primary_zone req of
        None \<Rightarrow> (db, Panic)
      | Some primary_zone \<Rightarrow>
          (case storage_create_keyspace query parse (show_uuid k) (ckr_name req) (ckr_namespace req) primary_zone
                  (requested_ranges show_uuid us (ckr_base_key_ranges req)) db of
             (db, r) \<Rightarrow> (db, map_err (\<lambda>e. ''Failed to create keyspace: '' @ universe_error_text e) r)))"

definition universe_list_keyspaces ::
    "'db uni_session \<Rightarrow> (uuid \<Rightarrow> string) \<Rightarrow> proto_region option \<Rightarrow> 'db \<Rightarrow> 'db \<times> (string, keyspace_info list) outcome" where
  "universe_list_keyspaces query show_uuid region db =
     (case storage_list_keyspaces query show_uuid region db of
        (db, r) \<Rightarrow> (db, map_err (\<lambda>e. ''Failed to list keyspaces: '' @ universe_error_text e) r))"

definition universe_get_keyspace_info ::
    "'db uni_session \<Rightarrow> (uuid \<Rightarrow> string) \<Rightarrow> (string \<Rightarrow> uuid option) \<Rightarrow> keyspace_info_search_field option \<Rightarrow> 'db \<Rightarrow>
     'db \<times> (string, keyspace_info) outcome" where
  "universe_get_keyspace_info query show_uuid parse field db =
     (case field of
        None \<Rightarrow> (db, Panic)
      | Some field \<Rightarrow>
          (case storage_get_keyspace_info query show_uuid parse field db of
             (db, r) \<Rightarrow> (db, map_err (\<lambda>e. ''Failed to get keyspace info: '' @ universe_error_text e) r)))"

section \<open>Keyspaces are read back\<close>

text \<open>
  The number of a public cloud is one of the enumeration, or the request panics. A cloud that is given by
  the name of a public cloud comes back as that public cloud.
\<close>

definition known_cloud :: "proto_cloud \<Rightarrow> bool" where
  "known_cloud c = (case c of PublicCloud n \<Rightarrow> n < 3 | OtherCloud _ \<Rightarrow> True)"

definition canonical_cloud :: "proto_cloud \<Rightarrow> proto_cloud" where
  "canonical_cloud c =
     (if c = OtherCloud ''AWS'' then PublicCloud 0 else if c = OtherCloud ''AZURE'' then PublicCloud 1
      else if c = OtherCloud ''GCP'' then PublicCloud 2 else c)"

definition zone_known :: "proto_zone \<Rightarrow> bool" where
  "zone_known z = pred_option (\<lambda>r. pred_option known_cloud (pr_cloud r)) (pz_region z)"

definition canonical_zone :: "proto_zone \<Rightarrow> proto_zone" where
  "canonical_zone z = z\<lparr>pz_region := map_option (\<lambda>r. r\<lparr>pr_cloud := map_option canonical_cloud (pr_cloud r)\<rparr>) (pz_region z)\<rparr>"

lemma serialize_cloud_read:
  "known_cloud c \<Longrightarrow> \<exists>s. serialize_cloud c = Some s \<and> deserialize_cloud s = canonical_cloud c"
  by (cases c) (auto simp: known_cloud_def canonical_cloud_def serialize_cloud_def deserialize_cloud_def cloud_name_def)

lemma serialize_zone_read:
  assumes "zone_known z"
  shows "\<exists>s. serialize_zone z = Some s \<and>
    \<lparr>pz_region = map_option (\<lambda>r. \<lparr>pr_cloud = map_option deserialize_cloud (sr_cloud r), pr_name = sr_name r\<rparr>) (sz_region s),
     pz_name = sz_name s\<rparr> = canonical_zone z"
proof (cases "pz_region z")
  case (Some r)
  show ?thesis
  proof (cases "pr_cloud r")
    case (Some c)
    with assms \<open>pz_region z = Some r\<close> obtain s where "serialize_cloud c = Some s" "deserialize_cloud s = canonical_cloud c"
      using serialize_cloud_read [of c] by (auto simp: zone_known_def)
    with Some \<open>pz_region z = Some r\<close> show ?thesis by (simp add: serialize_zone_def canonical_zone_def)
  qed (use Some in \<open>simp add: serialize_zone_def canonical_zone_def\<close>)
qed (simp add: serialize_zone_def canonical_zone_def)

lemma serialize_ranges_read:
  assumes "\<And>p. p \<in> set ps \<Longrightarrow> \<exists>u. parse (base_range_uuid p) = Some u \<and> show_uuid u = base_range_uuid p"
  shows "\<exists>rs. serialize_ranges parse ps = Some rs \<and> map (read_range show_uuid) rs = ps"
  using assms
proof (induction ps)
  case (Cons p ps)
  from Cons.prems [of p] obtain u where u: "parse (base_range_uuid p) = Some u" "show_uuid u = base_range_uuid p" by auto
  have "\<exists>rs. serialize_ranges parse ps = Some rs \<and> map (read_range show_uuid) rs = ps"
    by (rule Cons.IH) (rule Cons.prems, simp)
  with u show ?case by (auto simp: read_range_def)
qed simp

text \<open>What a new keyspace looks like to the clients of the service.\<close>

definition created_info :: "(uuid \<Rightarrow> string) \<Rightarrow> uuid \<Rightarrow> uuid list \<Rightarrow> create_keyspace_request \<Rightarrow> proto_zone \<Rightarrow> keyspace_info" where
  "created_info show_uuid k us req z =
     \<lparr>ki_keyspace_id = show_uuid k, ki_namespace = ckr_namespace req, ki_name = ckr_name req, ki_primary_zone = Some z,
      ki_base_key_ranges = requested_ranges show_uuid us (ckr_base_key_ranges req)\<rparr>"

lemma requested_ranges_ids:
  "p \<in> set (requested_ranges show_uuid us reqs) \<Longrightarrow> \<exists>u. base_range_uuid p = show_uuid u"
  by (auto simp: requested_ranges_def Let_def in_set_zip split: if_splits)

lemma requested_ranges_Nil: "requested_ranges show_uuid us reqs = [] \<longleftrightarrow> reqs \<noteq> [] \<and> us = []"
  by (cases reqs; cases us) (auto simp: requested_ranges_def)

lemma created_row:
  assumes "\<And>u. parse (show_uuid u) = Some u" and "zone_known z" and "us \<noteq> []"
  obtains s where "construct_from_parts parse k (ckr_name req) (ckr_namespace req) z
      (requested_ranges show_uuid us (ckr_base_key_ranges req)) = Some s"
    "ski_keyspace_id s = k" "same_keyspace (ckr_namespace req) (ckr_name req) s" "into_typed s = Some s"
    "into_keyspace_info show_uuid s = created_info show_uuid k us req (canonical_zone z)"
proof -
  let ?ps = "requested_ranges show_uuid us (ckr_base_key_ranges req)"
  obtain sz where z: "serialize_zone z = Some sz"
      "\<lparr>pz_region = map_option (\<lambda>r. \<lparr>pr_cloud = map_option deserialize_cloud (sr_cloud r), pr_name = sr_name r\<rparr>) (sz_region sz),
        pz_name = sz_name sz\<rparr> = canonical_zone z"
    using serialize_zone_read [OF assms(2)] by blast
  have "\<exists>u. parse (base_range_uuid p) = Some u \<and> show_uuid u = base_range_uuid p" if "p \<in> set ?ps" for p
    using requested_ranges_ids [OF that] assms(1) by auto
  from serialize_ranges_read [of ?ps, OF this] obtain rs where
    r: "serialize_ranges parse ?ps = Some rs" "map (read_range show_uuid) rs = ?ps" by blast
  have ne: "rs \<noteq> []"
    using r(2) assms(3) requested_ranges_Nil [of show_uuid us "ckr_base_key_ranges req"] by auto
  show ?thesis
    by (rule that [of "\<lparr>ski_keyspace_id = k, ski_name = ckr_name req, ski_namespace = ckr_namespace req,
        ski_primary_zone = sz, ski_base_key_ranges = rs\<rparr>"])
      (use z r ne in \<open>simp_all add: construct_from_parts_def same_keyspace_def into_typed_def into_keyspace_info_def
        created_info_def\<close>)
qed

lemma requested_ranges_bounds:
  assumes "length reqs \<le> length us" and "us \<noteq> []"
  shows "map (\<lambda>p. (proto_lower_bound_inclusive p, proto_upper_bound_exclusive p)) (requested_ranges show_uuid us reqs) =
      (if reqs = [] then [([], [])] else reqs)"
    and "map base_range_uuid (requested_ranges show_uuid us reqs) = map show_uuid (take (max 1 (length reqs)) us)"
proof -
  have "map (\<lambda>p. (proto_lower_bound_inclusive p, proto_upper_bound_exclusive p))
      (map2 (\<lambda>u kr. \<lparr>base_range_uuid = show_uuid u, proto_lower_bound_inclusive = fst kr,
        proto_upper_bound_exclusive = snd kr\<rparr>) us reqs) = reqs" if "length reqs \<le> length us"
    using that by (induction reqs us rule: list_induct2') auto
  then show "map (\<lambda>p. (proto_lower_bound_inclusive p, proto_upper_bound_exclusive p)) (requested_ranges show_uuid us reqs) =
      (if reqs = [] then [([], [])] else reqs)"
    using assms(1) by (simp add: requested_ranges_def)
  have "map base_range_uuid
      (map2 (\<lambda>u kr. \<lparr>base_range_uuid = show_uuid u, proto_lower_bound_inclusive = fst kr,
        proto_upper_bound_exclusive = snd kr\<rparr>) us reqs) = map show_uuid (take (length reqs) us)" if "length reqs \<le> length us"
    using that by (induction reqs us rule: list_induct2') auto
  with assms show "map base_range_uuid (requested_ranges show_uuid us reqs) = map show_uuid (take (max 1 (length reqs)) us)"
    by (cases us; cases reqs) (simp_all add: requested_ranges_def)
qed

text \<open>
  C19: A keyspace that was created is read back as it was asked for. On a database without errors,
  creating a keyspace under new names and a new identifier returns the identifier; the keyspace is
  then found by its names and by its identifier, with the requested names and, in the requested
  order, the bounds of the requested ranges (one range without bounds if none was requested) under the
  identifiers given to them; and a second keyspace of the same names is refused and changes nothing.
  The zone comes back as requested, except that a cloud given by the name of a public cloud comes
  back as that public cloud. Identifiers are assumed to be parsed back from what they are printed as,
  and the number of a public cloud in the request to be one of the protocol.
\<close>

theorem keyspace_roundtrip:
  assumes "serves uni_exec uni_batch query batch view" and "no_errors query batch"
    and "\<And>u. parse (show_uuid u) = Some u"
    and "ckr_primary_zone req = Some z" and "zone_known z" and "us \<noteq> []" and "us' \<noteq> []"
    and "\<not> (\<exists>s\<in>set (view db). same_keyspace (ckr_namespace req) (ckr_name req) s \<or> ski_keyspace_id s = k)"
    and "universe_create_keyspace query show_uuid parse k us req db = (db1, r1)"
    and "universe_create_keyspace query show_uuid parse k' us' req db1 = (db2, r2)"
    and "length (ckr_base_key_ranges req) \<le> length us"
  shows "r1 = Ok (show_uuid k) \<and>
    (\<exists>info.
      snd (universe_get_keyspace_info query show_uuid parse (Some (Search_Keyspace (ckr_namespace req) (ckr_name req))) db1) =
        Ok info \<and>
      snd (universe_get_keyspace_info query show_uuid parse (Some (Search_KeyspaceId (show_uuid k))) db1) = Ok info \<and>
      ki_keyspace_id info = show_uuid k \<and> ki_namespace info = ckr_namespace req \<and> ki_name info = ckr_name req \<and>
      ki_primary_zone info = Some (canonical_zone z) \<and>
      map (\<lambda>p. (proto_lower_bound_inclusive p, proto_upper_bound_exclusive p)) (ki_base_key_ranges info) =
        (if ckr_base_key_ranges req = [] then [([], [])] else ckr_base_key_ranges req) \<and>
      map base_range_uuid (ki_base_key_ranges info) =
        map show_uuid (take (max 1 (length (ckr_base_key_ranges req))) us)) \<and>
    r2 = Err ''Failed to create keyspace: Keyspace already exists'' \<and> view db2 = view db1"
proof -
  note q = serves_query_ok [OF assms(1,2)]
  obtain s where s: "construct_from_parts parse k (ckr_name req) (ckr_namespace req) z
      (requested_ranges show_uuid us (ckr_base_key_ranges req)) = Some s"
    "ski_keyspace_id s = k" "same_keyspace (ckr_namespace req) (ckr_name req) s" "into_typed s = Some s"
    "into_keyspace_info show_uuid s = created_info show_uuid k us req (canonical_zone z)"
    by (rule created_row [where parse = parse and show_uuid = show_uuid, OF assms(3,5,6)])
  obtain s' where s': "construct_from_parts parse k' (ckr_name req) (ckr_namespace req) z
      (requested_ranges show_uuid us' (ckr_base_key_ranges req)) = Some s'"
    "same_keyspace (ckr_namespace req) (ckr_name req) s'"
    by (rule created_row [where parse = parse and show_uuid = show_uuid, OF assms(3,5,7)])
  have n: "ski_namespace s = ckr_namespace req" "ski_name s = ckr_name req"
    "ski_namespace s' = ckr_namespace req" "ski_name s' = ckr_name req"
    using s(3) s'(2) by (simp_all add: same_keyspace_def)
  obtain d1 where d1: "query (CREATE_KEYSPACE_QUERY s) db = (d1, Ok (Uni_Applied True))" "view d1 = view db @ [s]"
    by (rule q [of "CREATE_KEYSPACE_QUERY s" db]) (use assms(8) n in auto)
  have r1: "db1 = d1" "r1 = Ok (show_uuid k)"
    using assms(3,4,9) s(1) d1(1) by (auto simp: universe_create_keyspace_def storage_create_keyspace_def)
  obtain d2 where d2: "query (CREATE_KEYSPACE_QUERY s') d1 = (d2, Ok (Uni_Applied False))" "view d2 = view d1"
    by (rule q [of "CREATE_KEYSPACE_QUERY s'" d1]) (use s(3) n d1(2) in auto)
  have r2: "db2 = d2" "r2 = Err ''Failed to create keyspace: Keyspace already exists''"
    using assms(3,4,10) s'(1) d2(1) r1(1) by (auto simp: universe_create_keyspace_def storage_create_keyspace_def)
  have rows: "filter (same_keyspace (ckr_namespace req) (ckr_name req)) (view db) = []"
    "filter (\<lambda>s. ski_keyspace_id s = k) (view db) = []"
    using assms(8) by (auto simp: filter_empty_conv)
  obtain d3 where d3: "query (GET_KEYSPACE_INFO_BY_KEYSPACE_QUERY (ckr_namespace req) (ckr_name req)) d1 = (d3, Ok (Uni_Rows [s]))"
    by (rule q [of "GET_KEYSPACE_INFO_BY_KEYSPACE_QUERY (ckr_namespace req) (ckr_name req)" d1])
      (use rows s(3) d1(2) in auto)
  obtain d4 where d4: "query (GET_KEYSPACE_INFO_BY_KEYSPACE_ID_QUERY k) d1 = (d4, Ok (Uni_Rows [s]))"
    by (rule q [of "GET_KEYSPACE_INFO_BY_KEYSPACE_ID_QUERY k" d1]) (use rows s(2) d1(2) in auto)
  have "snd (universe_get_keyspace_info query show_uuid parse (Some (Search_Keyspace (ckr_namespace req) (ckr_name req))) db1) =
        Ok (created_info show_uuid k us req (canonical_zone z))"
    "snd (universe_get_keyspace_info query show_uuid parse (Some (Search_KeyspaceId (show_uuid k))) db1) =
        Ok (created_info show_uuid k us req (canonical_zone z))"
    using r1(1) d3 d4 s(4,5) assms(3)
    by (simp_all add: universe_get_keyspace_info_def storage_get_keyspace_info_def rows_of_def)
  then show ?thesis
    using r1 r2 d2(2) requested_ranges_bounds [OF assms(11,6)] by (simp add: created_info_def)
qed

definition wit_request :: "(bytes \<times> bytes) list \<Rightarrow> create_keyspace_request" where
  "wit_request ranges = \<lparr>ckr_namespace = ''n'', ckr_name = ''k'',
     ckr_primary_zone = Some \<lparr>pz_region = Some \<lparr>pr_cloud = Some (PublicCloud 1), pr_name = ''r''\<rparr>, pz_name = ''a''\<rparr>,
     ckr_base_key_ranges = ranges\<rparr>"

theorem keyspace_roundtrip_witness:
  "\<exists>info. snd (universe_get_keyspace_info (rows_query uni_exec) wit_show wit_read (Some (Search_Keyspace ''n'' ''k''))
     (fst (universe_create_keyspace (rows_query uni_exec) wit_show wit_read 1 [2, 3] (wit_request [([], [5]), ([5], [9])]) []))) =
   Ok info \<and>
   map (\<lambda>p. (proto_lower_bound_inclusive p, proto_upper_bound_exclusive p)) (ki_base_key_ranges info) = [([], [5]), ([5], [9])] \<and>
   map base_range_uuid (ki_base_key_ranges info) = [''11'', ''111'']"
proof -
  have r: "wit_read (wit_show i) = Some i" for i
    by (simp add: wit_read_def wit_show_def)
  have z: "ckr_primary_zone (wit_request [([], [5]), ([5], [9])]) =
      Some \<lparr>pz_region = Some \<lparr>pr_cloud = Some (PublicCloud 1), pr_name = ''r''\<rparr>, pz_name = ''a''\<rparr>"
    "zone_known \<lparr>pz_region = Some \<lparr>pr_cloud = Some (PublicCloud 1), pr_name = ''r''\<rparr>, pz_name = ''a''\<rparr>"
    by (simp_all add: wit_request_def zone_known_def known_cloud_def)
  have n: "map wit_show [2, 3] = [''11'', ''111'']" by code_simp
  from keyspace_roundtrip [where parse = wit_read and show_uuid = wit_show and view = "\<lambda>rows. rows" and us = "[2, 3]"
        and us' = "[4, 5]" and db = "[]" and k = 1, OF rows_session_serves rows_session_no_errors r z _ _ _
        prod.collapse [symmetric] prod.collapse [symmetric], THEN conjunct2, THEN conjunct1] n
  show ?thesis by (auto simp: wit_request_def)
qed

section \<open>Keyspaces without ranges\<close>

definition listing_of :: "keyspace_info \<Rightarrow> keyspace_listing" where
  "listing_of info = \<lparr>kl_keyspace_id = ki_keyspace_id info, kl_base_key_ranges = ki_base_key_ranges info\<rparr>"

text \<open>
  C40: A keyspace that is created without ranges cannot be used. The service gives it one range
  without bounds, which is to hold every key and is what the warden makes of it, but the coordinator
  finds no range for any key of the keyspace, and every read, write and delete is told that the
  keyspace does not exist.
\<close>

theorem default_keyspace_is_unusable:
  assumes "\<And>u. parse (show_uuid u) = Some u" and "ckr_base_key_ranges req = []"
    and "\<And>ks key. lookup ks key =
      (case snd (full_range_id_of_key hex parse (Ok (Some (listing_of (created_info show_uuid k us req z)))) ks key oracle_new)
       of Ok i \<Rightarrow> i | _ \<Rightarrow> None)"
    and "t_state tx = Running"
  shows "length (ki_base_key_ranges (created_info show_uuid k us req z)) = 1 \<and>
    kr_includes (warden_key_range (hd (ki_base_key_ranges (created_info show_uuid k us req z)))) key \<and>
    snd (snd (tx_get lookup answer abort_answer ks key tx)) = Err KeyspaceDoesNotExist \<and>
    snd (snd (tx_put lookup ks key val tx)) = Err KeyspaceDoesNotExist \<and>
    snd (snd (tx_del lookup ks key tx)) = Err KeyspaceDoesNotExist"
proof -
  let ?p = "\<lparr>base_range_uuid = show_uuid (hd us), proto_lower_bound_inclusive = [], proto_upper_bound_exclusive = []\<rparr>"
  have rs: "ki_base_key_ranges (created_info show_uuid k us req z) = [?p]"
    by (simp add: created_info_def requested_ranges_def assms(2))
  have all: "kr_includes (warden_key_range ?p) key"
    by (simp add: warden_key_range_def kr_includes_def)
  have "p \<in> set (kl_base_key_ranges (listing_of (created_info show_uuid k us req z))) \<longleftrightarrow> p = ?p" for p
    by (simp add: listing_of_def rs)
  moreover have "parse (kl_keyspace_id (listing_of (created_info show_uuid k us req z))) = Some k"
    by (simp add: listing_of_def created_info_def assms(1))
  ultimately show ?thesis
    using unbounded_range_is_unroutable [of ?p "listing_of (created_info show_uuid k us req z)" key parse k lookup hex tx
        answer abort_answer ks val] assms(3,4) all rs by auto
qed

theorem default_keyspace_is_unusable_witness:
  "snd (snd (tx_put (\<lambda>ks key. case snd (full_range_id_of_key wit_hex wit_read
      (Ok (Some (listing_of (created_info wit_show 1 [2] (wit_request []) \<lparr>pz_region = None, pz_name = ''a''\<rparr>)))) ks key oracle_new)
      of Ok i \<Rightarrow> i | _ \<Rightarrow> None) (wit_ks ''k'') [9] [1] (transaction_new wit_client_info Traditional (wit_ks ''k'')))) =
   Err KeyspaceDoesNotExist"
proof -
  have r: "wit_read (wit_show i) = Some i" for i
    by (simp add: wit_read_def wit_show_def)
  have e: "ckr_base_key_ranges (wit_request []) = []"
    "t_state (transaction_new wit_client_info Traditional (wit_ks ''k'')) = Running"
    by (simp_all add: wit_request_def transaction_new_def)
  from default_keyspace_is_unusable [where parse = wit_read and show_uuid = wit_show, OF r e(1) refl e(2),
      THEN conjunct2, THEN conjunct2, THEN conjunct2, THEN conjunct1]
  show ?thesis by blast
qed

end
