(* ===== verification/Frontend.thy ===== *)
theory Frontend
  imports Transaction
begin

text \<open>
  \<open>frontend/src/frontend.rs\<close> and \<open>coordinator/src/coordinator.rs\<close>: the service through which clients
  run transactions. It keeps the open transactions and, per keyspace, the number of open clients and a
  window of its recent values, which the commit hands to the ranges. The answers of the other
  services are arguments, as for the transactions themselves (theory \<open>Transaction\<close>); a handler returns
  the new state, the messages sent for the transaction, and its result. Requests are handled one after
  the other, and of a status the text before the printed error is kept.
\<close>

section \<open>State\<close>

definition MAX_CLIENT_SAMPLES :: nat where
  "MAX_CLIENT_SAMPLES = 100"

record stats_per_keyspace =
  open_clients :: u32
  history :: "u32 list"

record frontend =
  fe_stats_per_keyspace :: "(keyspace, stats_per_keyspace) hmap"
  fe_transaction_table :: "(uuid, transaction) hmap"
  resolver_stats :: "(string, f64) hmap"

definition frontend_new :: frontend where
  "frontend_new = \<lparr>fe_stats_per_keyspace = [], fe_transaction_table = [], resolver_stats = []\<rparr>"

text \<open>The status codes of the protocol that the handlers use.\<close>

datatype tstatus = Status_Internal string | Status_Invalid_Argument string | Status_Not_Found string

type_synonym 'a fe_result = "frontend \<times> tx_message list \<times> (tstatus, 'a) outcome"

section \<open>Handlers\<close>

text \<open>
  Creating a keyspace: \<open>conn\<close> is the connection to the universe service, \<open>answer\<close> what it answers.
\<close>

definition fe_create_keyspace :: "(string, unit) outcome \<Rightarrow> (string, string) outcome \<Rightarrow> (tstatus, string) outcome" where
  "fe_create_keyspace conn answer =
     try_ok (map_err (\<lambda>e. Status_Internal (''Failed to connect to universe: '' @ e)) conn) (\<lambda>_.
       case answer of Ok kid \<Rightarrow> Ok kid | _ \<Rightarrow> Panic)"

text \<open>\<open>Coordinator::start_transaction\<close>; an error of the transaction state store is unwrapped.\<close>

definition coordinator_start_transaction ::
    "commit_strategy \<Rightarrow> (tx_store_error, unit) outcome \<Rightarrow> transaction_info \<Rightarrow> keyspace \<Rightarrow> (tstatus, transaction) outcome" where
  "coordinator_start_transaction strategy store_answer info ks =
     (case store_answer of Ok _ \<Rightarrow> Ok (transaction_new info strategy ks) | _ \<Rightarrow> Panic)"

definition count_open_client :: "keyspace \<Rightarrow> frontend \<Rightarrow> frontend" where
  "count_open_client ks fe =
     (let stats = (case hm_get (fe_stats_per_keyspace fe) ks of
             Some stats \<Rightarrow> stats
           | None \<Rightarrow> \<lparr>open_clients = 0, history = []\<rparr>)
      in fe\<lparr>fe_stats_per_keyspace :=
           hm_insert ks (stats\<lparr>open_clients := open_clients stats + 1\<rparr>) (fe_stats_per_keyspace fe)\<rparr>)"

text \<open>\<open>t\<close> is the new identifier, \<open>now\<close> the time and \<open>timeout\<close> the configured timeout.\<close>

definition fe_start_transaction ::
    "commit_strategy \<Rightarrow> nat \<Rightarrow> time \<Rightarrow> uuid \<Rightarrow> (tx_store_error, unit) outcome \<Rightarrow> keyspace option \<Rightarrow> frontend \<Rightarrow> uuid fe_result" where
  "fe_start_transaction strategy timeout now t store_answer req fe =
     (case req of
        None \<Rightarrow> (fe, [], Err (Status_Invalid_Argument ''Missing keyspace''))
      | Some ks \<Rightarrow>
          (case coordinator_start_transaction strategy store_answer
                  \<lparr>ti_id = t, started = now, overall_timeout = timeout\<rparr> ks of
             Ok tx \<Rightarrow>
               (count_open_client ks
                  (fe\<lparr>fe_transaction_table := hm_insert t tx (fe_transaction_table fe)\<rparr>), [], Ok t)
           | Err e \<Rightarrow> (fe, [], Err e)
           | Panic \<Rightarrow> (fe, [], Panic)))"

text \<open>
  An operation on an open transaction: the transaction is found, changed under its lock, and its
  error becomes a status.
\<close>

definition on_transaction ::
    "uuid \<Rightarrow> string \<Rightarrow> (transaction \<Rightarrow> 'a tx_result) \<Rightarrow> frontend \<Rightarrow> 'a fe_result" where
  "on_transaction t failed operation fe =
     (case hm_get (fe_transaction_table fe) t of
        None \<Rightarrow> (fe, [], Err (Status_Not_Found ''Transaction not found''))
      | Some tx \<Rightarrow>
          (case operation tx of
             (tx, msgs, r) \<Rightarrow>
               (fe\<lparr>fe_transaction_table := hm_insert t tx (fe_transaction_table fe)\<rparr>, msgs,
                map_err (\<lambda>e. Status_Internal failed) r)))"

text \<open>The identifier of the transaction and the keyspace of a request are checked first.\<close>

definition with_transaction ::
    "(string \<Rightarrow> uuid option) \<Rightarrow> string \<Rightarrow> (uuid \<Rightarrow> 'a fe_result) \<Rightarrow> frontend \<Rightarrow> 'a fe_result" where
  "with_transaction parse transaction_id handle fe =
     (case parse transaction_id of
        None \<Rightarrow> (fe, [], Err (Status_Invalid_Argument ''Invalid transaction ID format''))
      | Some t \<Rightarrow> handle t)"

definition with_keyspace :: "keyspace option \<Rightarrow> (keyspace \<Rightarrow> 'a fe_result) \<Rightarrow> frontend \<Rightarrow> 'a fe_result" where
  "with_keyspace ks handle fe =
     (case ks of
        None \<Rightarrow> (fe, [], Err (Status_Invalid_Argument ''Missing keyspace''))
      | Some ks \<Rightarrow> handle ks)"

definition fe_get ::
    "(string \<Rightarrow> uuid option) \<Rightarrow> range_oracle \<Rightarrow> (error, client_get_result) outcome \<Rightarrow> store_answer \<Rightarrow> string \<Rightarrow>
     keyspace option \<Rightarrow> bytes \<Rightarrow> frontend \<Rightarrow> bytes option fe_result" where
  "fe_get parse oracle answer abort_answer transaction_id ks key fe =
     with_transaction parse transaction_id (\<lambda>t. with_keyspace ks (\<lambda>ks.
       on_transaction t ''Get operation failed'' (tx_get oracle answer abort_answer ks key) fe) fe) fe"

definition fe_put ::
    "(string \<Rightarrow> uuid option) \<Rightarrow> range_oracle \<Rightarrow> string \<Rightarrow> keyspace option \<Rightarrow> bytes \<Rightarrow> bytes \<Rightarrow> frontend \<Rightarrow> unit fe_result" where
  "fe_put parse oracle transaction_id ks key val fe =
     with_transaction parse transaction_id (\<lambda>t. with_keyspace ks (\<lambda>ks.
       on_transaction t ''Put operation failed'' (tx_put oracle ks key val) fe) fe) fe"

definition fe_delete ::
    "(string \<Rightarrow> uuid option) \<Rightarrow> range_oracle \<Rightarrow> string \<Rightarrow> keyspace option \<Rightarrow> bytes \<Rightarrow> frontend \<Rightarrow> unit fe_result" where
  "fe_delete parse oracle transaction_id ks key fe =
     with_transaction parse transaction_id (\<lambda>t. with_keyspace ks (\<lambda>ks.
       on_transaction t ''Delete operation failed'' (tx_del oracle ks key) fe) fe) fe"

definition forget_transaction :: "uuid \<Rightarrow> frontend \<Rightarrow> frontend" where
  "forget_transaction t fe = fe\<lparr>fe_transaction_table := hm_remove t (fe_transaction_table fe)\<rparr>"

definition fe_abort ::
    "(string \<Rightarrow> uuid option) \<Rightarrow> store_answer \<Rightarrow> string \<Rightarrow> frontend \<Rightarrow> unit fe_result" where
  "fe_abort parse answer transaction_id fe =
     with_transaction parse transaction_id (\<lambda>t.
       case on_transaction t ''Abort operation failed'' (tx_abort answer) fe of
         (fe, msgs, Ok _) \<Rightarrow> (forget_transaction t fe, msgs, Ok ())
       | (fe, msgs, r) \<Rightarrow> (fe, msgs, r)) fe"

text \<open>The sample taken by a commit, and the number of clients it hands on: the largest recent one.\<close>

definition sample :: "stats_per_keyspace \<Rightarrow> stats_per_keyspace" where
  "sample stats =
     (let h = history stats @ [open_clients stats]
      in stats\<lparr>history := if length h > MAX_CLIENT_SAMPLES then tl h else h\<rparr>)"

definition max_sample :: "stats_per_keyspace \<Rightarrow> u32" where
  "max_sample stats = (case history stats of [] \<Rightarrow> 0 | x # xs \<Rightarrow> fold max xs x)"

text \<open>The arguments are the answers to the prepare requests and those of the store and the resolver.\<close>

record commit_answers =
  ca_prepares :: "(full_range_id \<times> (error, prepare_ok) outcome) list"
  ca_abort :: store_answer
  ca_store :: store_answer
  ca_resolver :: "(transaction_error, unit) outcome"

definition set_stats :: "keyspace \<Rightarrow> stats_per_keyspace \<Rightarrow> frontend \<Rightarrow> frontend" where
  "set_stats ks stats fe = fe\<lparr>fe_stats_per_keyspace := hm_insert ks stats (fe_stats_per_keyspace fe)\<rparr>"

definition fe_commit ::
    "(string \<Rightarrow> uuid option) \<Rightarrow> commit_answers \<Rightarrow> string \<Rightarrow> frontend \<Rightarrow> unit fe_result" where
  "fe_commit parse ans transaction_id fe =
     with_transaction parse transaction_id (\<lambda>t.
       case hm_get (fe_transaction_table fe) t of
         None \<Rightarrow> (fe, [], Err (Status_Not_Found ''Transaction not found''))
       | Some tx \<Rightarrow>
           (let ks = t_keyspace tx
            in case hm_get (fe_stats_per_keyspace fe) ks of
                 None \<Rightarrow> (fe, [], Panic)
               | Some stats \<Rightarrow>
                   (let stats = sample stats;
                        clients = max_sample stats;
                        load = (case hm_get (resolver_stats fe) ''avg_waiting_txs'' of Some l \<Rightarrow> l | None \<Rightarrow> Fin 0)
                    in case on_transaction t ''Commit operation failed''
                              (tx_commit load clients (ca_prepares ans) (ca_abort ans) (ca_store ans) (ca_resolver ans))
                              (set_stats ks stats fe) of
                         (fe, msgs, Ok _) \<Rightarrow>
                           (let fe = forget_transaction t fe
                            in case hm_get (fe_stats_per_keyspace fe) ks of
                                 None \<Rightarrow> (fe, msgs, Panic)
                               | Some stats \<Rightarrow>
                                   (set_stats ks (stats\<lparr>open_clients := open_clients stats - 1\<rparr>) fe, msgs, Ok ()))
                       | (fe, msgs, r) \<Rightarrow> (fe, msgs, r)))) fe"

text \<open>One turn of the loop that samples the resolver.\<close>

definition sample_resolver :: "f64 \<Rightarrow> frontend \<Rightarrow> frontend" where
  "sample_resolver avg_waiting_txs fe =
     fe\<lparr>resolver_stats := hm_insert ''avg_waiting_txs'' avg_waiting_txs (resolver_stats fe)\<rparr>"

text \<open>
  A read-modify-write runs a whole transaction; an error of one of its steps is returned at once.
  \<open>gets\<close> are the answers to the reads, one for each key.
\<close>

definition fe_then :: "'a fe_result \<Rightarrow> ('a \<Rightarrow> frontend \<Rightarrow> 'b fe_result) \<Rightarrow> 'b fe_result" where
  "fe_then s next_step =
     (case s of
        (fe, msgs, Ok x) \<Rightarrow> (case next_step x fe of (fe, msgs', r) \<Rightarrow> (fe, msgs @ msgs', r))
      | (fe, msgs, Err e) \<Rightarrow> (fe, msgs, Err e)
      | (fe, msgs, Panic) \<Rightarrow> (fe, msgs, Panic))"

fun rmw_gets ::
    "(string \<Rightarrow> uuid option) \<Rightarrow> range_oracle \<Rightarrow> string \<Rightarrow> keyspace \<Rightarrow>
     (bytes \<times> (error, client_get_result) outcome \<times> store_answer) list \<Rightarrow> frontend \<Rightarrow> unit fe_result" where
  "rmw_gets parse oracle t ks [] fe = (fe, [], Ok ())"
| "rmw_gets parse oracle t ks ((key, answer, abort_answer) # gets) fe =
     fe_then (fe_get parse oracle answer abort_answer t (Some ks) key fe) (\<lambda>_. rmw_gets parse oracle t ks gets)"

fun rmw_puts ::
    "(string \<Rightarrow> uuid option) \<Rightarrow> range_oracle \<Rightarrow> string \<Rightarrow> keyspace \<Rightarrow> bytes \<Rightarrow> bytes list \<Rightarrow> frontend \<Rightarrow> unit fe_result" where
  "rmw_puts parse oracle t ks val [] fe = (fe, [], Ok ())"
| "rmw_puts parse oracle t ks val (key # keys) fe =
     fe_then (fe_put parse oracle t (Some ks) key val fe) (\<lambda>_. rmw_puts parse oracle t ks val keys)"

definition fe_read_modify_write ::
    "(uuid \<Rightarrow> string) \<Rightarrow> (string \<Rightarrow> uuid option) \<Rightarrow> range_oracle \<Rightarrow> commit_strategy \<Rightarrow> nat \<Rightarrow> time \<Rightarrow> uuid \<Rightarrow>
     (tx_store_error, unit) outcome \<Rightarrow> (bytes \<times> (error, client_get_result) outcome \<times> store_answer) list \<Rightarrow> commit_answers \<Rightarrow>
     keyspace option \<Rightarrow> bytes \<Rightarrow> frontend \<Rightarrow> unit fe_result" where
  "fe_read_modify_write show_uuid parse oracle strategy timeout now t store_answer gets ans req val fe =
     (case req of
        None \<Rightarrow> (fe, [], Err (Status_Invalid_Argument ''Missing keyspace''))
      | Some ks \<Rightarrow>
          fe_then (fe_start_transaction strategy timeout now t store_answer (Some ks) fe) (\<lambda>t fe.
          fe_then (rmw_gets parse oracle (show_uuid t) ks gets fe) (\<lambda>_ fe.
          fe_then (rmw_puts parse oracle (show_uuid t) ks val (map fst gets) fe) (\<lambda>_ fe.
          fe_commit parse ans (show_uuid t) fe))))"

section \<open>Open clients\<close>

text \<open>Operations on a transaction keep its keyspace.\<close>

lemma get_participant_range_keyspace: "t_keyspace (fst (get_participant_range r tx)) = t_keyspace tx"
  by (simp add: get_participant_range_def split: option.split)

lemma record_abort_keyspace: "t_keyspace (fst (record_abort answer tx)) = t_keyspace tx"
  by (simp add: record_abort_def)

lemma abort_with_keyspace: "t_keyspace (fst (abort_with reason answer tx)) = t_keyspace tx"
  using record_abort_keyspace [of answer tx]
  by (auto simp: abort_with_def split: prod.split outcome.split)

lemma set_participant_keyspace: "t_keyspace (set_participant_range r p tx) = t_keyspace tx"
  by (simp add: set_participant_range_def)

lemma extend_keyspace: "t_keyspace (extend_dependencies ds tx) = t_keyspace tx"
  by (simp add: extend_dependencies_def)

lemma collect_prepares_keyspace: "t_keyspace (fst (collect_prepares answers abort_answer early tx)) = t_keyspace tx"
  by (induction answers abort_answer early tx rule: collect_prepares.induct)
    (simp_all add: abort_with_keyspace extend_keyspace)

lemma tx_commit_keyspace: "t_keyspace (fst (tx_commit load clients answers aa sa ra tx)) = t_keyspace tx"
proof -
  obtain tx1 msgs r where c: "collect_prepares answers aa False (tx\<lparr>t_state := Preparing\<rparr>) = (tx1, msgs, r)"
    by (metis prod_cases3)
  have "t_keyspace tx1 = t_keyspace tx"
    using collect_prepares_keyspace [of answers aa False "tx\<lparr>t_state := Preparing\<rparr>"] c by simp
  then show ?thesis
    by (simp add: tx_commit_def c Let_def commit_traditional_def commit_pipelined_def
        split: outcome.split commit_strategy.split op_result.split)
qed

lemma tx_get_keyspace: "t_keyspace (fst (tx_get oracle answer aa ks key tx)) = t_keyspace tx"
proof -
  have a: "t_keyspace (fst (tx_get_answered r key res aa tx)) = t_keyspace tx" for r res tx
    using get_participant_range_keyspace [of r "extend_dependencies (cgr_dependencies res) tx"]
    by (auto simp: tx_get_answered_def Let_def abort_with_keyspace set_participant_keyspace extend_keyspace split: prod.split)
  show ?thesis
    using a get_participant_range_keyspace
    by (auto simp: tx_get_def Let_def split: outcome.split prod.split option.split) (metis fst_conv)+
qed

lemma tx_put_keyspace: "t_keyspace (fst (tx_put oracle ks key val tx)) = t_keyspace tx"
  using get_participant_range_keyspace
  by (auto simp: tx_put_def Let_def set_participant_keyspace split: outcome.split prod.split) (metis fst_conv)+

lemma tx_del_keyspace: "t_keyspace (fst (tx_del oracle ks key tx)) = t_keyspace tx"
  using get_participant_range_keyspace
  by (auto simp: tx_del_def Let_def set_participant_keyspace split: outcome.split prod.split) (metis fst_conv)+

lemma tx_abort_keyspace: "t_keyspace (fst (tx_abort answer tx)) = t_keyspace tx"
  by (auto simp: tx_abort_def record_abort_keyspace split: outcome.split)

definition open_count :: "keyspace \<Rightarrow> (uuid, transaction) hmap \<Rightarrow> nat" where
  "open_count ks table = length (filter (\<lambda>(t, tx). t_keyspace tx = ks) table)"

lemma open_count_new:
  "hm_get table t = None \<Longrightarrow> open_count ks (hm_insert t tx table) = open_count ks table + (if t_keyspace tx = ks then 1 else 0)"
  by (induction table) (auto simp: open_count_def split: if_splits)

lemma open_count_change:
  "hm_get table t = Some tx \<Longrightarrow> t_keyspace tx' = t_keyspace tx \<Longrightarrow> open_count ks (hm_insert t tx' table) = open_count ks table"
  by (induction table) (auto simp: open_count_def split: if_splits)

lemma open_count_remove:
  "distinct (hm_keys table) \<Longrightarrow> hm_get table t = Some tx \<Longrightarrow>
     open_count ks table = open_count ks (hm_remove t table) + (if t_keyspace tx = ks then 1 else 0)"
proof (induction table)
  case (Cons x table)
  obtain u ux where x: "x = (u, ux)" by force
  show ?case
  proof (cases "u = t")
    case True
    with Cons.prems x have "hm_remove t table = table" by (auto simp: delete_idem)
    with True Cons.prems x show ?thesis by (auto simp: open_count_def)
  next
    case False
    with Cons x show ?thesis by (auto simp: open_count_def)
  qed
qed simp

text \<open>
  The invariant of the service; \<open>aborted\<close> counts the transactions of a keyspace that were aborted.
\<close>

definition stats_ok :: "nat \<Rightarrow> stats_per_keyspace option \<Rightarrow> bool" where
  "stats_ok n stats =
     (case stats of
        Some s \<Rightarrow> open_clients s = of_nat n \<and> length (history s) \<le> MAX_CLIENT_SAMPLES
      | None \<Rightarrow> n = 0)"

definition fe_ok :: "(keyspace \<Rightarrow> nat) \<Rightarrow> frontend \<Rightarrow> bool" where
  "fe_ok aborted fe \<longleftrightarrow> distinct (hm_keys (fe_transaction_table fe)) \<and>
     (\<forall>ks. stats_ok (open_count ks (fe_transaction_table fe) + aborted ks) (hm_get (fe_stats_per_keyspace fe) ks))"

lemma on_transaction_found:
  assumes "on_transaction t failed op fe = (fe', msgs, Ok x)"
  obtains tx tx' where "hm_get (fe_transaction_table fe) t = Some tx" "op tx = (tx', msgs, Ok x)"
    "fe' = fe\<lparr>fe_transaction_table := hm_insert t tx' (fe_transaction_table fe)\<rparr>"
proof (cases "hm_get (fe_transaction_table fe) t")
  case (Some tx)
  obtain tx' m r where "op tx = (tx', m, r)" by (metis prod_cases3)
  with assms Some that show ?thesis by (cases r) (auto simp: on_transaction_def)
qed (use assms in \<open>simp add: on_transaction_def\<close>)

lemma on_transaction_ok:
  assumes "\<And>tx. t_keyspace (fst (op tx)) = t_keyspace tx" and "fe_ok aborted fe"
  shows "fe_ok aborted (fst (on_transaction t failed op fe))"
    and "fe_stats_per_keyspace (fst (on_transaction t failed op fe)) = fe_stats_per_keyspace fe"
proof -
  show "fe_ok aborted (fst (on_transaction t failed op fe))"
  proof (cases "hm_get (fe_transaction_table fe) t")
    case (Some tx)
    obtain tx' m r where op: "op tx = (tx', m, r)" by (metis prod_cases3)
    have k: "t_keyspace tx' = t_keyspace tx" using assms(1) [of tx] op by simp
    from assms(2) Some op show ?thesis
      by (simp add: on_transaction_def fe_ok_def distinct_hm_insert open_count_change [OF Some k])
  qed (use assms in \<open>simp add: on_transaction_def\<close>)
  show "fe_stats_per_keyspace (fst (on_transaction t failed op fe)) = fe_stats_per_keyspace fe"
    by (auto simp: on_transaction_def split: option.split prod.split)
qed

lemma set_stats_ok:
  assumes "fe_ok aborted fe" and "hm_get (fe_stats_per_keyspace fe) ks = Some s"
    and "open_clients s' = open_clients s" and "length (history s') \<le> MAX_CLIENT_SAMPLES"
  shows "fe_ok aborted (set_stats ks s' fe)"
proof -
  have "stats_ok n (Some s')" if "stats_ok n (Some s)" for n
    using that assms(3,4) by (simp add: stats_ok_def)
  with assms(1,2) show ?thesis
    by (auto simp: fe_ok_def set_stats_def) (metis)+
qed

lemma start_ok:
  assumes "fe_ok aborted fe" and "hm_get (fe_transaction_table fe) t = None"
  shows "fe_ok aborted (fst (fe_start_transaction strategy timeout now t sa req fe))"
proof (cases req)
  case (Some ks)
  let ?tx = "transaction_new \<lparr>ti_id = t, started = now, overall_timeout = timeout\<rparr> strategy ks"
  let ?s = "case hm_get (fe_stats_per_keyspace fe) ks of Some stats \<Rightarrow> stats | None \<Rightarrow> \<lparr>open_clients = 0, history = []\<rparr>"
  have k: "t_keyspace ?tx = ks" by (simp add: transaction_new_def)
  have "stats_ok (n + 1) (Some (?s\<lparr>open_clients := open_clients ?s + 1\<rparr>))"
    if "stats_ok n (hm_get (fe_stats_per_keyspace fe) ks)" for n
    using that by (auto simp: stats_ok_def split: option.splits)
  then have "stats_ok (Suc n) (Some (?s\<lparr>open_clients := open_clients ?s + 1\<rparr>))"
    if "stats_ok n (hm_get (fe_stats_per_keyspace fe) ks)" for n using that by simp
  with assms Some show ?thesis
    by (auto simp: fe_start_transaction_def coordinator_start_transaction_def count_open_client_def fe_ok_def Let_def
        distinct_hm_insert open_count_new [OF assms(2)] k split: outcome.split)
qed (use assms in \<open>simp add: fe_start_transaction_def\<close>)

lemma forget_ok:
  assumes "fe_ok aborted fe" and "hm_get (fe_transaction_table fe) t = Some tx"
  shows "fe_ok (aborted(t_keyspace tx := aborted (t_keyspace tx) + 1)) (forget_transaction t fe)"
proof -
  let ?a = "aborted(t_keyspace tx := aborted (t_keyspace tx) + 1)"
  have d: "distinct (hm_keys (fe_transaction_table fe))"
    and s: "\<And>ks. stats_ok (open_count ks (fe_transaction_table fe) + aborted ks) (hm_get (fe_stats_per_keyspace fe) ks)"
    using assms(1) by (simp_all add: fe_ok_def)
  have "open_count ks (hm_remove t (fe_transaction_table fe)) + ?a ks = open_count ks (fe_transaction_table fe) + aborted ks" for ks
    using open_count_remove [OF d assms(2), of ks] by simp
  with d s show ?thesis
    by (simp add: fe_ok_def forget_transaction_def distinct_hm_remove)
qed

lemma close_ok:
  assumes "fe_ok (aborted(ks := aborted ks + 1)) fe" and "hm_get (fe_stats_per_keyspace fe) ks = Some s"
  shows "fe_ok aborted (set_stats ks (s\<lparr>open_clients := open_clients s - 1\<rparr>) fe)"
proof -
  have "stats_ok n (Some (s\<lparr>open_clients := open_clients s - 1\<rparr>))" if "stats_ok (Suc n) (Some s)" for n
    using that by (simp add: stats_ok_def)
  moreover have s: "stats_ok (open_count k (fe_transaction_table fe) + (aborted(ks := aborted ks + 1)) k)
      (hm_get (fe_stats_per_keyspace fe) k)" for k
    using assms(1) by (simp add: fe_ok_def)
  ultimately have "stats_ok (open_count k (fe_transaction_table fe) + aborted k)
      (hm_get (fe_stats_per_keyspace (set_stats ks (s\<lparr>open_clients := open_clients s - 1\<rparr>) fe)) k)" for k
    using s [of k] assms(2) by (cases "k = ks") (simp_all add: set_stats_def)
  with assms(1) show ?thesis by (simp add: fe_ok_def set_stats_def)
qed

lemma sample_facts:
  "open_clients (sample s) = open_clients s"
  "length (history s) \<le> MAX_CLIENT_SAMPLES \<Longrightarrow> length (history (sample s)) \<le> MAX_CLIENT_SAMPLES"
  "open_clients s \<in> set (history (sample s))"
  by (auto simp: sample_def Let_def MAX_CLIENT_SAMPLES_def tl_append split: list.split)

lemma abort_ok:
  assumes "fe_ok aborted fe" and "fe_abort parse answer tid fe = (fe', msgs, r)"
  shows "fe_ok (case (r, parse tid) of
      (Ok _, Some t) \<Rightarrow>
        (case hm_get (fe_transaction_table fe) t of
           Some tx \<Rightarrow> aborted(t_keyspace tx := aborted (t_keyspace tx) + 1)
         | None \<Rightarrow> aborted)
    | _ \<Rightarrow> aborted) fe'"
proof (cases "parse tid")
  case (Some t)
  let ?o = "on_transaction t ''Abort operation failed'' (tx_abort answer) fe"
  obtain fe1 m r1 where o: "?o = (fe1, m, r1)" by (metis prod_cases3)
  have ok: "fe_ok aborted fe1"
    using on_transaction_ok(1) [of "tx_abort answer", OF tx_abort_keyspace assms(1), of t "''Abort operation failed''"] o
    by simp
  show ?thesis
  proof (cases r1)
    case (Ok u)
    with o obtain tx tx' where tx: "hm_get (fe_transaction_table fe) t = Some tx" "tx_abort answer tx = (tx', m, Ok u)"
        "fe1 = fe\<lparr>fe_transaction_table := hm_insert t tx' (fe_transaction_table fe)\<rparr>"
      using on_transaction_found by metis
    have "t_keyspace tx' = t_keyspace tx" using tx_abort_keyspace [of answer tx] tx(2) by simp
    moreover have "hm_get (fe_transaction_table fe1) t = Some tx'" by (simp add: tx(3))
    ultimately show ?thesis
      using forget_ok [OF ok, of t tx'] assms(2) Some Ok o tx(1)
      by (auto simp: fe_abort_def with_transaction_def)
  qed (use assms(2) Some o ok in \<open>auto simp: fe_abort_def with_transaction_def\<close>)
qed (use assms in \<open>auto simp: fe_abort_def with_transaction_def split: outcome.split\<close>)

lemma commit_ok:
  assumes "fe_ok aborted fe"
  shows "fe_ok aborted (fst (fe_commit parse ans tid fe))"
proof (cases "parse tid")
  case (Some t)
  show ?thesis
  proof (cases "hm_get (fe_transaction_table fe) t")
    case tx: (Some tx)
    show ?thesis
    proof (cases "hm_get (fe_stats_per_keyspace fe) (t_keyspace tx)")
      case s: (Some s)
      define op where "op = tx_commit (case hm_get (resolver_stats fe) ''avg_waiting_txs'' of Some l \<Rightarrow> l | None \<Rightarrow> Fin 0)
        (max_sample (sample s)) (ca_prepares ans) (ca_abort ans) (ca_store ans) (ca_resolver ans)"
      define fe1 where "fe1 = set_stats (t_keyspace tx) (sample s) fe"
      have "length (history s) \<le> MAX_CLIENT_SAMPLES"
        using assms s by (auto simp: fe_ok_def stats_ok_def dest!: spec [of _ "t_keyspace tx"])
      then have 1: "fe_ok aborted fe1"
        unfolding fe1_def by (intro set_stats_ok [OF assms s] sample_facts)
      obtain fe2 m r where o: "on_transaction t ''Commit operation failed'' op fe1 = (fe2, m, r)" by (metis prod_cases3)
      have k: "t_keyspace (fst (op x)) = t_keyspace x" for x by (simp add: op_def tx_commit_keyspace)
      have 2: "fe_ok aborted fe2" "fe_stats_per_keyspace fe2 = fe_stats_per_keyspace fe1"
        using on_transaction_ok [of op, OF k 1, of t "''Commit operation failed''"] o by simp_all
      have c: "fe_commit parse ans tid fe =
          (case (fe2, m, r) of
             (fe, msgs, Ok _) \<Rightarrow>
               (let fe = forget_transaction t fe
                in case hm_get (fe_stats_per_keyspace fe) (t_keyspace tx) of
                     None \<Rightarrow> (fe, msgs, Panic)
                   | Some stats \<Rightarrow> (set_stats (t_keyspace tx) (stats\<lparr>open_clients := open_clients stats - 1\<rparr>) fe, msgs, Ok ()))
           | (fe, msgs, r) \<Rightarrow> (fe, msgs, r))"
        using Some tx s o by (simp add: fe_commit_def with_transaction_def op_def fe1_def Let_def)
      show ?thesis
      proof (cases r)
        case (Ok u)
        with o obtain x x' where x: "hm_get (fe_transaction_table fe1) t = Some x" "op x = (x', m, Ok u)"
            "fe2 = fe1\<lparr>fe_transaction_table := hm_insert t x' (fe_transaction_table fe1)\<rparr>"
          using on_transaction_found by metis
        have x': "t_keyspace x' = t_keyspace tx" using k [of x] x tx by (simp add: fe1_def set_stats_def)
        have "hm_get (fe_transaction_table fe2) t = Some x'" by (simp add: x(3))
        from forget_ok [OF 2(1) this] x'
        have f: "fe_ok (aborted(t_keyspace tx := aborted (t_keyspace tx) + 1)) (forget_transaction t fe2)" by simp
        have "hm_get (fe_stats_per_keyspace (forget_transaction t fe2)) (t_keyspace tx) = Some (sample s)"
          by (simp add: forget_transaction_def 2(2) fe1_def set_stats_def)
        from close_ok [OF f this] this Ok c show ?thesis by simp
      qed (use c 2 in simp_all)
    qed (use assms Some tx in \<open>simp add: fe_commit_def with_transaction_def\<close>)
  qed (use assms Some in \<open>simp add: fe_commit_def with_transaction_def\<close>)
qed (use assms in \<open>simp add: fe_commit_def with_transaction_def\<close>)

section \<open>Runs of the frontend\<close>

text \<open>The number of transactions of each keyspace that clients aborted, which no handler keeps.\<close>

definition count_aborted ::
    "(string \<Rightarrow> uuid option) \<Rightarrow> string \<Rightarrow> (tstatus, unit) outcome \<Rightarrow> frontend \<Rightarrow> (keyspace \<Rightarrow> nat) \<Rightarrow> keyspace \<Rightarrow> nat" where
  "count_aborted parse tid r fe aborted =
     (case (r, parse tid) of
        (Ok _, Some t) \<Rightarrow>
          (case hm_get (fe_transaction_table fe) t of
             Some tx \<Rightarrow> aborted(t_keyspace tx := aborted (t_keyspace tx) + 1)
           | None \<Rightarrow> aborted)
      | _ \<Rightarrow> aborted)"

inductive fe_reach :: "(string \<Rightarrow> uuid option) \<Rightarrow> (keyspace \<Rightarrow> nat) \<Rightarrow> frontend \<Rightarrow> bool"
  for parse :: "string \<Rightarrow> uuid option" where
  Fe_New: "fe_reach parse (\<lambda>_. 0) frontend_new"
| Fe_Start: "fe_reach parse aborted fe \<Longrightarrow> hm_get (fe_transaction_table fe) t = None \<Longrightarrow>
    fe_reach parse aborted (fst (fe_start_transaction strategy timeout now t store_answer req fe))"
| Fe_Get: "fe_reach parse aborted fe \<Longrightarrow>
    fe_reach parse aborted (fst (fe_get parse oracle answer abort_answer tid ks key fe))"
| Fe_Put: "fe_reach parse aborted fe \<Longrightarrow> fe_reach parse aborted (fst (fe_put parse oracle tid ks key val fe))"
| Fe_Delete: "fe_reach parse aborted fe \<Longrightarrow> fe_reach parse aborted (fst (fe_delete parse oracle tid ks key fe))"
| Fe_Abort: "fe_reach parse aborted fe \<Longrightarrow> fe_abort parse abort_answer tid fe = (fe', msgs, r) \<Longrightarrow>
    fe_reach parse (count_aborted parse tid r fe aborted) fe'"
| Fe_Commit: "fe_reach parse aborted fe \<Longrightarrow> fe_reach parse aborted (fst (fe_commit parse ans tid fe))"
| Fe_Sample: "fe_reach parse aborted fe \<Longrightarrow> fe_reach parse aborted (sample_resolver load fe)"

text \<open>A read-modify-write adds no states: it is a sequence of the other requests.\<close>

lemma fe_then_reach:
  assumes "fe_reach parse aborted (fst s)" and "\<And>x fe. fe_reach parse aborted fe \<Longrightarrow> fe_reach parse aborted (fst (next_step x fe))"
  shows "fe_reach parse aborted (fst (fe_then s next_step))"
proof -
  obtain fe msgs r where s: "s = (fe, msgs, r)" by (metis prod_cases3)
  have "fst (fe_then s next_step) = (case r of Ok x \<Rightarrow> fst (next_step x fe) | _ \<Rightarrow> fe)"
    by (simp add: s fe_then_def split: outcome.split prod.split)
  with assms s show ?thesis by (cases r) auto
qed

lemma rmw_gets_reach: "fe_reach parse aborted fe \<Longrightarrow> fe_reach parse aborted (fst (rmw_gets parse oracle tid ks gets fe))"
  by (induction gets arbitrary: fe) (auto intro!: fe_then_reach Fe_Get)

lemma rmw_puts_reach: "fe_reach parse aborted fe \<Longrightarrow> fe_reach parse aborted (fst (rmw_puts parse oracle tid ks val keys fe))"
  by (induction keys arbitrary: fe) (auto intro!: fe_then_reach Fe_Put)

lemma rmw_reach:
  assumes "fe_reach parse aborted fe" and "hm_get (fe_transaction_table fe) t = None"
  shows "fe_reach parse aborted
    (fst (fe_read_modify_write show_uuid parse oracle strategy timeout now t store_answer gets ans req val fe))"
  using assms
  by (auto simp: fe_read_modify_write_def split: option.split
      intro!: fe_then_reach Fe_Start rmw_gets_reach rmw_puts_reach Fe_Commit)

lemma guarded_ok:
  assumes "fe_ok aborted fe" and "\<And>t. fe_ok aborted (fst (handle t))"
  shows "fe_ok aborted (fst (with_transaction parse tid handle fe))"
  using assms by (simp add: with_transaction_def split: option.split)

lemma guarded_keyspace_ok:
  assumes "fe_ok aborted fe" and "\<And>ks. fe_ok aborted (fst (handle ks))"
  shows "fe_ok aborted (fst (with_keyspace ks handle fe))"
  using assms by (simp add: with_keyspace_def split: option.split)

lemma fe_reach_ok: "fe_reach parse aborted fe \<Longrightarrow> fe_ok aborted fe"
proof (induction rule: fe_reach.induct)
  case Fe_New
  then show ?case by (simp add: fe_ok_def frontend_new_def stats_ok_def open_count_def)
next
  case (Fe_Abort aborted fe abort_answer tid fe' msgs r)
  then show ?case unfolding count_aborted_def by (blast intro: abort_ok)
next
  case (Fe_Sample aborted fe load)
  then show ?case by (simp add: fe_ok_def sample_resolver_def)
qed (auto simp: fe_get_def fe_put_def fe_delete_def
    intro!: start_ok commit_ok guarded_ok guarded_keyspace_ok on_transaction_ok tx_get_keyspace tx_put_keyspace tx_del_keyspace)

text \<open>
  C18: In every run of the frontend, whatever the other services answer, the number of open clients that
  it keeps for a keyspace is the number of transactions of the keyspace in its table plus the number
  of those that clients aborted: a commit that succeeds gives its client back, an abort never does.
\<close>

theorem open_clients_counts_aborts:
  assumes "fe_reach parse aborted fe"
  shows "(case hm_get (fe_stats_per_keyspace fe) ks of
       Some s \<Rightarrow> open_clients s = of_nat (open_count ks (fe_transaction_table fe) + aborted ks)
     | None \<Rightarrow> open_count ks (fe_transaction_table fe) = 0 \<and> aborted ks = 0)"
  using fe_reach_ok [OF assms] by (auto simp: fe_ok_def stats_ok_def split: option.splits dest!: spec [of _ ks])

definition wit_fe_started :: frontend where
  "wit_fe_started = fst (fe_start_transaction Adaptive 10 0 5 (Ok ()) (Some wit_keyspace) frontend_new)"

definition wit_fe_aborted :: frontend where
  "wit_fe_aborted = fst (fe_abort (\<lambda>_. Some 5) (Ok TransactionIsAborted) ''5'' wit_fe_started)"

lemma wit_fe_reach:
  "fe_reach (\<lambda>_. Some 5) (\<lambda>_. 0) wit_fe_started"
  "fe_reach (\<lambda>_. Some 5) ((\<lambda>_. 0)(wit_keyspace := 1)) wit_fe_aborted"
proof -
  show s: "fe_reach (\<lambda>_. Some 5) (\<lambda>_. 0) wit_fe_started"
    unfolding wit_fe_started_def by (rule Fe_Start [OF Fe_New]) (simp add: frontend_new_def)
  obtain msgs where "fe_abort (\<lambda>_. Some 5) (Ok TransactionIsAborted) ''5'' wit_fe_started = (wit_fe_aborted, msgs, Ok ())"
    and "hm_get (fe_transaction_table wit_fe_started) 5 = Some (transaction_new \<lparr>ti_id = 5, started = 0, overall_timeout = 10\<rparr> Adaptive wit_keyspace)"
    unfolding wit_fe_aborted_def
    by (simp add: fe_abort_def with_transaction_def on_transaction_def wit_fe_started_def fe_start_transaction_def
        coordinator_start_transaction_def count_open_client_def frontend_new_def tx_abort_def check_still_running_def
        transaction_new_def record_abort_def)
  from Fe_Abort [OF s this(1)] this(2)
  show "fe_reach (\<lambda>_. Some 5) ((\<lambda>_. 0)(wit_keyspace := 1)) wit_fe_aborted"
    by (simp add: count_aborted_def transaction_new_def)
qed

theorem open_clients_counts_aborts_witness:
  "fe_transaction_table wit_fe_aborted = [] \<and>
   map_option open_clients (hm_get (fe_stats_per_keyspace wit_fe_aborted) wit_keyspace) = Some 1"
proof -
  have "fe_transaction_table wit_fe_aborted = [] \<and> hm_get (fe_stats_per_keyspace wit_fe_aborted) wit_keyspace \<noteq> None"
    by code_simp
  then show ?thesis
    using open_clients_counts_aborts [OF wit_fe_reach(2), of wit_keyspace] by (auto simp: open_count_def)
qed

section \<open>The load handed to the ranges\<close>

lemma collect_prepares_sends: "Prepare_Range r rd w d l c \<notin> set (fst (snd (collect_prepares answers aa early tx)))"
  by (induction answers aa early tx rule: collect_prepares.induct)
    (auto simp: abort_with_def record_abort_def split: prod.split outcome.split op_result.split)

lemma tx_commit_sends:
  assumes "Prepare_Range r rd w d l c \<in> set (fst (snd (tx_commit load clients answers aa sa ra tx)))"
  shows "l = load \<and> c = clients"
proof -
  obtain tx1 msgs res where c: "collect_prepares answers aa False (tx\<lparr>t_state := Preparing\<rparr>) = (tx1, msgs, res)"
    by (metis prod_cases3)
  then have "Prepare_Range r rd w d l c \<notin> set msgs"
    using collect_prepares_sends [of r rd w d l c answers aa False "tx\<lparr>t_state := Preparing\<rparr>"] by simp
  with assms show ?thesis
    by (auto simp: tx_commit_def c Let_def commit_traditional_def commit_pipelined_def commit_notifications_def prepare_requests_def
        split: outcome.splits commit_strategy.splits op_result.splits if_splits)
qed

lemma max_sample_Max: "history s \<noteq> [] \<Longrightarrow> max_sample s = Max (set (history s))"
  by (cases "history s") (simp_all add: max_sample_def Max.set_eq_fold [symmetric])

lemma sample_window:
  assumes "length (history s) \<le> MAX_CLIENT_SAMPLES"
  shows "history (sample s) = (let h = history s @ [open_clients s] in drop (length h - MAX_CLIENT_SAMPLES) h)"
proof (cases "length (history s) = MAX_CLIENT_SAMPLES")
  case True
  then show ?thesis by (cases "history s") (simp_all add: sample_def Let_def MAX_CLIENT_SAMPLES_def)
next
  case False
  with assms show ?thesis by (simp add: sample_def Let_def)
qed

lemma reachable_stats:
  assumes "fe_reach parse aborted fe" and "hm_get (fe_transaction_table fe) t = Some tx"
  obtains s where "hm_get (fe_stats_per_keyspace fe) (t_keyspace tx) = Some s" and "length (history s) \<le> MAX_CLIENT_SAMPLES"
proof -
  have "open_count (t_keyspace tx) (fe_transaction_table fe) \<noteq> 0"
    using assms(2) by (auto simp: open_count_def filter_empty_conv dest: map_of_SomeD)
  moreover have "stats_ok (open_count (t_keyspace tx) (fe_transaction_table fe) + aborted (t_keyspace tx))
      (hm_get (fe_stats_per_keyspace fe) (t_keyspace tx))"
    using fe_reach_ok [OF assms(1)] unfolding fe_ok_def by blast
  ultimately show thesis using that by (simp add: stats_ok_def split: option.splits)
qed

text \<open>
  C20: In every run of the frontend, a commit of an open transaction finds the counters of its keyspace,
  so that it cannot panic there; every prepare request it sends to a range carries the largest of the
  last hundred samples, the current number of open clients among them, and no history ever holds more
  than a hundred samples.
\<close>

theorem prepare_carries_recent_maximum:
  assumes "fe_reach parse aborted fe" and "parse tid = Some t" and "hm_get (fe_transaction_table fe) t = Some tx"
    and "fe_commit parse ans tid fe = (fe', msgs, r)"
  shows "\<exists>s s'. hm_get (fe_stats_per_keyspace fe) (t_keyspace tx) = Some s \<and>
    hm_get (fe_stats_per_keyspace fe') (t_keyspace tx) = Some s' \<and> length (history s') \<le> MAX_CLIENT_SAMPLES \<and>
    (\<forall>range reads writes deletes load clients. Prepare_Range range reads writes deletes load clients \<in> set msgs \<longrightarrow>
       open_clients s \<le> clients \<and>
       clients = Max (set (let h = history s @ [open_clients s] in drop (length h - MAX_CLIENT_SAMPLES) h)))"
proof -
  obtain s where s: "hm_get (fe_stats_per_keyspace fe) (t_keyspace tx) = Some s" "length (history s) \<le> MAX_CLIENT_SAMPLES"
    by (rule reachable_stats [OF assms(1,3)])
  let ?op = "\<lambda>tx. tx_commit (case hm_get (resolver_stats fe) ''avg_waiting_txs'' of Some l \<Rightarrow> l | None \<Rightarrow> Fin 0)
    (max_sample (sample s)) (ca_prepares ans) (ca_abort ans) (ca_store ans) (ca_resolver ans) tx"
  obtain tx' m r' where o: "?op tx = (tx', m, r')" by (metis prod_cases3)
  have "fst (snd (fe_commit parse ans tid fe)) = m \<and>
      map_option history (hm_get (fe_stats_per_keyspace (fst (fe_commit parse ans tid fe))) (t_keyspace tx)) =
        Some (history (sample s))"
    by (cases r')
      (simp_all add: fe_commit_def with_transaction_def on_transaction_def set_stats_def forget_transaction_def Let_def
        assms(2,3) s(1) o)
  then have c: "msgs = m \<and> (\<exists>s'. hm_get (fe_stats_per_keyspace fe') (t_keyspace tx) = Some s' \<and> history s' = history (sample s))"
    by (auto simp: assms(4))
  have w: "open_clients s \<in> set (history (sample s))" by (rule sample_facts)
  then have ne: "history (sample s) \<noteq> []" by auto
  from w have le: "open_clients s \<le> Max (set (history (sample s)))" by simp
  have m: "clients = Max (set (history (sample s)))" if "Prepare_Range range reads writes deletes load clients \<in> set m"
    for range reads writes deletes load clients
  proof -
    have "Prepare_Range range reads writes deletes load clients \<in> set (fst (snd (?op tx)))" using that o by simp
    from tx_commit_sends [OF this] max_sample_Max [OF ne] show ?thesis by simp
  qed
  obtain s' where s': "hm_get (fe_stats_per_keyspace fe') (t_keyspace tx) = Some s'" "history s' = history (sample s)"
    using c by blast
  have "open_clients s \<le> clients \<and>
      clients = Max (set (let h = history s @ [open_clients s] in drop (length h - MAX_CLIENT_SAMPLES) h))"
    if "Prepare_Range range reads writes deletes load clients \<in> set msgs" for range reads writes deletes load clients
    using m [of range reads writes deletes load clients] that c le by (simp only: sample_window [OF s(2)])
  moreover have "length (history s') \<le> MAX_CLIENT_SAMPLES" using sample_facts(2) [OF s(2)] s'(2) by simp
  ultimately show ?thesis using s(1) s'(1) by blast
qed

definition wit_fe_put :: frontend where
  "wit_fe_put = fst (fe_put (\<lambda>_. Some 5) (\<lambda>_ _. Some \<lparr>keyspace_id = 1, range_id = 2\<rparr>) ''5'' (Some wit_keyspace) [1] [2] wit_fe_started)"

definition wit_fe_ans :: commit_answers where
  "wit_fe_ans = \<lparr>ca_prepares = [], ca_abort = Ok TransactionIsAborted, ca_store = Ok (TransactionIsCommitted 0), ca_resolver = Ok ()\<rparr>"

theorem prepare_carries_recent_maximum_witness:
  "\<exists>s. hm_get (fe_stats_per_keyspace wit_fe_put) wit_keyspace = Some s \<and> open_clients s \<le> 1 \<and>
     1 = Max (set (let h = history s @ [open_clients s] in drop (length h - MAX_CLIENT_SAMPLES) h))"
proof -
  have r: "fe_reach (\<lambda>_. Some 5) (\<lambda>_. 0) wit_fe_put"
    unfolding wit_fe_put_def by (rule Fe_Put [OF wit_fe_reach(1)])
  have "map_option t_keyspace (hm_get (fe_transaction_table wit_fe_put) 5) = Some wit_keyspace" by code_simp
  then obtain tx where tx: "hm_get (fe_transaction_table wit_fe_put) 5 = Some tx" "t_keyspace tx = wit_keyspace" by auto
  obtain fe' msgs res where c: "fe_commit (\<lambda>_. Some 5) wit_fe_ans ''5'' wit_fe_put = (fe', msgs, res)" by (metis prod_cases3)
  have "Prepare_Range \<lparr>keyspace_id = 1, range_id = 2\<rparr> False [([1], [2])] [] (Fin 0) 1
      \<in> set (fst (snd (fe_commit (\<lambda>_. Some 5) wit_fe_ans ''5'' wit_fe_put)))"
    by code_simp
  with c have "Prepare_Range \<lparr>keyspace_id = 1, range_id = 2\<rparr> False [([1], [2])] [] (Fin 0) 1 \<in> set msgs" by simp
  with prepare_carries_recent_maximum [OF r refl tx(1) c] tx(2) show ?thesis by fastforce
qed

end
