(* ===== verification/Spec2Isabelle.thy ===== *)
theory Spec2Isabelle
  imports Range_Manager_Correct Mem_Table Cassandra_Wal Cassandra_Storage Universe Frontend
begin

text \<open>
  \<^bold>\<open>Sangria: a verification development\<close>

  Sangria is a distributed transactional key-value store written in Rust. A client talks to a
  \<^emph>\<open>frontend\<close>, whose \<^emph>\<open>coordinator\<close> runs a transaction: it buffers writes, reads through to the
  ranges, and commits in two phases. A \<^emph>\<open>range server\<close> holds ranges of keys, each with a \<^emph>\<open>range
  manager\<close>, a lock, a write-ahead log, a prefetching buffer and storage in Cassandra. A range may
  release its lock when a transaction is prepared; the transactions that read or overwrite its
  writes then depend on it, and the \<^emph>\<open>resolver\<close> commits them in the order of the dependencies, in
  groups. The outcome of a transaction is decided in the \<^emph>\<open>transaction state store\<close>. The \<^emph>\<open>universe\<close>
  keeps the keyspaces and their ranges, and the \<^emph>\<open>warden\<close> assigns ranges to servers.

  \<^bold>\<open>How code is modelled.\<close> A struct is a record, an enum a datatype, an integer a word of its width;
  a hash map is an association list (\<open>hmap\<close>), so that its iteration order is that of the list. A
  fallible call returns \<open>('e, 'a) outcome\<close>: \<open>Ok\<close>, \<open>Err\<close> or, for a panic, \<open>Panic\<close>. An operation takes
  its state and returns the new one with its result. One that waits with its locks released is split
  at the waits, and the parts are put together by a step relation or with what happened in between
  as an argument. Code of other packages is a parameter: the database session (theory \<open>Cql\<close>, with
  the predicates \<open>serves\<close> and \<open>no_errors\<close> on it), the flatbuffer encoding, the skip list, hexadecimal
  and identifier printing, the network, clocks and fresh identifiers. What a theorem needs of one of
  them is a hypothesis of the theorem.

  \<^bold>\<open>The theories\<close> and the sources they model:

  \<^item> \<open>Prelude\<close>: outcomes, hash maps and sets, byte strings. \<open>Common\<close>, \<open>Key_Range\<close>, \<open>Region\<close>, \<open>Errors\<close>:
    the types of \<open>common/src\<close> and \<open>rangeserver/src/error.rs\<close>, with the round trip of the error codes.
  \<^item> \<open>Lock_Table\<close> (\<open>range_manager/lock_table.rs\<close>): the FIFO contract \<open>fifo_mutex\<close>, interpreted on the
    operations; bounded waiting and no lost wake-up over \<open>lock_step\<close>.
  \<^item> \<open>Prefetching_Buffer\<close> (\<open>prefetching_buffer.rs\<close>): bookkeeping over \<open>pf_step\<close>; coherence
    with the storage over \<open>sys_step\<close>, where fetches in flight deliver what they read earlier.
  \<^item> \<open>Range_Interfaces\<close>, \<open>Range_Manager\<close>, \<open>Range_Manager_Correct\<close> (\<open>range_manager/impl.rs\<close> and its traits):
    load, unload, prefetch, get, prepare, abort and commit, part by part; the bookkeeping of prepared
    and early released transactions over \<open>rm_step\<close>, and what a read and a commit do.
  \<^item> \<open>Range_Calls\<close>: the parts as whole calls, and the contract \<open>load_contract\<close> that the server relies on.
    \<open>Range_Wire\<close>, \<open>Range_Server\<close> (\<open>rangeserver/src/server.rs\<close>): the messages and every handler; the locale
    \<open>server_invariant\<close> lifts what the helpers keep to all handlers, and is used for well-formedness, for
    a failed load that is never retried, and for a transaction that no request has read for. \<open>Warden_Handler\<close> (\<open>warden_handler.rs\<close>): the server's side of
    the assignment.
  \<^item> \<open>Range_Client\<close> (\<open>rangeclient/src/client.rs\<close>): a call over the network is the server's operation.
    \<open>Range_Routing\<close> (\<open>coordinator-rangeclient/src\<close>): the answers of the oracle after any lookups (\<open>oracle_run\<close>)
    against a search that does without caches, and the routing of calls.
  \<^item> \<open>Cassandra_Storage\<close> and \<open>Cassandra_Wal\<close> (\<open>storage/cassandra.rs\<close>, \<open>wal/cassandra.rs\<close> of the range
    server): leases and fencing, versions of records with puts and deletes, and the log as the sequence of its entries.
  \<^item> \<open>Mem_Table\<close> (\<open>cache/memtabledb.rs\<close>): refinement of a map with versions, over \<open>mt_reach\<close>.
  \<^item> \<open>Group_Commit\<close>, \<open>Resolver\<close> (\<open>resolver/src/core\<close>): every ready transaction is committed once at every
    range, over \<open>gc_step\<close>; which transactions a commit releases; the worklist ends and never panics, over
    \<open>rv_step\<close>; a cycle of dependencies is never released, over \<open>rv_run\<close>.
  \<^item> \<open>Tx_State_Store\<close> (\<open>tx_state_store/src\<close>), \<open>Transaction\<close> (\<open>coordinator/src/transaction.rs\<close>): the decision
    is final; the buffered writes refine a partial map; no range commits before all are prepared and,
    under the traditional strategy only, the decision has been recorded.
  \<^item> \<open>Frontend\<close> (\<open>frontend/src/frontend.rs\<close>, \<open>coordinator/src/coordinator.rs\<close>): every request, over \<open>fe_reach\<close>;
    what the counter of open clients counts, and the load that a commit hands to the ranges.
  \<^item> \<open>Assignment\<close> (\<open>warden/src\<close>): every range has one owner, over \<open>wd_step\<close>. \<open>Universe\<close> (\<open>universe/src\<close>):
    keyspaces are read back with the names, bounds and order they were created with.

  \<^bold>\<open>Between components.\<close> \<open>servers_are_assigned_disjoint_ranges\<close> puts the warden and its handlers together,
  \<open>remote_calls_are_local\<close> the client, the network and the server, \<open>blind_write_cannot_commit\<close> the
  client, the server and the coordinator, \<open>default_keyspace_is_unusable\<close> the universe, the warden, the
  oracle and the transaction, and this theory the coordinator with the range manager that
  prepares its deletes. Several theorems state how the code departs from what it means to do: deletes
  that no commit follows, batches that are stored by halves, aborts that are overwritten, a log writer that confirms entries it has not written,
  takeovers that both succeed, keyspaces that cannot be reached.

  \<^bold>\<open>Bounds.\<close> No model has a fuel bound: recursion is structural or has a measure, as the resolver's
  worklist, whose termination is part of the model. Time is an integer, and a
  floating-point number is a rational, an infinity or not a number, since the code only compares them.

  \<^bold>\<open>Not modelled.\<close> The gRPC clients and service of the resolver and the statements that save the warden's
  assignment (callers take their answers as arguments); the epoch service, sockets, configuration
  files, start-up programs and generated code; histograms, monitoring, the workload generator and the
  test doubles, none of which the modelled components read. Interleavings of two requests on one
  transaction of the frontend are not modelled, and log output is left out throughout.
\<close>

section \<open>Deletes in a two-phase commit\<close>

lemma commit_notifications_writers:
  assumes "tx_ok tx" and "hm_get (t_participants tx) r = Some p" and "writeset p = []"
  shows "Commit_Range r e' \<notin> set (commit_notifications e tx)"
    and "info \<in> set (participants_info tx) \<Longrightarrow> Group_Commit.participant_range info = r \<Longrightarrow> \<not> pri_has_writes info"
proof -
  have p: "q = p" if "(r, q) \<in> set (t_participants tx)" for q
    using assms(1,2) that by (auto simp: tx_ok_def dest: map_of_is_SomeI)
  then show "Commit_Range r e' \<notin> set (commit_notifications e tx)"
    using assms(3) by (auto simp: commit_notifications_def)
  show "info \<in> set (participants_info tx) \<Longrightarrow> Group_Commit.participant_range info = r \<Longrightarrow> \<not> pri_has_writes info"
    using p assms(3) by (auto simp: participants_info_def)
qed

lemma commit_leaves_deleter:
  assumes "tx_ok tx" and "hm_get (t_participants tx) r = Some p" and "writeset p = []"
    and "tx_commit load clients answers abort_answer answer resolver_answer tx = (tx', msgs, Ok ())"
  shows "Prepare_Range r (readset p \<noteq> {}) (writeset p) (deleteset p) load clients \<in> set msgs \<and>
    (\<forall>e. Commit_Range r e \<notin> set msgs) \<and> Abort_Range r \<notin> set msgs \<and>
    (\<forall>ds ps info. Resolver_Commit ds ps \<in> set msgs \<longrightarrow> info \<in> set ps \<longrightarrow>
       Group_Commit.participant_range info = r \<longrightarrow> \<not> pri_has_writes info)"
  using assms(4)
proof (cases rule: tx_commit_cases)
  case (prepared ds decision early)
  note w = commit_notifications_writers [OF assms(1-3)]
  have same: "commit_notifications e (tx\<lparr>t_state := Preparing, t_dependencies := ds'\<rparr>) = commit_notifications e tx"
    "participants_info (tx\<lparr>t_state := Preparing, t_dependencies := ds'\<rparr>) = participants_info tx" for e ds'
    by (simp_all add: commit_notifications_def participants_info_def)
  have "(r, p) \<in> set (t_participants tx)" using assms(2) by (rule map_of_SomeD)
  then have "Prepare_Range r (readset p \<noteq> {}) (writeset p) (deleteset p) load clients \<in> set msgs"
    by (force simp: prepared(4) prepare_requests_def)
  moreover have "Commit_Range r e \<notin> set decision" "Abort_Range r \<notin> set decision" for e
    using prepared(5) w(1)
    by (auto simp: commit_traditional_def commit_pipelined_def same commit_notifications_def
        split: if_splits outcome.splits op_result.splits)
  moreover have "\<not> pri_has_writes info"
    if "Resolver_Commit ds' ps \<in> set decision" "info \<in> set ps" "Group_Commit.participant_range info = r" for ds' ps info
    using prepared(5) w(2) that by (auto simp: commit_traditional_def commit_pipelined_def same commit_notifications_def
        split: if_splits outcome.splits op_result.splits)
  ultimately show ?thesis
    unfolding prepared(4) by (auto simp: prepare_requests_def)
qed simp_all

lemma delete_record:
  assumes "\<forall>k\<in>set dels. kr_includes b k"
  obtains acc' where "record_deletes b (map Some dels) acc = Ok acc'"
    and "\<And>k. hm_get acc' k = (if k \<in> set dels then Some None else hm_get acc k)"
  using assms
proof (induction dels arbitrary: acc thesis)
  case (Cons k dels)
  from Cons.IH [of "hm_insert k None acc"] Cons.prems(2) obtain acc' where
    "record_deletes b (map Some dels) (hm_insert k None acc) = Ok acc'"
    "\<And>k'. hm_get acc' k' = (if k' \<in> set dels then Some None else hm_get (hm_insert k None acc) k')" by auto
  with Cons.prems show ?case by (intro Cons.prems(1)) auto
qed simp

text \<open>A prepare request without puts enters with a record of its deletes, and gets a lock that is free.\<close>

lemma prepare_enter_deletes:
  assumes "rm_state rm = Loaded st" and "dels \<noteq> []" and "\<forall>k\<in>set dels. kr_includes (ri_key_range (range_info st)) k"
    and "is_currently_holding [ti_id info] (ls_lock_table st) \<or> current_holder (ls_lock_table st) = None \<and> \<not> reads"
    and "prepare_enter alive now now' ch info (client_prepare_request to_le req_id t i reads [] dels load clients) rm =
      (rm1, sent, entered)"
  obtains rec st1 where "entered = Ok (Inr (ch, rec))" and "sent = [ch]" and "rm_state rm1 = Loaded st1"
    and "\<And>k. hm_get (changes rec) k = (if k \<in> set dels then Some None else None)"
    and "is_currently_holding [ti_id info] (ls_lock_table st1)"
proof -
  obtain acc where acc: "record_deletes (ri_key_range (range_info st)) (map Some dels) [] = Ok acc"
    "\<And>k. hm_get acc k = (if k \<in> set dels then Some None else hm_get [] k)"
    using delete_record [OF assms(3)] by blast
  have "has_writes (client_prepare_request to_le req_id t i reads [] dels load clients)"
    using assms(2) by (simp add: has_writes_def client_prepare_request_def)
  moreover have "build_prepare_record (ri_key_range (range_info st))
      (client_prepare_request to_le req_id t i reads [] dels load clients) = Ok \<lparr>changes = acc\<rparr>"
    by (simp add: build_prepare_record_def client_prepare_request_def acc)
  ultimately show ?thesis
    using assms(1,4,5) acc(2)
    by (intro that [of "\<lparr>changes = acc\<rparr>" "fst (acquire_range_lock now now' ch info st)"])
      (auto simp: prepare_enter_def acquire_range_lock_def acquire_def is_currently_holding_def client_prepare_request_def
        split: option.splits if_splits)
qed

text \<open>A prepare that succeeds leaves the record, and the lock unless it has been released early.\<close>

lemma prepare_locked_keeps:
  assumes "rm_state rm = Loaded st"
    and "prepare_locked wo order lts alive now tx req rec rm = (rm', sent, Ok reply)"
  shows "\<exists>st'. rm_state rm' = Loaded st' \<and> pending_prepare_records (pending_state st') (ti_id tx) = Some rec \<and>
    (released_lock_early reply \<or> ls_lock_table st' = ls_lock_table st)"
proof -
  obtain ps deps where ps: "prepared (cfg_commit_strategy (rm_config rm)) (ti_id tx) rec
      (decisions (rm_config rm) order lts req rec) (pending_state st) = (ps, deps)" by fastforce
  obtain w r where w: "append_prepare wo req (rm_wal rm) = (w, r)" by fastforce
  have "pending_prepare_records ps (ti_id tx) = Some rec" using ps by (auto simp: prepared_def split: if_splits)
  with assms(2) show ?thesis
    unfolding prepare_locked_eq [OF assms(1) refl ps w] Let_def
    by (auto split: outcome.splits list.splits if_splits)
qed

text \<open>
  C31: A range in which a transaction only deletes keys is prepared and then left alone. Its range
  manager, loaded, with the keys in its range and its lock free or held by the transaction, enters the
  prepare request that the coordinator's client sends with a record of the deletes and the lock; when
  the prepare succeeds, it holds the record, and the lock unless it gave it up early. But a
  successful commit sends the range neither a commit nor an abort message, and a commit through the
  resolver names it as a range without writes.
\<close>

theorem delete_only_range_never_commits:
  assumes "tx_ok tx" and "hm_get (t_participants tx) r = Some p" and "writeset p = []" and "deleteset p \<noteq> []"
    and "tx_commit load clients answers abort_answer answer resolver_answer tx = (tx', msgs, Ok ())"
    and "rm_state rm = Loaded st" and "\<forall>k\<in>set (deleteset p). kr_includes (ri_key_range (range_info st)) k"
    and "is_currently_holding [ti_id (t_info tx)] (ls_lock_table st) \<or>
      current_holder (ls_lock_table st) = None \<and> readset p = {}"
    and "req = client_prepare_request to_le req_id (ti_id (t_info tx)) r (readset p \<noteq> {}) (writeset p) (deleteset p) load clients"
    and "prepare_enter alive now now' ch (t_info tx) req rm = (rm1, sent, entered)"
  shows "Prepare_Range r (readset p \<noteq> {}) (writeset p) (deleteset p) load clients \<in> set msgs \<and>
    (\<exists>rec st1. entered = Ok (Inr (ch, rec)) \<and> sent = [ch] \<and> rm_state rm1 = Loaded st1 \<and>
       (\<forall>k. hm_get (changes rec) k = (if k \<in> set (deleteset p) then Some None else None)) \<and>
       is_currently_holding [ti_id (t_info tx)] (ls_lock_table st1) \<and>
       (\<forall>wo order lts now2 rm2 sent2 reply.
          prepare_locked wo order lts alive now2 (t_info tx) req rec rm1 = (rm2, sent2, Ok reply) \<longrightarrow>
          (\<exists>st2. rm_state rm2 = Loaded st2 \<and>
             pending_prepare_records (pending_state st2) (ti_id (t_info tx)) = Some rec \<and>
             (released_lock_early reply \<or> is_currently_holding [ti_id (t_info tx)] (ls_lock_table st2))))) \<and>
    (\<forall>e. Commit_Range r e \<notin> set msgs) \<and> Abort_Range r \<notin> set msgs \<and>
    (\<forall>ds ps info. Resolver_Commit ds ps \<in> set msgs \<longrightarrow> info \<in> set ps \<longrightarrow>
       Group_Commit.participant_range info = r \<longrightarrow> \<not> pri_has_writes info)"
proof -
  note m = commit_leaves_deleter [OF assms(1-3,5)]
  obtain rec st1 where e: "entered = Ok (Inr (ch, rec))" "sent = [ch]" "rm_state rm1 = Loaded st1"
    "\<And>k. hm_get (changes rec) k = (if k \<in> set (deleteset p) then Some None else None)"
    "is_currently_holding [ti_id (t_info tx)] (ls_lock_table st1)"
    using prepare_enter_deletes [OF assms(6,4,7) _ assms(10) [unfolded assms(9,3)]] assms(8) by blast
  have "\<exists>st2. rm_state rm2 = Loaded st2 \<and> pending_prepare_records (pending_state st2) (ti_id (t_info tx)) = Some rec \<and>
      (released_lock_early reply \<or> is_currently_holding [ti_id (t_info tx)] (ls_lock_table st2))"
    if "prepare_locked wo order lts alive now2 (t_info tx) req rec rm1 = (rm2, sent2, Ok reply)"
    for wo order lts now2 rm2 sent2 reply
    using prepare_locked_keeps [OF e(3) that] e(5) by metis
  with e m show ?thesis by blast
qed

definition wit_deleter :: transaction where
  "wit_deleter = (transaction_new wit_info Traditional wit_keyspace)\<lparr>
     t_participants := [(wit_range, empty_participant\<lparr>deleteset := [[1]]\<rparr>)]\<rparr>"

definition wit_free_rm :: "(bytes \<rightharpoonup> bytes, nat) range_manager" where
  "wit_free_rm = wit_rm\<lparr>rm_state := Loaded (wit_loaded\<lparr>ls_lock_table := lock_table_new\<rparr>)\<rparr>"

theorem delete_only_range_never_commits_witness:
  "(\<exists>tx' msgs. tx_commit (Fin 0) 0 [(wit_range, Ok Transaction.wit_prepared)] Panic (Ok (TransactionIsCommitted 0)) Panic wit_deleter =
     (tx', msgs, Ok ()) \<and> (\<forall>e. Commit_Range wit_range e \<notin> set msgs)) \<and>
   (\<exists>rec. snd (snd (prepare_enter (\<lambda>_. True) 1 1 3 wit_info
        (client_prepare_request (\<lambda>u. u) 4 9 wit_range False [] [[1]] (Fin 0) 0) wit_free_rm)) = Ok (Inr (3, rec)) \<and>
      hm_get (changes rec) [1] = Some None)"
proof -
  obtain tx' msgs where c: "tx_commit (Fin 0) 0 [(wit_range, Ok Transaction.wit_prepared)] Panic
      (Ok (TransactionIsCommitted 0)) Panic wit_deleter = (tx', msgs, Ok ())"
    by (auto simp: tx_commit_def wit_deleter_def transaction_new_def check_still_running_def Let_def
        commit_traditional_def extend_dependencies_def Transaction.wit_prepared_def)
  have ok: "tx_ok wit_deleter" "t_info wit_deleter = wit_info"
    "hm_get (t_participants wit_deleter) wit_range = Some (empty_participant\<lparr>deleteset := [[1]]\<rparr>)"
    by (simp_all add: tx_ok_def wit_deleter_def transaction_new_def p_ok_def empty_participant_def)
  have rm: "rm_state wit_free_rm = Loaded (wit_loaded\<lparr>ls_lock_table := lock_table_new\<rparr>)"
    by (simp add: wit_free_rm_def)
  let ?p = "empty_participant\<lparr>deleteset := [[1]]\<rparr>"
  let ?req = "client_prepare_request (\<lambda>u. u) 4 (ti_id (t_info wit_deleter)) wit_range (readset ?p \<noteq> {}) (writeset ?p)
    (deleteset ?p) (Fin 0) 0"
  obtain rm1 sent entered where e: "prepare_enter (\<lambda>_. True) 1 1 3 (t_info wit_deleter) ?req wit_free_rm = (rm1, sent, entered)"
    by (rule prod_cases3)
  have req: "?req = client_prepare_request (\<lambda>u. u) 4 9 wit_range False [] [[1]] (Fin 0) 0"
    by (simp add: ok(2) wit_info_def empty_participant_def)
  note d = delete_only_range_never_commits [OF ok(1,3) _ _ c rm _ _ refl e]
  have "\<exists>rec. entered = Ok (Inr (3, rec)) \<and> hm_get (changes rec) [1] = Some None" "\<forall>e. Commit_Range wit_range e \<notin> set msgs"
    using d by (auto simp: empty_participant_def wit_loaded_def lock_table_new_def)
  moreover have "snd (snd (prepare_enter (\<lambda>_. True) 1 1 3 wit_info
      (client_prepare_request (\<lambda>u. u) 4 9 wit_range False [] [[1]] (Fin 0) 0) wit_free_rm)) = entered"
    unfolding e [unfolded req, unfolded ok(2)] by simp
  ultimately show ?thesis using c by blast
qed

end
